(* ===== verification/Prelude.thy ===== *)
theory Prelude
  imports Main "HOL-Library.Multiset"
begin

text \<open>
  The prelude of the development: the errors the services raise and the result type that
  carries them, keyed tables (the rows of one Django model, found and saved by primary key),
  Python's string and integer-literal operations on the ASCII and Latin-1 range, and the
  lemma collections the component theories share.
\<close>

section \<open>Errors and results\<close>

text \<open>
  One constructor per exception class the modelled code raises. The messages are wording for
  a person and are left out: the class decides what a caller may catch.
\<close>

datatype error =
    InvalidRequestError
  | ConflictError
  | ForbiddenError
  | TransitionError
  | ImmutableTransactionError
  | DeletionNotConfirmedError
  | ReconciliationError
  | ObservationActionError
  | MalformedPayloadError
  | ValidationError
  | EncryptionError
  | InvalidCiphertextError
  | PlaintextWriteError
  | InvalidCurrencyError
  | CurrencyMismatchError
  | UnknownCurrencyError
  | InvalidMoneyError
  | ValueError
  | KeyError
  | DoesNotExist
  | IntegrityError
  | DuplicateUploadError
  | UnsupportedTaskError
  | FileTooLargeError
  | InvalidFileTypeError
  | ImageDecodeError
  | ImageDimensionsTooLargeError
  | OverrideError
  | ReprocessError
  | RuleError
  | DatabaseError
  | OverflowError

type_synonym 'a result = "error + 'a"

text \<open>
  Sequencing of fallible steps: the first error ends the computation, as an exception does.
  A service has type \<open>db \<Rightarrow> (db \<times> 'a) result\<close>; an \<open>Inl\<close> carries no state, which is the
  rollback of \<open>transaction.atomic\<close>.
\<close>

fun rbind :: "'a result \<Rightarrow> ('a \<Rightarrow> 'b result) \<Rightarrow> 'b result" where
  "rbind (Inl e) f = Inl e"
| "rbind (Inr x) f = f x"

definition raise_if :: "bool \<Rightarrow> error \<Rightarrow> 'a result \<Rightarrow> 'a result" where
  "raise_if b e k = (if b then Inl e else k)"

text \<open>A list comprehension whose body may raise: the first error wins.\<close>

fun rmap :: "('a \<Rightarrow> 'b result) \<Rightarrow> 'a list \<Rightarrow> 'b list result" where
  "rmap f [] = Inr []"
| "rmap f (x # xs) = rbind (f x) (\<lambda>y. rbind (rmap f xs) (\<lambda>ys. Inr (y # ys)))"

text \<open>A \<open>for\<close> loop over a state, whose body may raise.\<close>

fun rfold :: "('a \<Rightarrow> 's \<Rightarrow> 's result) \<Rightarrow> 'a list \<Rightarrow> 's \<Rightarrow> 's result" where
  "rfold f [] s = Inr s"
| "rfold f (x # xs) s = rbind (f x s) (rfold f xs)"

named_theorems result_elims "case analysis of successful results"

lemma rbind_Inr [simp]: "rbind m f = Inr y \<longleftrightarrow> (\<exists>x. m = Inr x \<and> f x = Inr y)"
  by (cases m) auto

lemma rbind_Inl: "rbind m f = Inl e \<longleftrightarrow> m = Inl e \<or> (\<exists>x. m = Inr x \<and> f x = Inl e)"
  by (cases m) auto

lemma raise_if_Inr [simp]: "raise_if b e k = Inr y \<longleftrightarrow> \<not> b \<and> k = Inr y"
  by (simp add: raise_if_def)

lemma raise_if_True [simp]: "raise_if True e k = Inl e"
  by (simp add: raise_if_def)

lemma raise_if_False [simp]: "raise_if False e k = k"
  by (simp add: raise_if_def)

lemma rbind_right [simp]: "rbind m Inr = m"
  by (cases m) auto

text \<open>Evaluation looks at the outcome first, and at the continuation only when there is one.\<close>

lemma rbind_unfold [code_unfold]: "rbind m f = (case m of Inl e \<Rightarrow> Inl e | Inr x \<Rightarrow> f x)"
  by (cases m) simp_all

lemma raise_if_unfold [code_unfold]: "raise_if b e k = (if b then Inl e else k)"
  by (simp add: raise_if_def)

lemma rbind_assoc: "rbind (rbind m f) g = rbind m (\<lambda>x. rbind (f x) g)"
  by (cases m) auto

lemma rmap_Inr_iff: "rmap f xs = Inr ys \<longleftrightarrow> list_all2 (\<lambda>x y. f x = Inr y) xs ys"
  by (induction xs arbitrary: ys) (auto simp: list_all2_Cons1)

lemma rmap_total: "(\<And>x. x \<in> set xs \<Longrightarrow> f x = Inr (g x)) \<Longrightarrow> rmap f xs = Inr (map g xs)"
  by (induction xs) auto

lemma rmap_length: "rmap f xs = Inr ys \<Longrightarrow> length ys = length xs"
  by (auto simp: rmap_Inr_iff dest: list_all2_lengthD)

lemma rmap_cong [fundef_cong]:
  "xs = ys \<Longrightarrow> (\<And>x. x \<in> set ys \<Longrightarrow> f x = g x) \<Longrightarrow> rmap f xs = rmap g ys"
  by (induction ys arbitrary: xs) auto

text \<open>An invariant of the body is an invariant of the loop.\<close>

lemma rfold_invariant:
  assumes "rfold f xs s = Inr s'" "P s"
    and "\<And>x s s'. x \<in> set xs \<Longrightarrow> P s \<Longrightarrow> f x s = Inr s' \<Longrightarrow> P s'"
  shows "P s'"
  using assms
proof (induction xs arbitrary: s)
  case Nil
  then show ?case by simp
next
  case (Cons x xs)
  from Cons.prems(1) obtain t where t: "f x s = Inr t" "rfold f xs t = Inr s'" by auto
  have "P t" using Cons.prems(2,3) t(1) by auto
  then show ?case using Cons.IH [OF t(2)] Cons.prems(3) by auto
qed

section \<open>Keyed tables\<close>

text \<open>
  A table is the list of its rows in insertion order. \<open>find_row\<close> is
  \<open>objects.filter(pk=k).first()\<close>, \<open>put_row\<close> is the \<open>UPDATE\<close> of \<open>row.save()\<close> and inserting
  appends. Keys are natural numbers: the code draws \<open>uuid4\<close> keys, of which the model uses
  only that they are distinct.
\<close>

type_synonym id = nat

definition find_row :: "('r \<Rightarrow> id) \<Rightarrow> 'r list \<Rightarrow> id \<Rightarrow> 'r option" where
  "find_row pk rows k = find (\<lambda>r. pk r = k) rows"

definition put_row :: "('r \<Rightarrow> id) \<Rightarrow> 'r \<Rightarrow> 'r list \<Rightarrow> 'r list" where
  "put_row pk r rows = map (\<lambda>x. if pk x = pk r then r else x) rows"

definition keys :: "('r \<Rightarrow> id) \<Rightarrow> 'r list \<Rightarrow> id list" where
  "keys pk rows = map pk rows"

lemma find_row_Nil [simp]: "find_row pk [] k = None"
  by (simp add: find_row_def)

lemma find_row_Cons [simp]:
  "find_row pk (x # xs) k = (if pk x = k then Some x else find_row pk xs k)"
  by (simp add: find_row_def)

lemma find_row_SomeD: "find_row pk rows k = Some r \<Longrightarrow> r \<in> set rows \<and> pk r = k"
  by (induction rows) (auto split: if_splits)

lemma find_row_pk: "find_row pk rows k = Some r \<Longrightarrow> pk r = k"
  by (auto dest: find_row_SomeD)

lemma find_row_None_iff: "find_row pk rows k = None \<longleftrightarrow> k \<notin> set (keys pk rows)"
  by (induction rows) (auto simp: keys_def)

lemma find_row_distinct:
  "distinct (keys pk rows) \<Longrightarrow> r \<in> set rows \<Longrightarrow> find_row pk rows (pk r) = Some r"
  by (induction rows) (auto simp: keys_def image_iff)

lemma find_row_append:
  "find_row pk (xs @ ys) k =
     (case find_row pk xs k of Some r \<Rightarrow> Some r | None \<Rightarrow> find_row pk ys k)"
  by (induction xs) auto

text \<open>A bulk \<open>update()\<close> that keeps the keys, seen by a lookup.\<close>

lemma find_row_map:
  "(\<And>r. pk (f r) = pk r) \<Longrightarrow> find_row pk (map f rows) k = map_option f (find_row pk rows k)"
  by (induction rows) auto

lemma find_row_put_same:
  "find_row pk rows (pk r) = Some r0 \<Longrightarrow> find_row pk (put_row pk r rows) (pk r) = Some r"
  by (induction rows) (auto simp: put_row_def split: if_splits)

lemma find_row_put_other:
  "k \<noteq> pk r \<Longrightarrow> find_row pk (put_row pk r rows) k = find_row pk rows k"
  by (induction rows) (auto simp: put_row_def)

lemma find_row_put:
  "find_row pk (put_row pk r rows) k =
     (if k = pk r \<and> find_row pk rows k \<noteq> None then Some r else find_row pk rows k)"
  by (induction rows) (auto simp: put_row_def)

lemma keys_put_row [simp]: "keys pk (put_row pk r rows) = keys pk rows"
  by (induction rows) (auto simp: put_row_def keys_def)

lemma length_put_row [simp]: "length (put_row pk r rows) = length rows"
  by (simp add: put_row_def)

lemma set_put_row: "set (put_row pk r rows) \<subseteq> insert r (set rows)"
  by (auto simp: put_row_def)

lemma put_row_absent: "find_row pk rows (pk r) = None \<Longrightarrow> put_row pk r rows = rows"
  by (induction rows) (auto simp: put_row_def split: if_splits)

text \<open>
  The interface a service relies on when it locks a row, changes it and saves it: a lookup
  after the save returns the saved row, and every other row reads as before.
\<close>

locale keyed_store =
  fixes get :: "'s \<Rightarrow> id \<Rightarrow> 'r option"
    and put :: "'r \<Rightarrow> 's \<Rightarrow> 's"
    and pk :: "'r \<Rightarrow> id"
  assumes get_pk: "get s k = Some r \<Longrightarrow> pk r = k"
    and get_put_same: "get s (pk r) = Some r0 \<Longrightarrow> get (put r s) (pk r) = Some r"
    and get_put_other: "k \<noteq> pk r \<Longrightarrow> get (put r s) k = get s k"
begin

lemma get_put:
  "get s (pk r) = Some r0 \<Longrightarrow> get (put r s) k = (if k = pk r then Some r else get s k)"
  using get_put_same get_put_other by auto

lemma put_keeps_domain: "get s (pk r) = Some r0 \<Longrightarrow> get (put r s) k = None \<longleftrightarrow> get s k = None"
  by (simp add: get_put)

end

section \<open>Running totals\<close>

text \<open>
  A dictionary that accumulates integers (\<open>defaultdict(int)\<close> with \<open>totals[k] += n\<close>): an
  association list in insertion order. \<open>tally\<close> is the loop over the items.
\<close>

fun bump :: "'k \<Rightarrow> int \<Rightarrow> ('k \<times> int) list \<Rightarrow> ('k \<times> int) list" where
  "bump k n [] = [(k, n)]"
| "bump k n ((k', m) # ps) = (if k' = k then (k', m + n) # ps else (k', m) # bump k n ps)"

definition tally :: "('k \<times> int) list \<Rightarrow> ('k \<times> int) list" where
  "tally items = foldl (\<lambda>acc (k, n). bump k n acc) [] items"

definition total_at :: "'k \<Rightarrow> ('k \<times> int) list \<Rightarrow> int" where
  "total_at k items = (\<Sum>(k', n) \<leftarrow> items. if k' = k then n else 0)"

lemma total_at_simps [simp]:
  "total_at k [] = 0"
  "total_at k ((k', n) # ps) = (if k' = k then n else 0) + total_at k ps"
  "total_at k (xs @ ys) = total_at k xs + total_at k ys"
  by (simp_all add: total_at_def)

lemma fst_bump: "fst ` set (bump k n ps) = insert k (fst ` set ps)"
  by (induction k n ps rule: bump.induct) (simp_all add: insert_commute)

lemma distinct_bump: "distinct (map fst ps) \<Longrightarrow> distinct (map fst (bump k n ps))"
proof (induction ps)
  case (Cons p ps)
  then show ?case using fst_bump [of k n ps] by (cases p) auto
qed simp

lemma total_at_bump: "total_at j (bump k n ps) = total_at j ps + (if j = k then n else 0)"
  by (induction ps) auto

lemma sum_bump: "(\<Sum>(k', m) \<leftarrow> bump k n ps. f k' * m) = (\<Sum>(k', m) \<leftarrow> ps. f k' * m) + f k * (n::int)"
  by (induction ps) (auto simp: algebra_simps)

lemma tally_snoc [simp]: "tally (xs @ [(k, n)]) = bump k n (tally xs)"
  by (simp add: tally_def)

lemma tally_Nil [simp]: "tally [] = []"
  by (simp add: tally_def)

lemma fst_tally: "fst ` set (tally items) = fst ` set items"
proof (induction items rule: rev_induct)
  case (snoc x xs)
  then show ?case by (cases x) (simp add: fst_bump)
qed simp

lemma distinct_tally: "distinct (map fst (tally items))"
proof (induction items rule: rev_induct)
  case (snoc x xs)
  then show ?case by (cases x) (simp add: distinct_bump)
qed simp

lemma total_at_tally: "total_at k (tally items) = total_at k items"
proof (induction items rule: rev_induct)
  case (snoc x xs)
  then show ?case by (cases x) (simp add: total_at_bump)
qed simp

text \<open>Nothing is lost and nothing counted twice: any weighting of the totals by key.\<close>

lemma sum_tally: "(\<Sum>(k, m) \<leftarrow> tally items. f k * m) = (\<Sum>(k, m) \<leftarrow> items. f k * m)"
proof (induction items rule: rev_induct)
  case (snoc x xs)
  then show ?case by (cases x) (simp add: sum_bump)
qed simp

lemma total_at_distinct:
  "distinct (map fst ps) \<Longrightarrow> (k, n) \<in> set ps \<Longrightarrow> total_at k ps = n"
proof (induction ps)
  case (Cons p ps)
  have "k \<notin> fst ` set ps \<Longrightarrow> total_at k ps = 0" for k
    by (induction ps) auto
  with Cons show ?case by (cases p) force
qed simp

lemma tally_value: "(k, n) \<in> set (tally items) \<Longrightarrow> n = total_at k items"
  using total_at_distinct [OF distinct_tally] by (metis total_at_tally)

section \<open>The first of a sorted list\<close>

text \<open>\<open>.first()\<close> of a query set, and the first row of a stable sort.\<close>

definition first_of :: "'a list \<Rightarrow> 'a option" where
  "first_of xs = (case xs of [] \<Rightarrow> None | x # _ \<Rightarrow> Some x)"

lemma first_of_None [simp]: "first_of xs = None \<longleftrightarrow> xs = []"
  by (simp add: first_of_def split: list.splits)

lemma first_of_in: "first_of xs = Some x \<Longrightarrow> x \<in> set xs"
  by (simp add: first_of_def split: list.splits)

lemma sort_key_Nil [simp]: "sort_key f xs = [] \<longleftrightarrow> xs = []"
  by (metis set_empty set_sort)

lemma first_of_sort:
  assumes "first_of (sort_key f xs) = Some x" and "y \<in> set xs"
  shows "f x \<le> (f y :: 'b :: linorder)"
proof -
  obtain zs where z: "sort_key f xs = x # zs" using assms(1) by (auto simp: first_of_def split: list.splits)
  have "sorted (map f (x # zs))" using sorted_sort_key [of f xs] unfolding z .
  moreover have "y \<in> set (x # zs)" using assms(2) unfolding z [symmetric] by simp
  ultimately show ?thesis by auto
qed

text \<open>A stable sort keeps the order of the rows that tie.\<close>

lemma first_of_sort_tie:
  assumes "first_of (sort_key f (sort_key g xs)) = Some x" and "y \<in> set xs" and "f y = f x"
  shows "g x \<le> (g y :: 'c :: linorder)"
proof -
  obtain zs where z: "sort_key f (sort_key g xs) = x # zs" using assms(1) by (auto simp: first_of_def split: list.splits)
  have "filter (\<lambda>w. f w = f x) (sort_key f (sort_key g xs)) = filter (\<lambda>w. f w = f x) (sort_key g xs)"
    by (rule sort_key_stable)
  then have e: "x # filter (\<lambda>w. f w = f x) zs = sort_key g (filter (\<lambda>w. f w = f x) xs)"
    unfolding z by (simp add: filter_sort)
  have "sorted (map g (x # filter (\<lambda>w. f w = f x) zs))" unfolding e by (rule sorted_sort_key)
  moreover have "y \<in> set (x # filter (\<lambda>w. f w = f x) zs)" unfolding e using assms(2,3) by simp
  ultimately show ?thesis by auto
qed

end
