(* ===== verification/Money.thy ===== *)
theory Money
  imports PyText "HOL-Library.Char_ord"
begin

text \<open>
  The money layer: the currency registry of \<open>apps/core/currencies.py\<close>, the value objects
  \<open>Currency\<close> and \<open>Money\<close> of \<open>apps/core/value_objects.py\<close> with the decimal arithmetic they
  use, and the amount encoding of \<open>apps/core/encrypted_values.py\<close>. Text that may hold
  symbols beyond Latin-1 is a list of code points.
\<close>

type_synonym utext = "nat list"

abbreviation ascii :: "string \<Rightarrow> utext" where
  "ascii s \<equiv> map of_char s"

section \<open>The currency registry\<close>

record currency_definition =
  cur_code :: string
  cur_name :: string
  cur_symbol :: utext
  minor_unit_exponent :: nat
  symbol_leads :: bool

definition minor_units_per_unit :: "currency_definition \<Rightarrow> nat" where
  "minor_units_per_unit d = 10 ^ minor_unit_exponent d"

definition currency_definitions :: "currency_definition list" where
  "currency_definitions = map (\<lambda>(c, n, s, e).
       \<lparr>cur_code = c, cur_name = n, cur_symbol = s, minor_unit_exponent = e, symbol_leads = True\<rparr>)
     [(''KRW'', ''South Korean won'', [8361], 0),
      (''JPY'', ''Japanese yen'', [165], 0),
      (''USD'', ''United States dollar'', ascii ''$'', 2),
      (''EUR'', ''Euro'', [8364], 2),
      (''GBP'', ''Pound sterling'', [163], 2),
      (''CNY'', ''Chinese yuan'', [165], 2),
      (''HKD'', ''Hong Kong dollar'', ascii ''HK$'', 2),
      (''SGD'', ''Singapore dollar'', ascii ''S$'', 2),
      (''AUD'', ''Australian dollar'', ascii ''A$'', 2),
      (''CAD'', ''Canadian dollar'', ascii ''C$'', 2),
      (''CHF'', ''Swiss franc'', ascii ''CHF'', 2),
      (''THB'', ''Thai baht'', [3647], 2),
      (''VND'', ''Vietnamese dong'', [8363], 0),
      (''TWD'', ''New Taiwan dollar'', ascii ''NT$'', 2)]"

definition REGISTRY :: "string \<Rightarrow> currency_definition option" where
  "REGISTRY c = find (\<lambda>d. cur_code d = c) currency_definitions"

definition normalize_code :: "string \<Rightarrow> string" where
  "normalize_code c = upper (strip c)"

definition is_supported :: "string \<Rightarrow> bool" where
  "is_supported c = (REGISTRY (normalize_code c) \<noteq> None)"

text \<open>Evaluation finds the home currency without building the table.\<close>

lemma is_supported_code [code]:
  "is_supported c = (if normalize_code c = ''KRW'' then True else REGISTRY (normalize_code c) \<noteq> None)"
  by (simp add: is_supported_def REGISTRY_def currency_definitions_def)

definition definition_for :: "string \<Rightarrow> currency_definition result" where
  "definition_for c =
     (case REGISTRY (normalize_code c) of
        Some d \<Rightarrow> Inr d
      | None \<Rightarrow> Inl UnknownCurrencyError)"

section \<open>Currency\<close>

text \<open>\<open>Currency.__post_init__\<close>: the validated code, or \<open>InvalidCurrencyError\<close>.\<close>

definition code_pattern :: "string \<Rightarrow> bool" where
  "code_pattern s = (length s = 3 \<and> list_all (\<lambda>c. 65 \<le> code c \<and> code c \<le> 90) s)"

definition Currency :: "string \<Rightarrow> string result" where
  "Currency c =
     (let normalized = normalize_code c in
      if \<not> code_pattern normalized then Inl InvalidCurrencyError
      else if \<not> is_supported normalized then Inl InvalidCurrencyError
      else Inr normalized)"

definition decimal_places :: "string \<Rightarrow> nat" where
  "decimal_places c =
     (case definition_for c of Inr d \<Rightarrow> minor_unit_exponent d | Inl _ \<Rightarrow> 0)"

section \<open>Money\<close>

record money =
  amount_minor :: int
  currency :: string

text \<open>The constructor \<open>Money(amount, currency)\<close> with a currency given as text.\<close>

definition Money :: "int \<Rightarrow> string \<Rightarrow> money result" where
  "Money n c = rbind (Currency c) (\<lambda>k. Inr \<lparr>amount_minor = n, currency = k\<rparr>)"

definition assert_same_currency :: "money \<Rightarrow> money \<Rightarrow> 'a result \<Rightarrow> 'a result" where
  "assert_same_currency a b k = raise_if (currency a \<noteq> currency b) CurrencyMismatchError k"

definition money_add :: "money \<Rightarrow> money \<Rightarrow> money result" where
  "money_add a b = assert_same_currency a b
     (Inr \<lparr>amount_minor = amount_minor a + amount_minor b, currency = currency a\<rparr>)"

definition money_sub :: "money \<Rightarrow> money \<Rightarrow> money result" where
  "money_sub a b = assert_same_currency a b
     (Inr \<lparr>amount_minor = amount_minor a - amount_minor b, currency = currency a\<rparr>)"

definition money_neg :: "money \<Rightarrow> money" where
  "money_neg a = a\<lparr>amount_minor := - amount_minor a\<rparr>"

definition money_abs :: "money \<Rightarrow> money" where
  "money_abs a = a\<lparr>amount_minor := \<bar>amount_minor a\<bar>\<rparr>"

definition is_zero :: "money \<Rightarrow> bool" where
  "is_zero a = (amount_minor a = 0)"

text \<open>A value the constructor returned: its currency is a registered, normalised code.\<close>

definition valid_money :: "money \<Rightarrow> bool" where
  "valid_money m = (Currency (currency m) = Inr (currency m))"

subsection \<open>Decimals\<close>

text \<open>
  A finite \<open>Decimal\<close> is a coefficient and a power of ten; infinities and NaN are one case.
  The default context keeps 28 significant digits: \<open>quantize\<close> refuses a longer result and
  \<open>scaleb\<close> rounds it half to even.
\<close>

datatype decimal = Finite int int | NotFinite

definition precision :: nat where
  "precision = 28"

definition half_up_div :: "nat \<Rightarrow> nat \<Rightarrow> nat" where
  "half_up_div n d = (2 * n + d) div (2 * d)"

text \<open>Coefficient of \<open>Decimal(c, e).quantize(10^-p, ROUND_HALF_UP)\<close>.\<close>

definition quantize_coeff :: "int \<Rightarrow> int \<Rightarrow> nat \<Rightarrow> int" where
  "quantize_coeff c e p =
     (let k = e + int p; a = nat \<bar>c\<bar> in
      sgn c * int (if 0 \<le> k then a * 10 ^ nat k else half_up_div a (10 ^ nat (- k))))"

definition from_decimal :: "decimal option \<Rightarrow> string \<Rightarrow> money result" where
  "from_decimal value c = rbind (Currency c) (\<lambda>k.
     case value of
       Some (Finite n e) \<Rightarrow>
         (let m = quantize_coeff n e (decimal_places k) in
          if \<bar>m\<bar> < 10 ^ precision then Inr \<lparr>amount_minor = m, currency = k\<rparr>
          else Inl InvalidMoneyError)
     | Some NotFinite \<Rightarrow> Inl InvalidMoneyError
     | None \<Rightarrow> Inl InvalidMoneyError)"

definition context_round :: "int \<Rightarrow> int \<Rightarrow> decimal" where
  "context_round c e =
     (let a = nat \<bar>c\<bar>; n = length (show_nat a) in
      if n \<le> precision then Finite c e
      else let k = n - precision; q = a div 10 ^ k; r = a mod 10 ^ k;
               q' = (if 2 * r > 10 ^ k \<or> 2 * r = 10 ^ k \<and> odd q then q + 1 else q)
           in if q' = 10 ^ precision
              then Finite (sgn c * int (q' div 10)) (e + int k + 1)
              else Finite (sgn c * int q') (e + int k))"

definition decimal_amount :: "money \<Rightarrow> decimal" where
  "decimal_amount m = context_round (amount_minor m) (- int (decimal_places (currency m)))"

subsection \<open>Rendering\<close>

text \<open>
  \<open>Money.format\<close> for amounts within the decimal context (28 digits): the figure with the
  registry's decimals, thousands grouped, the symbol in front.
\<close>

fun pad_digits :: "nat \<Rightarrow> nat \<Rightarrow> string" where
  "pad_digits 0 r = []"
| "pad_digits (Suc w) r = pad_digits w (r div 10) @ [digit_char (r mod 10)]"

fun group3_rev :: "string \<Rightarrow> string" where
  "group3_rev (a # b # c # d # xs) = a # b # c # CHR '','' # group3_rev (d # xs)"
| "group3_rev xs = xs"

definition group3 :: "string \<Rightarrow> string" where
  "group3 s = rev (group3_rev (rev s))"

definition fixed_point :: "bool \<Rightarrow> nat \<Rightarrow> nat \<Rightarrow> string" where
  "fixed_point grouping places n =
     (let whole = show_nat (n div 10 ^ places) in
      (if grouping then group3 whole else whole) @
      (if places = 0 then [] else CHR ''.'' # pad_digits places (n mod 10 ^ places)))"

definition format_money :: "money \<Rightarrow> bool \<Rightarrow> bool \<Rightarrow> utext result" where
  "format_money m symbol grouping = rbind (definition_for (currency m)) (\<lambda>d.
     let digits = fixed_point grouping (minor_unit_exponent d) (nat \<bar>amount_minor m\<bar>);
         sign = (if amount_minor m < 0 then ''-'' else [])
     in if \<not> symbol then Inr (ascii (sign @ digits @ '' '' @ cur_code d))
        else if symbol_leads d then Inr (ascii sign @ cur_symbol d @ ascii digits)
        else Inr (ascii sign @ ascii digits @ [160] @ cur_symbol d))"

definition str_money :: "money \<Rightarrow> string result" where
  "str_money m = rbind (definition_for (currency m)) (\<lambda>d.
     Inr ((if amount_minor m < 0 then ''-'' else []) @
          fixed_point False (minor_unit_exponent d) (nat \<bar>amount_minor m\<bar>) @ '' '' @ currency m))"

section \<open>The stored encoding\<close>

text \<open>\<open>minor_units:CURRENCY\<close>, the string that is encrypted.\<close>

definition encode_money :: "money \<Rightarrow> string" where
  "encode_money m = show_int (amount_minor m) @ '':'' @ currency m"

definition decode_money :: "string \<Rightarrow> money result" where
  "decode_money payload =
     (let minor = partition_head CHR '':'' payload; cur = partition_tail CHR '':'' payload in
      case py_int minor of
        None \<Rightarrow> Inl MalformedPayloadError
      | Some n \<Rightarrow>
          (case Currency cur of
             Inl _ \<Rightarrow> Inl MalformedPayloadError
           | Inr k \<Rightarrow> Inr \<lparr>amount_minor = n, currency = k\<rparr>))"


section \<open>Facts about currencies and amounts\<close>

definition registered_codes :: "string list" where
  "registered_codes = map cur_code currency_definitions"

lemma registered_codes_canonical:
  "list_all (\<lambda>k. code_pattern k \<and> normalize_code k = k) registered_codes"
  by code_simp

lemma distinct_registered_codes: "distinct registered_codes"
  by code_simp

lemma registered_code_chars:
  "list_all (list_all (\<lambda>c. c \<noteq> CHR '':'')) registered_codes"
  by code_simp

lemma REGISTRY_iff: "REGISTRY k \<noteq> None \<longleftrightarrow> k \<in> set registered_codes"
  by (auto simp: REGISTRY_def registered_codes_def find_None_iff)

lemma registered_normal [simp]: "k \<in> set registered_codes \<Longrightarrow> normalize_code k = k"
  using registered_codes_canonical by (auto simp: list_all_iff)

lemma Currency_Inr_iff:
  "Currency c = Inr k \<longleftrightarrow> k = normalize_code c \<and> k \<in> set registered_codes"
proof -
  have "code_pattern k" if "k \<in> set registered_codes" for k
    using that registered_codes_canonical by (auto simp: list_all_iff)
  moreover have "normalize_code (normalize_code c) = normalize_code c \<or> normalize_code c \<notin> set registered_codes"
    using registered_normal by auto
  moreover have "is_supported (normalize_code c) \<longleftrightarrow> normalize_code c \<in> set registered_codes"
    if "code_pattern (normalize_code c)"
    unfolding is_supported_def REGISTRY_iff
  proof
    assume a: "normalize_code (normalize_code c) \<in> set registered_codes"
    have "strip (normalize_code c) = normalize_code c"
      using that by (intro strip_no_space) (auto simp: code_pattern_def list_all_iff is_space_def)
    moreover have "upper (normalize_code c) = normalize_code c"
      using that by (intro upper_id) (auto simp: code_pattern_def list_all_iff)
    ultimately show "normalize_code c \<in> set registered_codes"
      using a by (simp add: normalize_code_def)
  qed (metis registered_normal)
  ultimately show ?thesis
    by (auto simp: Currency_def Let_def)
qed

lemma Currency_KRW [simp]: "Currency ''KRW'' = Inr ''KRW''"
  by code_simp

lemma Currency_USD [simp]: "Currency ''USD'' = Inr ''USD''"
  by code_simp

lemma Currency_idem: "Currency c = Inr k \<Longrightarrow> Currency k = Inr k"
  unfolding Currency_Inr_iff by (metis registered_normal)

lemma Currency_error: "Currency c = Inl e \<Longrightarrow> e = InvalidCurrencyError"
  by (auto simp: Currency_def Let_def split: if_splits)

lemma valid_money_iff: "valid_money m \<longleftrightarrow> currency m \<in> set registered_codes"
  by (auto simp: valid_money_def Currency_Inr_iff)

lemma Money_valid: "Money n c = Inr m \<Longrightarrow> valid_money m \<and> amount_minor m = n"
  by (auto simp: Money_def valid_money_iff Currency_Inr_iff)

lemma definition_for_registered:
  "k \<in> set registered_codes \<Longrightarrow> \<exists>d. definition_for k = Inr d \<and> cur_code d = k \<and> d \<in> set currency_definitions"
proof -
  assume k: "k \<in> set registered_codes"
  then obtain d where d: "REGISTRY k = Some d" using REGISTRY_iff [of k] by auto
  then have "cur_code d = k \<and> d \<in> set currency_definitions"
    by (auto simp: REGISTRY_def find_Some_iff)
  with k d show ?thesis by (auto simp: definition_for_def)
qed

subsection \<open>The stored encoding\<close>

lemma currency_no_colon: "valid_money m \<Longrightarrow> CHR '':'' \<notin> set (currency m)"
  using registered_code_chars by (auto simp: valid_money_iff list_all_iff)

lemma show_int_no_colon: "CHR '':'' \<notin> set (show_int i)"
  by (auto dest!: show_int_chars is_digit_not_sign)

lemma decode_encode:
  assumes "valid_money m"
  shows "decode_money (encode_money m) = Inr m"
proof -
  have "partition_head CHR '':'' (encode_money m) = show_int (amount_minor m)"
    using partition_head_append [OF show_int_no_colon] by (simp add: encode_money_def)
  moreover have "partition_tail CHR '':'' (encode_money m) = currency m"
    using partition_tail_append [OF show_int_no_colon] by (simp add: encode_money_def)
  ultimately show ?thesis
    using assms by (simp add: decode_money_def py_int_show_int valid_money_def)
qed

lemma decode_money_valid: "decode_money s = Inr m \<Longrightarrow> valid_money m"
  by (auto simp: decode_money_def Let_def valid_money_def split: option.splits sum.splits
      dest: Currency_idem)

lemma decode_money_error: "decode_money s = Inl e \<Longrightarrow> e = MalformedPayloadError"
  by (auto simp: decode_money_def Let_def split: option.splits sum.splits)

subsection \<open>Rounding a decimal to minor units\<close>

lemma half_up_div_bound:
  assumes "0 < d"
  shows "2 * \<bar>int (half_up_div n d) * int d - int n\<bar> \<le> int d"
proof -
  define q where "q = half_up_div n d"
  have "2 * d * q \<le> 2 * n + d" unfolding q_def half_up_div_def by (rule times_div_less_eq_dividend)
  moreover have "2 * n + d < 2 * d * Suc q"
    unfolding q_def half_up_div_def using assms
    by (metis dividend_less_times_div mult_Suc_right mult_pos_pos zero_less_numeral add.commute)
  ultimately have b: "2 * (q * d) \<le> 2 * n + d" "2 * n + d < 2 * (q * d) + 2 * d"
    by (simp_all add: algebra_simps)
  define x where "x = q * d"
  have "2 * \<bar>int x - int n\<bar> \<le> int d"
    using b unfolding x_def [symmetric] by (cases "n \<le> x") auto
  then show ?thesis by (simp add: x_def q_def)
qed

lemma quantize_exact: "0 \<le> e + int p \<Longrightarrow> quantize_coeff c e p = c * 10 ^ nat (e + int p)"
  by (simp add: quantize_coeff_def Let_def abs_mult_sgn mult.assoc [symmetric] sgn_mult_abs)

lemma quantize_bound:
  assumes "e + int p < 0"
  shows "2 * \<bar>quantize_coeff c e p * 10 ^ nat (- (e + int p)) - c\<bar> \<le> 10 ^ nat (- (e + int p))"
proof -
  define d where "d = (10::nat) ^ nat (- (e + int p))"
  have d: "0 < d" "int d = 10 ^ nat (- (e + int p))" by (simp_all add: d_def)
  have "quantize_coeff c e p * int d - c = sgn c * (int (half_up_div (nat \<bar>c\<bar>) d) * int d - \<bar>c\<bar>)"
    using assms
    by (simp add: quantize_coeff_def Let_def d_def algebra_simps)
      (metis mult.commute sgn_mult_abs)
  also have "\<bar>\<dots>\<bar> \<le> \<bar>int (half_up_div (nat \<bar>c\<bar>) d) * int d - int (nat \<bar>c\<bar>)\<bar>"
    by (cases "c = 0") (simp_all add: abs_mult)
  finally show ?thesis using half_up_div_bound [OF d(1), of "nat \<bar>c\<bar>"] d(2) by simp
qed

subsection \<open>Rendering\<close>

lemma digits_val_pad: "r < 10 ^ w \<Longrightarrow> digits_val acc (pad_digits w r) = Some (acc * 10 ^ w + r)"
proof (induction w arbitrary: r)
  case (Suc w)
  then have "digits_val acc (pad_digits w (r div 10)) = Some (acc * 10 ^ w + r div 10)" by simp
  moreover have "\<forall>c \<in> set (pad_digits w r'). is_digit c" for r' by (induction w arbitrary: r') auto
  ultimately show ?case by (simp add: digits_val_append algebra_simps)
qed simp

lemma pad_digits_digits: "\<forall>c \<in> set (pad_digits w r). is_digit c"
  by (induction w arbitrary: r) auto

lemma filter_group3_rev: "filter is_digit (group3_rev s) = filter is_digit s"
  by (induction s rule: group3_rev.induct) (auto simp: is_digit_def)

lemma filter_group3: "filter is_digit (group3 s) = filter is_digit s"
  by (simp add: group3_def filter_group3_rev flip: rev_filter)

lemma filter_show_nat: "filter is_digit (show_nat n) = show_nat n"
  by (simp add: show_nat_digits filter_id_conv)

lemma fixed_point_digits:
  "digits_val 0 (filter is_digit (fixed_point g p n)) = Some n"
proof -
  have f: "filter is_digit (fixed_point g p n) = show_nat (n div 10 ^ p) @ pad_digits p (n mod 10 ^ p)"
    using pad_digits_digits [of p "n mod 10 ^ p"]
    by (auto simp: fixed_point_def Let_def filter_group3 filter_show_nat filter_id_conv is_digit_def)
  show ?thesis
    unfolding f
    by (subst digits_val_append)
      (auto simp: show_nat_digits digits_val_show_nat digits_val_pad div_mult_mod_eq)
qed

section \<open>Properties\<close>



text \<open>
  \<open>Money.from_decimal\<close> rounds half up to the currency's minor unit: the amount it returns is
  the decimal itself when the decimal is a whole number of minor units, and otherwise within half
  a minor unit of it; the result is always a valid amount in the named currency.
\<close>

theorem from_decimal_rounds_to_nearest:
  assumes "from_decimal (Some (Finite c e)) cur = Inr m"
  shows "valid_money m \<and> currency m = normalize_code cur \<and>
    (let k = e + int (decimal_places (currency m)) in
       if 0 \<le> k then amount_minor m = c * 10 ^ nat k
       else 2 * \<bar>amount_minor m * 10 ^ nat (- k) - c\<bar> \<le> 10 ^ nat (- k))"
proof -
  from assms have k: "Currency cur = Inr (currency m)"
    and a: "amount_minor m = quantize_coeff c e (decimal_places (currency m))"
    by (auto simp: from_decimal_def Let_def split: if_splits)
  have "valid_money m \<and> currency m = normalize_code cur"
    using k Currency_idem by (auto simp: valid_money_def Currency_Inr_iff)
  then show ?thesis
    using quantize_exact [of e "decimal_places (currency m)" c]
      quantize_bound [of e "decimal_places (currency m)" c] a
    by (auto simp: Let_def not_le)
qed

lemma decimal_places_samples: "decimal_places ''USD'' = 2" "decimal_places ''KRW'' = 0"
  by code_simp+

theorem from_decimal_rounds_witness:
  "from_decimal (Some (Finite 1005 (- 3))) ''USD'' = Inr \<lparr>amount_minor = 101, currency = ''USD''\<rparr> \<and>
   2 * \<bar>101 * 10 - 1005\<bar> \<le> (10::int)"
proof -
  have r: "from_decimal (Some (Finite 1005 (- 3))) ''USD'' = Inr \<lparr>amount_minor = 101, currency = ''USD''\<rparr>"
    by (simp add: from_decimal_def decimal_places_samples quantize_coeff_def half_up_div_def
        precision_def Let_def)
  show ?thesis using from_decimal_rounds_to_nearest [OF r] r
    by (simp add: decimal_places_samples Let_def)
qed

lemma length_show_nat_le: "n < 10 ^ k \<Longrightarrow> 0 < k \<Longrightarrow> length (show_nat n) \<le> k"
proof (induction k arbitrary: n)
  case (Suc k)
  show ?case
  proof (cases "n < 10 \<or> k = 0")
    case False
    then have "length (show_nat (n div 10)) \<le> k" using Suc by (intro Suc.IH) auto
    then show ?thesis using False by (subst show_nat.simps) auto
  next
    case True
    then have "n < 10" using Suc.prems by auto
    then show ?thesis by (subst show_nat.simps) auto
  qed
qed simp

text \<open>
  The decimal reading of an amount is exact within the context's 28 digits: converting it back
  with \<open>from_decimal\<close> gives the amount.
\<close>

theorem decimal_amount_roundtrip:
  assumes "valid_money m" "\<bar>amount_minor m\<bar> < 10 ^ precision"
  shows "from_decimal (Some (decimal_amount m)) (currency m) = Inr m"
proof -
  have "nat \<bar>amount_minor m\<bar> < 10 ^ precision"
    using assms(2) by (simp add: nat_less_iff)
  then have "length (show_nat (nat \<bar>amount_minor m\<bar>)) \<le> precision"
    by (intro length_show_nat_le) (simp_all add: precision_def)
  then have "decimal_amount m = Finite (amount_minor m) (- int (decimal_places (currency m)))"
    by (simp add: decimal_amount_def context_round_def Let_def)
  then show ?thesis
    using assms by (simp add: from_decimal_def valid_money_def quantize_exact)
qed

theorem decimal_amount_roundtrip_witness:
  "from_decimal (Some (decimal_amount \<lparr>amount_minor = 42905, currency = ''USD''\<rparr>)) ''USD'' =
     Inr \<lparr>amount_minor = 42905, currency = ''USD''\<rparr>"
  using decimal_amount_roundtrip [of "\<lparr>amount_minor = 42905, currency = ''USD''\<rparr>"]
  by (simp add: valid_money_def precision_def)

end
