(* ===== verification/Crypto.thy ===== *)
theory Crypto
  imports PyText
begin

text \<open>
  Field encryption: the envelope of \<open>apps/core/crypto.py\<close> and the read and write path of
  \<open>apps/core/encrypted_fields.py\<close>. AES-GCM is the \<open>cryptography\<close> package and is a parameter
  (\<open>aead\<close>); its contract is \<open>aead_ok\<close>. Byte strings are strings of 8-bit characters.
\<close>

section \<open>UTF-8 and base64\<close>

text \<open>\<open>str.encode()\<close> and \<open>bytes.decode()\<close> on code points below 256.\<close>

definition utf8_char :: "char \<Rightarrow> string" where
  "utf8_char c =
     (if code c < (128::nat) then [c]
      else [char_of (192 + code c div 64 :: nat), char_of (128 + code c mod 64 :: nat)])"

definition utf8_encode :: "string \<Rightarrow> string" where
  "utf8_encode s = concat (map utf8_char s)"

fun utf8_decode :: "string \<Rightarrow> string option" where
  "utf8_decode [] = Some []"
| "utf8_decode (b # bs) =
     (if code b < (128::nat) then map_option ((#) b) (utf8_decode bs)
      else (case bs of
              d # ds \<Rightarrow>
                (if 194 \<le> code b \<and> code b < (196::nat) \<and> 128 \<le> code d \<and> code d < (192::nat)
                 then map_option ((#) (char_of ((code b - 192) * 64 + (code d - 128) :: nat)))
                        (utf8_decode ds)
                 else None)
            | [] \<Rightarrow> None))"

text \<open>\<open>base64.urlsafe_b64encode\<close>.\<close>

definition sextet_char :: "nat \<Rightarrow> char" where
  "sextet_char n =
     (if n < 26 then char_of (65 + n) else if n < 52 then char_of (71 + n)
      else if n < 62 then char_of (n - 4) else if n = 62 then CHR ''-'' else CHR ''_'')"

fun b64_encode :: "string \<Rightarrow> string" where
  "b64_encode (a # b # c # xs) =
     sextet_char (code a div 4) # sextet_char (code a mod 4 * 16 + code b div 16) #
     sextet_char (code b mod 16 * 4 + code c div 64) # sextet_char (code c mod 64) # b64_encode xs"
| "b64_encode [a, b] =
     [sextet_char (code a div 4), sextet_char (code a mod 4 * 16 + code b div 16),
      sextet_char (code b mod 16 * 4), CHR ''='']"
| "b64_encode [a] =
     [sextet_char (code a div 4), sextet_char (code a mod 4 * 16), CHR ''='', CHR ''='']"
| "b64_encode [] = []"

text \<open>
  \<open>base64.b64decode(value, altchars=b"-_", validate=True)\<close>: the plain alphabet stays
  accepted beside the alternative characters, padding may close the last group, and further
  padding after a complete group is tolerated.
\<close>

definition sextet_val :: "char \<Rightarrow> nat option" where
  "sextet_val c =
     (let n = code c in
      if 65 \<le> n \<and> n \<le> 90 then Some (n - 65)
      else if 97 \<le> n \<and> n \<le> 122 then Some (n - 71)
      else if 48 \<le> n \<and> n \<le> 57 then Some (n + 4)
      else if n = 45 \<or> n = 43 then Some 62
      else if n = 95 \<or> n = 47 then Some 63
      else None)"

fun b64_groups :: "bool \<Rightarrow> string \<Rightarrow> string option" where
  "b64_groups start [] = Some []"
| "b64_groups start (a # b # c # d # xs) =
     (if \<not> start \<and> list_all (\<lambda>x. x = CHR ''='') (a # b # c # d # xs) then Some []
      else (case (sextet_val a, sextet_val b, sextet_val c, sextet_val d) of
        (Some p, Some q, Some r, Some s) \<Rightarrow>
          map_option ((@) [char_of (p * 4 + q div 16), char_of (q mod 16 * 16 + r div 4),
                           char_of (r mod 4 * 64 + s)]) (b64_groups False xs)
      | (Some p, Some q, Some r, None) \<Rightarrow>
          (if d = CHR ''='' \<and> xs = []
           then Some [char_of (p * 4 + q div 16), char_of (q mod 16 * 16 + r div 4)] else None)
      | (Some p, Some q, None, None) \<Rightarrow>
          (if c = CHR ''='' \<and> d = CHR ''='' \<and> xs = [] then Some [char_of (p * 4 + q div 16)]
           else None)
      | _ \<Rightarrow> None))"
| "b64_groups start xs =
     (if \<not> start \<and> list_all (\<lambda>x. x = CHR ''='') xs then Some [] else None)"

definition b64_decode :: "string \<Rightarrow> string option" where
  "b64_decode s = b64_groups True s"

section \<open>The envelope\<close>

definition FORMAT_VERSION :: string where
  "FORMAT_VERSION = ''v1''"

definition NONCE_SIZE :: nat where
  "NONCE_SIZE = 12"

definition TAG_SIZE :: nat where
  "TAG_SIZE = 16"

record field_context =
  ctx_model :: string
  ctx_record_id :: string
  ctx_field :: string
  ctx_user_id :: string

definition associated_data :: "field_context \<Rightarrow> int \<Rightarrow> string" where
  "associated_data c key_version =
     utf8_encode (join_on CHR ''|''
       [FORMAT_VERSION, show_int key_version, ctx_model c, ctx_record_id c, ctx_field c,
        ctx_user_id c])"

text \<open>
  AES-GCM of the \<open>cryptography\<close> package: \<open>aes_encrypt key nonce plaintext aad\<close> is ciphertext
  followed by the tag, \<open>aes_decrypt\<close> is \<open>None\<close> where the package raises \<open>InvalidTag\<close>.
\<close>

record aead =
  aes_encrypt :: "string \<Rightarrow> string \<Rightarrow> string \<Rightarrow> string \<Rightarrow> string"
  aes_decrypt :: "string \<Rightarrow> string \<Rightarrow> string \<Rightarrow> string \<Rightarrow> string option"

definition aead_ok :: "aead \<Rightarrow> bool" where
  "aead_ok A \<longleftrightarrow> (\<forall>key nonce p aad. length key = 32 \<longrightarrow> length nonce = NONCE_SIZE \<longrightarrow>
     length (aes_encrypt A key nonce p aad) = length p + TAG_SIZE \<and>
     aes_decrypt A key nonce (aes_encrypt A key nonce p aad) aad = Some p)"

definition encrypt_value ::
  "aead \<Rightarrow> string \<Rightarrow> string \<Rightarrow> string \<Rightarrow> field_context \<Rightarrow> int \<Rightarrow> string result" where
  "encrypt_value A nonce plaintext key ctx key_version =
     raise_if (length key \<noteq> 32) EncryptionError
     (raise_if (key_version < 1) EncryptionError
     (let encrypted = aes_encrypt A key nonce (utf8_encode plaintext) (associated_data ctx key_version);
          n = length encrypted - TAG_SIZE;
          ciphertext = take n encrypted; tag = drop n encrypted
      in Inr (join_on CHR ''.''
           [FORMAT_VERSION, show_int key_version, b64_encode nonce, b64_encode ciphertext,
            b64_encode tag])))"

definition decrypt_value :: "aead \<Rightarrow> string \<Rightarrow> string \<Rightarrow> field_context \<Rightarrow> string result" where
  "decrypt_value A envelope key ctx =
     raise_if (length key \<noteq> 32) EncryptionError
     (case split_on CHR ''.'' envelope of
        [format_version, raw_key_version, raw_nonce, raw_ciphertext, raw_tag] \<Rightarrow>
          (case py_int raw_key_version of
             None \<Rightarrow> Inl InvalidCiphertextError
           | Some key_version \<Rightarrow>
               raise_if (format_version \<noteq> FORMAT_VERSION \<or> key_version < 1) InvalidCiphertextError
               (case (b64_decode raw_nonce, b64_decode raw_ciphertext, b64_decode raw_tag) of
                  (Some nonce, Some ciphertext, Some tag) \<Rightarrow>
                    raise_if (length nonce \<noteq> NONCE_SIZE \<or> length tag \<noteq> TAG_SIZE)
                      InvalidCiphertextError
                    (case aes_decrypt A key nonce (ciphertext @ tag)
                            (associated_data ctx key_version) of
                       None \<Rightarrow> Inl InvalidCiphertextError
                     | Some p \<Rightarrow>
                         (case utf8_decode p of
                            None \<Rightarrow> Inl InvalidCiphertextError
                          | Some s \<Rightarrow> Inr s))
                | _ \<Rightarrow> Inl InvalidCiphertextError))
      | _ \<Rightarrow> Inl InvalidCiphertextError)"

definition is_encrypted_value :: "string \<Rightarrow> bool" where
  "is_encrypted_value v = (take 3 v = FORMAT_VERSION @ ''.'')"

definition envelope_key_version :: "string \<Rightarrow> int" where
  "envelope_key_version v =
     (if \<not> is_encrypted_value v then 0
      else (case split_on CHR ''.'' v of
              p0 # p1 # ps \<Rightarrow> (case py_int p1 of Some n \<Rightarrow> n | None \<Rightarrow> 0)
            | _ \<Rightarrow> 0))"

section \<open>Reading and writing a column\<close>

text \<open>
  What one request knows about encryption: the cipher, the nonces \<open>os.urandom\<close> gives (a
  function of the context and version they are drawn for), the key and version in use, the
  \<open>FIELD_ENCRYPTION_REQUIRED\<close> setting, and the lookup of a retired key by the version an
  envelope names (\<open>None\<close> where \<open>_read_under_envelope_version\<close> gives up).
\<close>

record crypto_env =
  env_aead :: aead
  env_nonce :: "field_context \<Rightarrow> int \<Rightarrow> string"
  data_key :: "string option"
  key_version :: int
  encryption_required :: bool
  historic_key :: "string \<Rightarrow> int \<Rightarrow> string option"

definition require_encryption_key :: "crypto_env \<Rightarrow> 'a result \<Rightarrow> 'a result" where
  "require_encryption_key env k =
     raise_if (data_key env = None \<and> encryption_required env) PlaintextWriteError k"

text \<open>One assignment of \<open>encrypt_fields\<close>: an empty value is stored as it is.\<close>

definition encrypt_field :: "crypto_env \<Rightarrow> string \<Rightarrow> field_context \<Rightarrow> string \<Rightarrow> string result" where
  "encrypt_field env key ctx plaintext =
     (if plaintext = [] then Inr []
      else encrypt_value (env_aead env) (env_nonce env ctx (key_version env)) plaintext key ctx
             (key_version env))"

definition read_model_field ::
  "aead \<Rightarrow> string option \<Rightarrow> field_context \<Rightarrow> string \<Rightarrow> string result" where
  "read_model_field A key ctx v =
     (if v = [] \<or> \<not> is_encrypted_value v then Inr v
      else (case key of None \<Rightarrow> Inl EncryptionError | Some k \<Rightarrow> decrypt_value A v k ctx))"

text \<open>
  \<open>read_field\<close>: a failed authentication is retried once under the key the envelope names.
\<close>

definition read_field :: "crypto_env \<Rightarrow> field_context \<Rightarrow> string \<Rightarrow> string result" where
  "read_field env ctx v =
     (case read_model_field (env_aead env) (data_key env) ctx v of
        Inl InvalidCiphertextError \<Rightarrow>
          (let version = envelope_key_version v in
           if version = 0 then Inl InvalidCiphertextError
           else (case historic_key env (ctx_user_id ctx) version of
                   None \<Rightarrow> Inl InvalidCiphertextError
                 | Some k \<Rightarrow> read_model_field (env_aead env) (Some k) ctx v))
      | r \<Rightarrow> r)"

text \<open>
  The write every service makes of a value column: the key is required unless the settings
  allow plain text, in which case the value is stored in clear.
\<close>

definition write_field :: "crypto_env \<Rightarrow> field_context \<Rightarrow> string \<Rightarrow> string result" where
  "write_field env ctx plaintext =
     require_encryption_key env
     (case data_key env of
        None \<Rightarrow> Inr plaintext
      | Some k \<Rightarrow> encrypt_field env k ctx plaintext)"


section \<open>Round trips\<close>

lemma sextet_val_char [simp]: "n < 64 \<Longrightarrow> sextet_val (sextet_char n) = Some n"
  by (auto simp: sextet_val_def sextet_char_def Let_def)

lemma sextet_char_alnum: "n < 64 \<Longrightarrow> code (sextet_char n) \<notin> {46::nat, 61}"
  by (auto simp: sextet_char_def)

lemma sextet_char_not_pad [simp]: "n < 64 \<Longrightarrow> sextet_char n \<noteq> CHR ''=''"
  using sextet_char_alnum [of n] by auto

lemma sextet_char_not_dot: "n < 64 \<Longrightarrow> sextet_char n \<noteq> CHR ''.''"
  using sextet_char_alnum [of n] by auto

lemma sextet_val_pad [simp]: "sextet_val CHR ''='' = None"
  by (simp add: sextet_val_def Let_def)

text \<open>The four sextets of three bytes, and the bytes again.\<close>

lemma code_div_bounds:
  "code c div 4 < (64::nat)" "code c div 16 < (16::nat)" "code c div 64 < (4::nat)"
  by (rule less_mult_imp_div_less, simp)+

lemma code_div_div [simp]:
  "code c div 16 div 16 = (0::nat)" "code c div 64 div 4 = (0::nat)" "code c div 64 mod 4 = (code c div 64 :: nat)"
  "code c div 16 mod 16 = (code c div 16 :: nat)"
  using code_div_bounds by simp_all

lemma sextet_bounds [simp]:
  "code a div 4 < (64::nat)"
  "code a mod 4 * 16 + code b div 16 < (64::nat)"
  "code b mod 16 * 4 + code c div 64 < (64::nat)"
  "code a mod 4 * 16 < (64::nat)" "code b mod 16 * 4 < (64::nat)" "code c mod 64 < (64::nat)"
proof -
  have m: "code a mod 4 < (4::nat)" "code b mod 16 < (16::nat)" "code c mod 64 < (64::nat)" by simp_all
  note b = code_div_bounds(2) [of b] code_div_bounds(3) [of c]
  show "code a div 4 < (64::nat)" by (rule code_div_bounds)
  show "code a mod 4 * 16 + code b div 16 < (64::nat)" using m(1) b(1) by linarith
  show "code b mod 16 * 4 + code c div 64 < (64::nat)" using m(2) b(2) by linarith
  show "code a mod 4 * 16 < (64::nat)" using m(1) by linarith
  show "code b mod 16 * 4 < (64::nat)" using m(2) by linarith
  show "code c mod 64 < (64::nat)" by (rule m(3))
qed

lemma regroup [simp]:
  fixes x y :: nat
  shows "(x mod 4 * 16 + code b div 16) div 16 = x mod 4"
    and "(x mod 4 * 16 + code b div 16) mod 16 = code b div 16"
    and "(x mod 16 * 4 + code c div 64) div 4 = x mod 16"
    and "(x mod 16 * 4 + code c div 64) mod 4 = code c div 64"
    and "x mod 4 * 16 div 16 = x mod 4" "x mod 16 * 4 div 4 = x mod 16"
  using code_div_bounds(2) [of b] code_div_bounds(3) [of c] by simp_all

lemma byte_split [simp]:
  "code b div 4 * 4 + code b mod 4 = (code b :: nat)"
  "code b div 16 * 16 + code b mod 16 = (code b :: nat)"
  "code b div 64 * 64 + code b mod 64 = (code b :: nat)"
  by (rule div_mult_mod_eq)+

lemma b64_groups_encode: "b64_groups start (b64_encode s) = Some s"
  by (induction s arbitrary: start rule: b64_encode.induct) simp_all

lemma b64_decode_encode [simp]: "b64_decode (b64_encode s) = Some s"
  by (simp add: b64_decode_def b64_groups_encode)

lemma b64_encode_no_dot: "CHR ''.'' \<notin> set (b64_encode s)"
  using sextet_char_not_dot by (induction s rule: b64_encode.induct) (auto simp: eq_commute [of "CHR ''.''"])

lemma utf8_decode_encode [simp]: "utf8_decode (utf8_encode s) = Some s"
proof (induction s)
  case (Cons c s)
  then show ?case
  proof (cases "code c < (128::nat)")
    case False
    moreover have "code c < (256::nat)" by simp
    moreover note code_div_bounds(3) [of c] byte_split(3) [of c]
    moreover have "2 \<le> code c div (64::nat)" using False by simp
    ultimately show ?thesis using Cons by (simp add: utf8_encode_def utf8_char_def)
  qed (simp add: utf8_encode_def utf8_char_def)
qed (simp add: utf8_encode_def)

lemma utf8_encode_inj: "utf8_encode s = utf8_encode t \<Longrightarrow> s = t"
  by (metis utf8_decode_encode option.inject)

lemma show_int_no_dot: "CHR ''.'' \<notin> set (show_int i)"
  by (auto dest!: show_int_chars is_digit_not_sign)

lemma encrypt_value_envelope:
  assumes "encrypt_value A nonce p key ctx v = Inr e"
  shows "\<exists>ct tag. e = join_on CHR ''.''
            [FORMAT_VERSION, show_int v, b64_encode nonce, b64_encode ct, b64_encode tag]
         \<and> ct @ tag = aes_encrypt A key nonce (utf8_encode p) (associated_data ctx v)
         \<and> length ct = length (ct @ tag) - TAG_SIZE"
proof -
  let ?enc = "aes_encrypt A key nonce (utf8_encode p) (associated_data ctx v)"
  let ?n = "length ?enc - TAG_SIZE"
  have "e = join_on CHR ''.''
            [FORMAT_VERSION, show_int v, b64_encode nonce, b64_encode (take ?n ?enc), b64_encode (drop ?n ?enc)]"
    using assms by (simp add: encrypt_value_def Let_def)
  then show ?thesis by (intro exI [of _ "take ?n ?enc"] exI [of _ "drop ?n ?enc"]) auto
qed

lemma split_envelope:
  "split_on CHR ''.'' (join_on CHR ''.''
     [FORMAT_VERSION, show_int v, b64_encode n, b64_encode ct, b64_encode tag])
   = [FORMAT_VERSION, show_int v, b64_encode n, b64_encode ct, b64_encode tag]"
  by (rule split_join) (auto simp: FORMAT_VERSION_def b64_encode_no_dot show_int_no_dot)

lemma aead_okD:
  assumes "aead_ok A" "length key = 32" "length nonce = NONCE_SIZE"
  shows "length (aes_encrypt A key nonce p aad) = length p + TAG_SIZE"
    and "aes_decrypt A key nonce (aes_encrypt A key nonce p aad) aad = Some p"
  using assms by (simp_all add: aead_ok_def)

lemma decrypt_encrypt:
  assumes A: "aead_ok A" and k: "length key = 32" and n: "length nonce = NONCE_SIZE"
    and e: "encrypt_value A nonce p key ctx v = Inr e"
  shows "decrypt_value A e key ctx = Inr p"
proof -
  obtain ct tag where e': "e = join_on CHR ''.''
            [FORMAT_VERSION, show_int v, b64_encode nonce, b64_encode ct, b64_encode tag]"
    and ct: "ct @ tag = aes_encrypt A key nonce (utf8_encode p) (associated_data ctx v)"
    and len: "length ct = length (ct @ tag) - TAG_SIZE"
    using encrypt_value_envelope [OF e] by blast
  have all: "length (ct @ tag) = length (utf8_encode p) + TAG_SIZE"
    and dec: "aes_decrypt A key nonce (ct @ tag) (associated_data ctx v) = Some (utf8_encode p)"
    by (simp_all add: ct aead_okD [OF A k n])
  have "length tag = TAG_SIZE" using all len unfolding length_append by linarith
  moreover have "1 \<le> v" using e by (simp add: encrypt_value_def)
  moreover have "split_on CHR ''.'' e
      = [FORMAT_VERSION, show_int v, b64_encode nonce, b64_encode ct, b64_encode tag]"
    unfolding e' by (rule split_envelope)
  ultimately show ?thesis
    using k n dec by (simp add: decrypt_value_def py_int_show_int)
qed

lemma join_take3: "take 3 (join_on sep (FORMAT_VERSION # q # ps)) = FORMAT_VERSION @ [sep]"
  by (simp add: FORMAT_VERSION_def)

lemma encrypted_is_envelope:
  "encrypt_value A nonce p key ctx v = Inr e \<Longrightarrow> is_encrypted_value e"
  using encrypt_value_envelope [of A nonce p key ctx v e] join_take3
  by (auto simp: is_encrypted_value_def simp del: join_on.simps)

lemma envelope_version:
  assumes "encrypt_value A nonce p key ctx v = Inr e"
  shows "envelope_key_version e = v"
proof -
  obtain ct tag where "e = join_on CHR ''.''
            [FORMAT_VERSION, show_int v, b64_encode nonce, b64_encode ct, b64_encode tag]"
    using encrypt_value_envelope [OF assms] by blast
  then have "split_on CHR ''.'' e
      = [FORMAT_VERSION, show_int v, b64_encode nonce, b64_encode ct, b64_encode tag]"
    using split_envelope by metis
  then show ?thesis using encrypted_is_envelope [OF assms]
    by (simp add: envelope_key_version_def py_int_show_int)
qed

section \<open>The column as a codec\<close>

text \<open>
  What a service needs of the environment for its own writes to be readable: a key of the
  right length with an AES-GCM that keeps its contract, or no key where plain text is allowed.
\<close>

definition env_ok :: "crypto_env \<Rightarrow> bool" where
  "env_ok env \<longleftrightarrow>
     (case data_key env of
        None \<Rightarrow> \<not> encryption_required env
      | Some k \<Rightarrow> length k = 32 \<and> 1 \<le> key_version env \<and> aead_ok (env_aead env)
          \<and> (\<forall>ctx v. length (env_nonce env ctx v) = NONCE_SIZE))"

text \<open>
  The interface between an encrypted column and the services that keep money, names or notes
  in it: in a good environment a write of a value that does not itself look like an envelope
  succeeds and reads back as the value.
\<close>

locale column_codec =
  fixes ok :: "'e \<Rightarrow> bool"
    and wr :: "'e \<Rightarrow> 'c \<Rightarrow> string \<Rightarrow> string result"
    and rd :: "'e \<Rightarrow> 'c \<Rightarrow> string \<Rightarrow> string result"
    and sealed :: "string \<Rightarrow> bool"
  assumes write_total: "ok e \<Longrightarrow> \<exists>v. wr e c s = Inr v"
    and read_write: "ok e \<Longrightarrow> \<not> sealed s \<Longrightarrow> wr e c s = Inr v \<Longrightarrow> rd e c v = Inr s"
begin

lemma write_read_bind:
  "ok e \<Longrightarrow> \<not> sealed s \<Longrightarrow> rbind (wr e c s) (rd e c) = Inr s"
  using write_total [of e c s] read_write [of e s c] by auto

lemma write_inj:
  "ok e \<Longrightarrow> \<not> sealed s \<Longrightarrow> \<not> sealed t \<Longrightarrow> wr e c s = Inr v \<Longrightarrow> wr e c t = Inr v \<Longrightarrow> s = t"
  using read_write [of e s c v] read_write [of e t c v] by simp

end

lemma encrypt_value_total:
  "length key = 32 \<Longrightarrow> 1 \<le> v \<Longrightarrow> \<exists>e. encrypt_value A nonce p key ctx v = Inr e"
  by (simp add: encrypt_value_def Let_def)

lemma write_field_total: "env_ok env \<Longrightarrow> \<exists>v. write_field env ctx s = Inr v"
  using encrypt_value_total
  by (auto simp: env_ok_def write_field_def require_encryption_key_def encrypt_field_def
      split: option.splits)

lemma read_write_field:
  assumes "env_ok env" "\<not> is_encrypted_value s" "write_field env ctx s = Inr v"
  shows "read_field env ctx v = Inr s"
proof (cases "data_key env")
  case None
  with assms show ?thesis
    by (auto simp: write_field_def require_encryption_key_def read_field_def read_model_field_def)
next
  case (Some k)
  show ?thesis
  proof (cases "s = []")
    case True
    with Some assms show ?thesis
      by (auto simp: write_field_def require_encryption_key_def encrypt_field_def read_field_def
          read_model_field_def)
  next
    case False
    with Some assms have e: "encrypt_value (env_aead env) (env_nonce env ctx (key_version env)) s k
        ctx (key_version env) = Inr v"
      by (auto simp: write_field_def require_encryption_key_def encrypt_field_def)
    have "decrypt_value (env_aead env) v k ctx = Inr s"
      using assms(1) Some by (intro decrypt_encrypt [OF _ _ _ e]) (auto simp: env_ok_def)
    moreover have "v \<noteq> []" using encrypted_is_envelope [OF e]
      by (auto simp: is_encrypted_value_def)
    ultimately show ?thesis using Some encrypted_is_envelope [OF e]
      by (simp add: read_field_def read_model_field_def)
  qed
qed

interpretation column: column_codec env_ok write_field read_field is_encrypted_value
  by unfold_locales (auto simp: write_field_total read_write_field)

end
