(* ===== verification/Columns.thy ===== *)
theory Columns
  imports Money Crypto
begin

text \<open>
  Money in encrypted columns (\<open>apps/transactions/money.py\<close> and the money helpers of
  \<open>apps/core/encrypted_fields.py\<close>): the encoding of \<open>Money\<close> inside the envelope of \<open>Crypto\<close>. This is
  what lets the service theories keep a decoded amount where the database keeps an envelope.
\<close>

definition store_money :: "crypto_env \<Rightarrow> field_context \<Rightarrow> money \<Rightarrow> string result" where
  "store_money env ctx amount = write_field env ctx (encode_money amount)"

definition read_money :: "crypto_env \<Rightarrow> field_context \<Rightarrow> string \<Rightarrow> money result" where
  "read_money env ctx v = rbind (read_field env ctx v) decode_money"

lemma encode_money_plain: "\<not> is_encrypted_value (encode_money m)"
proof
  assume "is_encrypted_value (encode_money m)"
  then have "hd (encode_money m) = CHR ''v''"
    by (cases "encode_money m") (auto simp: is_encrypted_value_def FORMAT_VERSION_def)
  moreover have "hd (encode_money m) \<in> set (show_int (amount_minor m))"
    by (cases "show_int (amount_minor m)") (auto simp: encode_money_def show_int_def split: if_splits)
  ultimately show False
    using show_int_chars [of "CHR ''v''"] by (auto simp: is_digit_def)
qed

text \<open>
  C2. An amount written to an encrypted column is read back: with a usable key (or none where the
  settings allow plain text) \<open>store_money\<close> succeeds for every amount, and \<open>read_money\<close> of the
  stored value under the same context gives the amount.
\<close>

theorem money_column_roundtrip:
  assumes "env_ok env" "valid_money m"
  shows "rbind (store_money env ctx m) (read_money env ctx) = Inr m"
proof -
  have "rbind (write_field env ctx (encode_money m)) (read_field env ctx) = Inr (encode_money m)"
    using assms(1) encode_money_plain by (rule column.write_read_bind)
  then show ?thesis by (auto simp: store_money_def read_money_def decode_encode assms(2))
qed

text \<open>A cipher that keeps the contract, for the witness: the plaintext followed by a constant tag.\<close>

definition plain_aead :: aead where
  "plain_aead = \<lparr>aes_encrypt = (\<lambda>key nonce p aad. p @ replicate 16 (CHR ''t'')),
     aes_decrypt = (\<lambda>key nonce c aad. Some (take (length c - 16) c))\<rparr>"

definition plain_env :: crypto_env where
  "plain_env = \<lparr>env_aead = plain_aead, env_nonce = (\<lambda>ctx v. replicate 12 (CHR ''n'')),
     data_key = Some (replicate 32 (CHR ''k'')), key_version = 1, encryption_required = True,
     historic_key = (\<lambda>u v. None)\<rparr>"

lemma plain_env_ok: "env_ok plain_env"
  by (simp add: env_ok_def plain_env_def plain_aead_def aead_ok_def NONCE_SIZE_def TAG_SIZE_def)

theorem money_column_roundtrip_witness:
  "env_ok plain_env \<and>
   rbind (store_money plain_env \<lparr>ctx_model = ''t'', ctx_record_id = ''1'', ctx_field = ''a'', ctx_user_id = ''2''\<rparr>
       \<lparr>amount_minor = 5, currency = ''KRW''\<rparr>)
     (read_money plain_env \<lparr>ctx_model = ''t'', ctx_record_id = ''1'', ctx_field = ''a'', ctx_user_id = ''2''\<rparr>)
   = Inr \<lparr>amount_minor = 5, currency = ''KRW''\<rparr>"
  using money_column_roundtrip [OF plain_env_ok, of "\<lparr>amount_minor = 5, currency = ''KRW''\<rparr>"] plain_env_ok
  by (simp add: valid_money_def)

text \<open>A context whose parts are free of the separator.\<close>

definition plain_context :: "field_context \<Rightarrow> bool" where
  "plain_context c = list_all (\<lambda>s. CHR ''|'' \<notin> set s)
     [ctx_model c, ctx_record_id c, ctx_field c, ctx_user_id c]"

lemma show_int_inj: "show_int a = show_int b \<Longrightarrow> a = b"
  using py_int_show_int by (metis option.inject)

text \<open>
  The associated data names one place: two contexts without the separator in their parts
  (model labels, keys and field names have none) and two key versions give the same associated
  data only if they are the same, so an envelope moved to another record, field or owner is
  authenticated against different data.
\<close>

theorem associated_data_injective:
  assumes "plain_context c" "plain_context c'" "associated_data c v = associated_data c' v'"
  shows "c = c' \<and> v = v'"
proof -
  let ?parts = "\<lambda>c v. [FORMAT_VERSION, show_int v, ctx_model c, ctx_record_id c, ctx_field c, ctx_user_id c]"
  have "CHR ''|'' \<notin> set (show_int v)" for v
    by (auto dest!: show_int_chars simp: is_digit_def)
  then have split: "split_on CHR ''|'' (join_on CHR ''|'' (?parts c v)) = ?parts c v"
    if "plain_context c" for c v
    using that by (intro split_join) (auto simp: plain_context_def FORMAT_VERSION_def)
  have "join_on CHR ''|'' (?parts c v) = join_on CHR ''|'' (?parts c' v')"
    using assms(3) utf8_encode_inj unfolding associated_data_def by blast
  then have "?parts c v = ?parts c' v'" using split assms(1,2) by metis
  then show ?thesis by (cases c, cases c') (auto dest: show_int_inj)
qed

theorem associated_data_injective_witness:
  "associated_data \<lparr>ctx_model = ''ledger.LedgerEntry'', ctx_record_id = ''1'', ctx_field = ''amount'', ctx_user_id = ''2''\<rparr> 1
     \<noteq> associated_data \<lparr>ctx_model = ''ledger.LedgerEntry'', ctx_record_id = ''1'', ctx_field = ''amount'', ctx_user_id = ''3''\<rparr> 1"
proof
  assume eq: "associated_data \<lparr>ctx_model = ''ledger.LedgerEntry'', ctx_record_id = ''1'', ctx_field = ''amount'', ctx_user_id = ''2''\<rparr> 1
     = associated_data \<lparr>ctx_model = ''ledger.LedgerEntry'', ctx_record_id = ''1'', ctx_field = ''amount'', ctx_user_id = ''3''\<rparr> 1"
  show False
    using associated_data_injective [OF _ _ eq] by (simp add: plain_context_def)
qed

end
