(* ===== verification/Models.thy ===== *)
theory Models
  imports Money Complex_Main
begin

text \<open>
  The data the services work on: one record per Django model, one constructor per text choice,
  and the database as the record of its tables. A table is the list of its rows in creation
  order. A column that holds encrypted text is modelled by the value a reader with the key
  obtains from it (\<open>Crypto\<close> proves that writing a column and reading it back gives that value),
  dates and times are integers, and \<open>uuid4\<close> keys are drawn from a counter.
\<close>

section \<open>Text choices\<close>

datatype entry_type = DEBIT | CREDIT

datatype account_type = ASSET | LIABILITY | EQUITY | INCOME | EXPENSE

datatype financial_account_type =
    CHECKING | SAVINGS | CASH | CREDIT_CARD_LIABILITY | LOAN | INVESTMENT | OTHER_ASSET
  | OTHER_LIABILITY

datatype instrument_type = DEBIT_CARD | CREDIT_CARD | VIRTUAL_CARD | PREPAID_CARD | OTHER_CARD

datatype transaction_type =
    T_PURCHASE | T_INCOME | T_BANK_TRANSFER | T_INTERNAL_TRANSFER | T_CREDIT_CARD_PAYMENT
  | T_CASH_WITHDRAWAL | T_REFUND | T_FEE | T_INTEREST | T_LOAN_PAYMENT | T_ADJUSTMENT
  | T_OPENING_BALANCE | T_UNKNOWN

datatype transaction_status = DRAFT | CONFIRMED | VOIDED

datatype document_status =
    PENDING | VALIDATING | QUEUED | PREPROCESSING | OCR_RUNNING | PARSING | READY_FOR_REVIEW
  | DOC_CONFIRMED | FAILED | DELETED

datatype source_type =
    BANK_TRANSACTION_LIST | BANK_TRANSACTION_DETAIL | BANK_TRANSFER_CONFIRMATION
  | CARD_TRANSACTION_LIST | CARD_TRANSACTION_DETAIL | CREDIT_CARD_STATEMENT
  | CREDIT_CARD_PAYMENT_SCREEN | UNKNOWN_SOURCE

datatype retention_policy = IMMEDIATE | ONE_DAY | SEVEN_DAYS | THIRTY_DAYS

datatype job_status = JOB_QUEUED | JOB_RUNNING | JOB_SUCCEEDED | JOB_FAILED

datatype review_status = UNREVIEWED | ACCEPTED | CORRECTED | REJECTED | MERGED

datatype direction = DIR_DEBIT | DIR_CREDIT | DIR_UNKNOWN

datatype match_type =
    DUPLICATE_OBSERVATION | DEBIT_CARD_BANK_MATCH | CREDIT_CARD_PAYMENT_MATCH
  | INTERNAL_TRANSFER | REFUND_MATCH | STATEMENT_MEMBERSHIP

datatype match_status = PROPOSED | MATCH_CONFIRMED | MATCH_REJECTED

text \<open>The stored values of the choices a caller may name by text.\<close>

fun status_value :: "transaction_status \<Rightarrow> string" where
  "status_value DRAFT = ''draft''"
| "status_value CONFIRMED = ''confirmed''"
| "status_value VOIDED = ''voided''"

fun type_value :: "transaction_type \<Rightarrow> string" where
  "type_value T_PURCHASE = ''purchase''"
| "type_value T_INCOME = ''income''"
| "type_value T_BANK_TRANSFER = ''bank_transfer''"
| "type_value T_INTERNAL_TRANSFER = ''internal_transfer''"
| "type_value T_CREDIT_CARD_PAYMENT = ''credit_card_payment''"
| "type_value T_CASH_WITHDRAWAL = ''cash_withdrawal''"
| "type_value T_REFUND = ''refund''"
| "type_value T_FEE = ''fee''"
| "type_value T_INTEREST = ''interest''"
| "type_value T_LOAN_PAYMENT = ''loan_payment''"
| "type_value T_ADJUSTMENT = ''adjustment''"
| "type_value T_OPENING_BALANCE = ''opening_balance''"
| "type_value T_UNKNOWN = ''unknown''"

definition transaction_types :: "transaction_type list" where
  "transaction_types =
     [T_PURCHASE, T_INCOME, T_BANK_TRANSFER, T_INTERNAL_TRANSFER, T_CREDIT_CARD_PAYMENT,
      T_CASH_WITHDRAWAL, T_REFUND, T_FEE, T_INTEREST, T_LOAN_PAYMENT, T_ADJUSTMENT,
      T_OPENING_BALANCE, T_UNKNOWN]"

lemma transaction_types_all: "t \<in> set transaction_types"
  by (cases t) (simp_all add: transaction_types_def)

section \<open>Rows\<close>

record financial_account =
  fa_id :: id
  fa_user :: id
  fa_name_index :: string
  fa_type :: financial_account_type
  fa_currency :: string
  fa_opening_balance :: "money option"
  fa_created_at :: int

record payment_instrument =
  pi_id :: id
  pi_user :: id
  pi_type :: instrument_type
  pi_last_four :: string
  pi_financial_account :: id
  pi_settlement_account :: "id option"

record category_row =
  cat_id :: id
  cat_user :: id
  cat_parent :: "id option"
  cat_is_system :: bool

record chart_row =
  ch_id :: id
  ch_user :: id
  ch_name_index :: string

record ledger_account =
  la_id :: id
  la_chart :: id
  la_user :: id
  la_code :: string
  la_name_index :: string
  la_type :: account_type
  la_normal_balance :: entry_type
  la_parent :: "id option"
  la_financial_account :: "id option"
  la_is_system :: bool

record ledger_entry =
  en_id :: id
  en_transaction :: id
  en_account :: id
  en_type :: entry_type
  en_amount :: money
  en_currency :: string

record canonical_transaction =
  tx_id :: id
  tx_user :: id
  tx_type :: transaction_type
  tx_occurred_at :: int
  tx_posted_at :: "int option"
  tx_merchant :: string
  tx_merchant_index :: string
  tx_counterparty :: string
  tx_counterparty_index :: string
  tx_amount :: money
  tx_currency :: string
  tx_category :: "id option"
  tx_category_source :: string
  tx_financial_account :: id
  tx_payment_instrument :: "id option"
  tx_status :: transaction_status
  tx_source_key :: string
  tx_notes :: string
  tx_created_by :: id
  tx_reviewed_by :: "id option"

record source_document =
  doc_id :: id
  doc_user :: id
  doc_sha256 :: string
  doc_mime_type :: string
  doc_file_size :: nat
  doc_source_type :: source_type
  doc_source_type_override :: "source_type option"
  doc_institution_override :: string
  doc_status :: document_status
  doc_error_code :: string
  doc_cleanup_error_code :: string
  doc_temporary_path :: string
  doc_processing_started_at :: "int option"
  doc_processing_completed_at :: "int option"
  doc_attempt_count :: nat
  doc_next_attempt_at :: "int option"
  doc_original_deleted_at :: "int option"
  doc_retention_policy :: retention_policy
  doc_retention_deadline :: "int option"

record processing_job =
  job_id :: id
  job_user :: id
  job_document :: id
  job_task_name :: string
  job_payload_document :: "id option"
  job_status :: job_status
  job_attempt_count :: nat
  job_max_attempts :: nat
  job_available_at :: int
  job_locked_at :: "int option"
  job_started_at :: "int option"
  job_completed_at :: "int option"
  job_error_code :: string

record imported_observation =
  ob_id :: id
  ob_user :: id
  ob_source_document :: id
  ob_ocr_run :: "id option"
  ob_row_index :: nat
  ob_financial_account_guess :: "id option"
  ob_payment_instrument_guess :: "id option"
  ob_category_guess :: "id option"
  ob_occurred_at :: "int option"
  ob_posted_at :: "int option"
  ob_merchant_raw :: string
  ob_merchant_normalized :: string
  ob_merchant_index :: string
  ob_counterparty_raw :: string
  ob_amount :: "money option"
  ob_currency :: string
  ob_direction :: direction
  ob_balance_after :: "money option"
  ob_approval_index :: string
  ob_installment_months :: "nat option"
  ob_type_guess :: transaction_type
  ob_ocr_confidence :: rat
  ob_parser_confidence :: rat
  ob_overall_confidence :: rat
  ob_parser_name :: string
  ob_parser_version :: string
  ob_parser_output_version :: nat
  ob_review_flags :: "string list"
  ob_requires_review :: bool
  ob_amount_uncertain :: bool
  ob_balance_mismatched :: bool
  ob_has_missing_fields :: bool
  ob_is_settlement_candidate :: bool
  ob_risk_score :: nat
  ob_review_status :: review_status
  ob_reviewed_by :: "id option"
  ob_reviewed_at :: "int option"
  ob_corrected_fields :: "string list"
  ob_canonical :: "id option"
  ob_merged_into :: "id option"

record reconciliation_match =
  rm_id :: id
  rm_user :: id
  rm_left :: id
  rm_right :: id
  rm_type :: match_type
  rm_score :: nat
  rm_features :: "string list"
  rm_status :: match_status
  rm_reviewed_by :: "id option"
  rm_reviewed_at :: "int option"

subsection \<open>Audit events\<close>

datatype event_type =
    LOGIN_SUCCESS | LOGIN_FAILURE | LOGOUT | PASSWORD_CHANGED | TWO_FACTOR_ENABLED
  | TWO_FACTOR_DISABLED | TWO_FACTOR_FAILURE | SESSION_REVOKED
  | SCREENSHOT_UPLOADED | SCREENSHOT_DELETED | OCR_STARTED | OCR_FAILED
  | TRANSACTION_CREATED | TRANSACTION_ACCEPTED | TRANSACTION_CORRECTED | TRANSACTION_VOIDED
  | OPENING_BALANCE_POSTED | OPENING_BALANCE_ADJUSTED | TRANSACTION_DELETED
  | OBSERVATIONS_IMPORTED | OBSERVATION_CORRECTED | OBSERVATION_ACCEPTED
  | OBSERVATION_REJECTED | OBSERVATION_MERGED | DOCUMENT_REPROCESS_REQUESTED
  | DOCUMENT_OVERRIDE_SET | DOCUMENT_OVERRIDE_CLEARED
  | MATCH_CREATED_EVENT | MATCH_CONFIRMED_EVENT | MATCH_REJECTED_EVENT | MATCH_UNLINKED_EVENT
  | DUPLICATE_MERGED | INTERNAL_TRANSFER_CONFIRMED | REFUND_MATCHED | CATEGORY_CHANGED
  | PAYMENT_INSTRUMENT_CHANGED | MERCHANT_ALIAS_CREATED | CATEGORY_RULE_CREATED
  | CATEGORY_RULE_ENABLED | CATEGORY_RULE_DISABLED | CATEGORY_RULE_APPLIED | EXPORT_CREATED
  | EXPORT_DOWNLOADED | ENCRYPTION_KEY_ROTATED | ENCRYPTION_KEY_PROVISIONED
  | ENCRYPTION_KEY_ACCESSED | WORKER_KEY_ACCESSED | SEARCH_KEY_PROVISIONED | SEARCH_KEY_ROTATED

datatype meta_value = MStr string | MInt int | MBool bool | MId id | MStrs "string list"

record audit_event =
  au_user :: id
  au_event :: event_type
  au_object :: "id option"
  au_metadata :: "(string \<times> meta_value) list"

section \<open>The database\<close>

record db =
  users :: "id list"
  accounts :: "financial_account list"
  instruments :: "payment_instrument list"
  categories :: "category_row list"
  charts :: "chart_row list"
  ledger_accounts :: "ledger_account list"
  entries :: "ledger_entry list"
  transactions :: "canonical_transaction list"
  documents :: "source_document list"
  jobs :: "processing_job list"
  observations :: "imported_observation list"
  matches :: "reconciliation_match list"
  audits :: "audit_event list"
  next_id :: id

definition empty_db :: db where
  "empty_db =
     \<lparr>users = [], accounts = [], instruments = [], categories = [], charts = [],
      ledger_accounts = [], entries = [], transactions = [], documents = [], jobs = [],
      observations = [], matches = [], audits = [], next_id = 1\<rparr>"

definition get_account :: "db \<Rightarrow> id \<Rightarrow> financial_account option" where
  "get_account d = find_row fa_id (accounts d)"

definition get_instrument :: "db \<Rightarrow> id \<Rightarrow> payment_instrument option" where
  "get_instrument d = find_row pi_id (instruments d)"

definition get_category :: "db \<Rightarrow> id \<Rightarrow> category_row option" where
  "get_category d = find_row cat_id (categories d)"

definition get_chart :: "db \<Rightarrow> id \<Rightarrow> chart_row option" where
  "get_chart d = find_row ch_id (charts d)"

definition get_ledger_account :: "db \<Rightarrow> id \<Rightarrow> ledger_account option" where
  "get_ledger_account d = find_row la_id (ledger_accounts d)"

definition get_tx :: "db \<Rightarrow> id \<Rightarrow> canonical_transaction option" where
  "get_tx d = find_row tx_id (transactions d)"

definition put_tx :: "canonical_transaction \<Rightarrow> db \<Rightarrow> db" where
  "put_tx t d = d\<lparr>transactions := put_row tx_id t (transactions d)\<rparr>"

definition get_document :: "db \<Rightarrow> id \<Rightarrow> source_document option" where
  "get_document d = find_row doc_id (documents d)"

definition put_document :: "source_document \<Rightarrow> db \<Rightarrow> db" where
  "put_document r d = d\<lparr>documents := put_row doc_id r (documents d)\<rparr>"

definition get_job :: "db \<Rightarrow> id \<Rightarrow> processing_job option" where
  "get_job d = find_row job_id (jobs d)"

definition put_job :: "processing_job \<Rightarrow> db \<Rightarrow> db" where
  "put_job j d = d\<lparr>jobs := put_row job_id j (jobs d)\<rparr>"

definition get_observation :: "db \<Rightarrow> id \<Rightarrow> imported_observation option" where
  "get_observation d = find_row ob_id (observations d)"

definition put_observation :: "imported_observation \<Rightarrow> db \<Rightarrow> db" where
  "put_observation r d = d\<lparr>observations := put_row ob_id r (observations d)\<rparr>"

definition get_match :: "db \<Rightarrow> id \<Rightarrow> reconciliation_match option" where
  "get_match d = find_row rm_id (matches d)"

definition put_match :: "reconciliation_match \<Rightarrow> db \<Rightarrow> db" where
  "put_match r d = d\<lparr>matches := put_row rm_id r (matches d)\<rparr>"

definition put_account :: "financial_account \<Rightarrow> db \<Rightarrow> db" where
  "put_account r d = d\<lparr>accounts := put_row fa_id r (accounts d)\<rparr>"

interpretation transaction_table: keyed_store get_tx put_tx tx_id
  by unfold_locales (auto simp: get_tx_def put_tx_def find_row_pk find_row_put)

interpretation document_table: keyed_store get_document put_document doc_id
  by unfold_locales (auto simp: get_document_def put_document_def find_row_pk find_row_put)

interpretation job_table: keyed_store get_job put_job job_id
  by unfold_locales (auto simp: get_job_def put_job_def find_row_pk find_row_put)

interpretation observation_table: keyed_store get_observation put_observation ob_id
  by unfold_locales (auto simp: get_observation_def put_observation_def find_row_pk find_row_put)

interpretation match_table: keyed_store get_match put_match rm_id
  by unfold_locales (auto simp: get_match_def put_match_def find_row_pk find_row_put)

text \<open>Drawing a primary key (\<open>default=uuid.uuid4\<close>).\<close>

definition fresh :: "db \<Rightarrow> id \<times> db" where
  "fresh d = (next_id d, d\<lparr>next_id := Suc (next_id d)\<rparr>)"

text \<open>
  \<open>record_audit_event\<close>: the user row is locked with \<open>get\<close>, which raises when it is gone, and the
  event is appended to the stream. The digest chain is left to the audit module.
\<close>

definition record_audit_event ::
  "id \<Rightarrow> event_type \<Rightarrow> id option \<Rightarrow> (string \<times> meta_value) list \<Rightarrow> db \<Rightarrow> db result" where
  "record_audit_event user event obj metadata d =
     raise_if (user \<notin> set (users d)) DoesNotExist
       (Inr (d\<lparr>audits := audits d @
          [\<lparr>au_user = user, au_event = event, au_object = obj, au_metadata = metadata\<rparr>]\<rparr>))"

text \<open>What an audit event leaves alone: everything but the audit stream.\<close>

lemma record_audit_event_Inr:
  "record_audit_event u e obj m d = Inr d' \<longleftrightarrow>
     u \<in> set (users d) \<and>
     d' = d\<lparr>audits := audits d @ [\<lparr>au_user = u, au_event = e, au_object = obj, au_metadata = m\<rparr>]\<rparr>"
  by (auto simp: record_audit_event_def)

text \<open>Every key of a table was drawn from the counter, and none was drawn twice.\<close>

definition table_ok :: "('r \<Rightarrow> id) \<Rightarrow> 'r list \<Rightarrow> id \<Rightarrow> bool" where
  "table_ok pk rows n = (distinct (keys pk rows) \<and> (\<forall>k \<in> set (keys pk rows). k < n))"

lemma table_ok_append:
  "table_ok pk rows n \<Longrightarrow> n \<le> pk r \<Longrightarrow> pk r < m \<Longrightarrow> table_ok pk (rows @ [r]) m"
  by (force simp: table_ok_def keys_def)

lemma table_ok_put [simp]: "table_ok pk (put_row pk r rows) n = table_ok pk rows n"
  by (simp add: table_ok_def)

lemma table_ok_mono: "table_ok pk rows n \<Longrightarrow> n \<le> m \<Longrightarrow> table_ok pk rows m"
  by (force simp: table_ok_def)

lemma table_ok_find_new: "table_ok pk rows n \<Longrightarrow> n \<le> k \<Longrightarrow> find_row pk rows k = None"
  by (force simp: table_ok_def find_row_None_iff)

lemma table_ok_find: "table_ok pk rows n \<Longrightarrow> r \<in> set rows \<Longrightarrow> find_row pk rows (pk r) = Some r"
  by (simp add: table_ok_def find_row_distinct)

end
