(* ===== verification/Hierarchy.thy ===== *)
theory Hierarchy
  imports Models
begin

text \<open>
  Parent links: the walk up the ancestors that \<open>Category.clean\<close> and \<open>LedgerAccount.clean\<close> use
  to refuse a cycle, and the unguarded loop of \<open>ancestors()\<close> that relies on there being none.
  A table is reduced to the list of pairs of a key and its parent.
\<close>

type_synonym forest = "(id \<times> id option) list"

text \<open>
  The loop \<open>while ancestor is not None\<close> of \<open>clean\<close>: True when it finds the row itself or a row
  it has seen. A parent key without a row is the \<open>None\<close> that \<open>first()\<close> returns.
\<close>

function cycle_from :: "forest \<Rightarrow> id \<Rightarrow> id list \<Rightarrow> id option \<Rightarrow> bool" where
  "cycle_from t self visited None = False"
| "cycle_from t self visited (Some k) =
     (case map_of t k of
        None \<Rightarrow> False
      | Some p \<Rightarrow> if k \<in> set visited \<or> k = self then True else cycle_from t self (k # visited) p)"
  by pat_completeness auto
termination
proof (relation "measure (\<lambda>(t, self, visited, k). card (fst ` set t - set visited))", goal_cases)
  case (2 t self visited k p)
  then have "k \<in> fst ` set t - set visited" by (force dest: map_of_SomeD)
  then have "fst ` set t - set (k # visited) \<subset> fst ` set t - set visited" by auto
  then show ?case by (simp add: psubset_card_mono del: set_simps)
qed simp

text \<open>\<open>ancestors()\<close>: a loop with no guard, so not returning is the value \<open>None\<close>.\<close>

partial_function (option) ancestors_from :: "forest \<Rightarrow> id option \<Rightarrow> id list option" where
  "ancestors_from t start =
     (case start of
        None \<Rightarrow> Some []
      | Some k \<Rightarrow>
          (case map_of t k of
             None \<Rightarrow> Some []
           | Some p \<Rightarrow> Option.bind (ancestors_from t p) (\<lambda>up. Some (k # up))))"

lemma ancestors_None [simp]: "ancestors_from t None = Some []"
  by (subst ancestors_from.simps) simp

lemma ancestors_Some [simp]:
  "ancestors_from t (Some k) =
     (case map_of t k of
        None \<Rightarrow> Some []
      | Some p \<Rightarrow> Option.bind (ancestors_from t p) (\<lambda>up. Some (k # up)))"
  by (subst ancestors_from.simps) simp

text \<open>Referential integrity: a parent key has a row.\<close>

definition known :: "forest \<Rightarrow> id option \<Rightarrow> bool" where
  "known t p = (case p of None \<Rightarrow> True | Some k \<Rightarrow> map_of t k \<noteq> None)"

definition closed_forest :: "forest \<Rightarrow> bool" where
  "closed_forest t = list_all (\<lambda>(k, p). known t p) t"

text \<open>From every row the walk up ends.\<close>

definition rooted :: "forest \<Rightarrow> bool" where
  "rooted t = list_all (\<lambda>(k, p). ancestors_from t (Some k) \<noteq> None) t"

text \<open>Saving a row with a new parent, or inserting it.\<close>

definition set_parent :: "id \<Rightarrow> id option \<Rightarrow> forest \<Rightarrow> forest" where
  "set_parent k p t = (k, p) # filter (\<lambda>(j, _). j \<noteq> k) t"

lemma map_of_set_parent: "map_of (set_parent k p t) j = (if j = k then Some p else map_of t j)"
proof -
  have "j \<noteq> k \<Longrightarrow> map_of (filter (\<lambda>(j, _). j \<noteq> k) t) j = map_of t j"
    by (induction t) auto
  then show ?thesis by (simp add: set_parent_def)
qed

text \<open>An accepted walk from \<open>p\<close> ends without meeting the row.\<close>

lemma closed_known: "closed_forest t \<Longrightarrow> map_of t k = Some p \<Longrightarrow> known t p"
  by (force simp: closed_forest_def list_all_iff dest: map_of_SomeD)

lemma no_cycle_ancestors:
  "closed_forest t \<Longrightarrow> known t start \<Longrightarrow> \<not> cycle_from t self visited start \<Longrightarrow>
     \<exists>up. ancestors_from (set_parent self q t) start = Some up"
proof (induction t self visited start rule: cycle_from.induct)
  case (2 t self visited k)
  show ?case
  proof (cases "map_of t k")
    case (Some p)
    then have "k \<notin> set visited" "k \<noteq> self" "\<not> cycle_from t self (k # visited) p"
      using "2.prems" by (auto split: if_splits)
    then show ?thesis using "2.IH" [OF Some] Some closed_known [OF "2.prems"(1) Some] "2.prems"(1) by (auto simp: map_of_set_parent)
  qed (use "2.prems" in \<open>simp add: known_def\<close>)
qed simp

lemma ancestors_set_parent:
  assumes p: "ancestors_from (set_parent self p t) p = Some up'"
  shows "ancestors_from t start = Some up \<Longrightarrow>
     \<exists>up. ancestors_from (set_parent self p t) start = Some up"
proof (induction up arbitrary: start)
  case Nil
  then show ?case
    using p by (cases start) (auto simp: map_of_set_parent split: option.splits bind_splits)
next
  case (Cons k up)
  then obtain q where q: "start = Some k" "map_of t k = Some q" "ancestors_from t q = Some up"
    by (cases start) (auto split: option.splits bind_splits)
  with Cons.IH [OF q(3)] p show ?case by (auto simp: map_of_set_parent)
qed

lemma ancestors_total: "rooted t \<Longrightarrow> ancestors_from t start \<noteq> None"
proof (cases start)
  case (Some k)
  assume r: "rooted t"
  show ?thesis
  proof (cases "map_of t k")
    case (Some p)
    then have "(k, p) \<in> set t" by (rule map_of_SomeD)
    with r have "ancestors_from t (Some k) \<noteq> None"
      unfolding rooted_def list_all_iff by fast
    then show ?thesis using \<open>start = Some k\<close> by simp
  qed (simp add: \<open>start = Some k\<close>)
qed simp

lemma set_parent_known:
  assumes "known t p"
  shows "known (set_parent self q t) p"
  using assms by (auto simp: known_def map_of_set_parent split: option.splits)

lemma closed_set_parent:
  assumes "closed_forest t" "known t p"
  shows "closed_forest (set_parent self p t)"
proof -
  have "(k, q) \<in> set (set_parent self p t) \<Longrightarrow> q = p \<or> (k, q) \<in> set t" for k q
    by (auto simp: set_parent_def)
  then show ?thesis
    using assms set_parent_known unfolding closed_forest_def list_all_iff by fast
qed

lemma rooted_set_parent:
  assumes "rooted t" "closed_forest t" "known t p" "\<not> cycle_from t self [] p"
  shows "rooted (set_parent self p t)"
proof -
  obtain up' where up': "ancestors_from (set_parent self p t) p = Some up'"
    using no_cycle_ancestors [OF assms(2-4)] by blast
  have "ancestors_from (set_parent self p t) start \<noteq> None" for start
    using ancestors_total [OF assms(1), of start] ancestors_set_parent [OF up'] by fastforce
  then show ?thesis by (simp add: rooted_def list_all_iff split_beta del: ancestors_Some)
qed

end
