(* ===== verification/Ledger.thy ===== *)
theory Ledger
  imports Hierarchy
begin

text \<open>
  Double entry: posting, reversing and the posting rules of \<open>apps/ledger/posting.py\<close> and
  \<open>apps/ledger/rules.py\<close>. The invariant \<open>ledger_ok\<close> is the books' own: every entry is positive,
  belongs to a transaction that has left the draft state and to an account of the same owner,
  and debits equal credits for every transaction and currency.
\<close>

section \<open>Posting\<close>

record posting =
  po_account :: ledger_account
  po_type :: entry_type
  po_amount :: money

definition is_posted :: "db \<Rightarrow> id \<Rightarrow> bool" where
  "is_posted d k = list_ex (\<lambda>e. en_transaction e = k) (entries d)"

definition entries_of :: "db \<Rightarrow> id \<Rightarrow> ledger_entry list" where
  "entries_of d k = filter (\<lambda>e. en_transaction e = k) (entries d)"

text \<open>\<open>bulk_create\<close>: each pending entry draws its key, then all are stored.\<close>

fun draw_keys :: "id \<Rightarrow> ledger_entry list \<Rightarrow> ledger_entry list" where
  "draw_keys n [] = []"
| "draw_keys n (e # es) = e\<lparr>en_id := n\<rparr> # draw_keys (Suc n) es"

definition bulk_create :: "ledger_entry list \<Rightarrow> db \<Rightarrow> db \<times> ledger_entry list" where
  "bulk_create pending d =
     (let es = draw_keys (next_id d) pending
      in (d\<lparr>entries := entries d @ es, next_id := next_id d + length es\<rparr>, es))"

definition posting_entry :: "id \<Rightarrow> posting \<Rightarrow> ledger_entry" where
  "posting_entry k p =
     \<lparr>en_id = 0, en_transaction = k, en_account = la_id (po_account p), en_type = po_type p,
      en_amount = po_amount p, en_currency = currency (po_amount p)\<rparr>"

lemma posting_entry_transaction [simp]: "en_transaction (posting_entry k p) = k"
  by (simp add: posting_entry_def)

text \<open>The checks of the loop over the postings, with its two running totals.\<close>

fun posting_totals ::
  "canonical_transaction \<Rightarrow> string \<Rightarrow> posting list \<Rightarrow> int \<times> int \<Rightarrow> (int \<times> int) result" where
  "posting_totals tx cur [] totals = Inr totals"
| "posting_totals tx cur (p # ps) (debits, credits) =
     (if currency (po_amount p) \<noteq> cur then Inl InvalidRequestError
      else if amount_minor (po_amount p) \<le> 0 then Inl InvalidRequestError
      else if la_user (po_account p) \<noteq> tx_user tx then Inl InvalidRequestError
      else posting_totals tx cur ps
        (case po_type p of
           DEBIT \<Rightarrow> (debits + amount_minor (po_amount p), credits)
         | CREDIT \<Rightarrow> (debits, credits + amount_minor (po_amount p))))"

definition post_balanced_transaction ::
  "canonical_transaction \<Rightarrow> posting list \<Rightarrow> db \<Rightarrow> (db \<times> ledger_entry list) result" where
  "post_balanced_transaction tx postings d =
     raise_if (tx_status tx \<noteq> CONFIRMED) InvalidRequestError
     (raise_if (length postings < 2) InvalidRequestError
     (rbind (Currency (tx_currency tx)) (\<lambda>cur.
      rbind (posting_totals tx cur postings (0, 0)) (\<lambda>(debits, credits).
      raise_if (debits \<noteq> credits) InvalidRequestError
      (case get_tx d (tx_id tx) of
         None \<Rightarrow> Inl DoesNotExist
       | Some locked \<Rightarrow>
           raise_if (tx_status locked \<noteq> CONFIRMED) InvalidRequestError
           (raise_if (is_posted d (tx_id locked)) ConflictError
           (Inr (bulk_create (map (posting_entry (tx_id locked)) postings) d))))))))"

section \<open>Reversal\<close>

fun OPPOSITE_ENTRY_TYPE :: "entry_type \<Rightarrow> entry_type" where
  "OPPOSITE_ENTRY_TYPE DEBIT = CREDIT"
| "OPPOSITE_ENTRY_TYPE CREDIT = DEBIT"

definition signed_minor :: "ledger_entry \<Rightarrow> int" where
  "signed_minor e =
     (if en_type e = DEBIT then amount_minor (en_amount e) else - amount_minor (en_amount e))"

definition transaction_net_minor :: "db \<Rightarrow> id \<Rightarrow> int" where
  "transaction_net_minor d k = (\<Sum>e \<leftarrow> entries_of d k. signed_minor e)"

definition is_already_reversed :: "ledger_entry list \<Rightarrow> bool" where
  "is_already_reversed es =
     list_all (\<lambda>(_, total). total = 0) (tally (map (\<lambda>e. (en_account e, signed_minor e)) es))"

definition reversal_entry :: "ledger_entry \<Rightarrow> ledger_entry" where
  "reversal_entry e =
     \<lparr>en_id = 0, en_transaction = en_transaction e, en_account = en_account e,
      en_type = OPPOSITE_ENTRY_TYPE (en_type e), en_amount = en_amount e,
      en_currency = en_currency e\<rparr>"

definition reverse_transaction_postings ::
  "canonical_transaction \<Rightarrow> db \<Rightarrow> (db \<times> ledger_entry list) result" where
  "reverse_transaction_postings tx d =
     (case get_tx d (tx_id tx) of
        None \<Rightarrow> Inl DoesNotExist
      | Some locked \<Rightarrow>
          (let existing = entries_of d (tx_id locked) in
           if existing = [] then Inr (d, [])
           else raise_if (transaction_net_minor d (tx_id locked) \<noteq> 0) ConflictError
             (raise_if (is_already_reversed existing) ConflictError
               (Inr (bulk_create (map reversal_entry existing) d)))))"

section \<open>Posting rules\<close>

record posting_rule_accounts =
  pra_account :: ledger_account
  pra_offset :: "ledger_account option"
  pra_transfer_account :: "ledger_account option"
  pra_liability_account :: "ledger_account option"

definition require_account :: "ledger_account option \<Rightarrow> ledger_account result" where
  "require_account a = (case a of None \<Rightarrow> Inl InvalidRequestError | Some la \<Rightarrow> Inr la)"

definition amount_for :: "canonical_transaction \<Rightarrow> money result" where
  "amount_for tx = rbind (Currency (tx_currency tx)) (\<lambda>cur.
     raise_if (currency (tx_amount tx) \<noteq> cur) InvalidRequestError
     (raise_if (amount_minor (tx_amount tx) \<le> 0) InvalidRequestError (Inr (tx_amount tx))))"

definition pair :: "ledger_account \<Rightarrow> ledger_account \<Rightarrow> money \<Rightarrow> posting list" where
  "pair debited credited amount =
     [\<lparr>po_account = debited, po_type = DEBIT, po_amount = amount\<rparr>,
      \<lparr>po_account = credited, po_type = CREDIT, po_amount = amount\<rparr>]"

type_synonym rule_handler = "money \<Rightarrow> posting_rule_accounts \<Rightarrow> posting list result"

definition rule_purchase :: rule_handler where
  "rule_purchase amount c =
     rbind (require_account (pra_offset c)) (\<lambda>off. Inr (pair off (pra_account c) amount))"

definition rule_income :: rule_handler where
  "rule_income amount c =
     rbind (require_account (pra_offset c)) (\<lambda>off. Inr (pair (pra_account c) off amount))"

definition rule_transfer :: rule_handler where
  "rule_transfer amount c =
     rbind (require_account (pra_transfer_account c)) (\<lambda>dst. Inr (pair dst (pra_account c) amount))"

definition rule_card_payment :: rule_handler where
  "rule_card_payment amount c =
     rbind (require_account (pra_liability_account c)) (\<lambda>li. Inr (pair li (pra_account c) amount))"

definition rule_refund :: rule_handler where
  "rule_refund amount c =
     rbind (require_account (pra_offset c)) (\<lambda>off. Inr (pair (pra_account c) off amount))"

definition rule_debit_expense :: rule_handler where
  "rule_debit_expense amount c =
     rbind (require_account (pra_offset c)) (\<lambda>off. Inr (pair off (pra_account c) amount))"

fun POSTING_RULES :: "transaction_type \<Rightarrow> rule_handler option" where
  "POSTING_RULES T_PURCHASE = Some rule_purchase"
| "POSTING_RULES T_INCOME = Some rule_income"
| "POSTING_RULES T_BANK_TRANSFER = Some rule_transfer"
| "POSTING_RULES T_INTERNAL_TRANSFER = Some rule_transfer"
| "POSTING_RULES T_CREDIT_CARD_PAYMENT = Some rule_card_payment"
| "POSTING_RULES T_CASH_WITHDRAWAL = Some rule_transfer"
| "POSTING_RULES T_REFUND = Some rule_refund"
| "POSTING_RULES T_FEE = Some rule_debit_expense"
| "POSTING_RULES T_INTEREST = Some rule_debit_expense"
| "POSTING_RULES T_LOAN_PAYMENT = Some rule_card_payment"
| "POSTING_RULES T_ADJUSTMENT = Some rule_debit_expense"
| "POSTING_RULES T_OPENING_BALANCE = None"
| "POSTING_RULES T_UNKNOWN = None"

definition build_transaction_postings ::
  "canonical_transaction \<Rightarrow> posting_rule_accounts \<Rightarrow> posting list result" where
  "build_transaction_postings tx c =
     (case POSTING_RULES (tx_type tx) of
        None \<Rightarrow> Inl InvalidRequestError
      | Some handler \<Rightarrow>
          raise_if (la_financial_account (pra_account c) \<noteq> Some (tx_financial_account tx))
            InvalidRequestError
            (rbind (amount_for tx) (\<lambda>amount. handler amount c)))"

definition post_transaction_by_type ::
  "canonical_transaction \<Rightarrow> posting_rule_accounts \<Rightarrow> db \<Rightarrow> (db \<times> ledger_entry list) result" where
  "post_transaction_by_type tx c d =
     rbind (build_transaction_postings tx c) (\<lambda>ps. post_balanced_transaction tx ps d)"

section \<open>The books' invariant\<close>

definition net_of :: "ledger_entry list \<Rightarrow> id \<Rightarrow> string \<Rightarrow> int" where
  "net_of es k c =
     (\<Sum>e \<leftarrow> es. if en_transaction e = k \<and> currency (en_amount e) = c then signed_minor e else 0)"

definition account_net :: "ledger_entry list \<Rightarrow> id \<Rightarrow> int" where
  "account_net es a = total_at a (map (\<lambda>e. (en_account e, signed_minor e)) es)"

definition books_balanced :: "ledger_entry list \<Rightarrow> bool" where
  "books_balanced es =
     list_all (\<lambda>e. net_of es (en_transaction e) (currency (en_amount e)) = 0) es"

definition entry_ok :: "db \<Rightarrow> ledger_entry \<Rightarrow> bool" where
  "entry_ok d e =
     (0 < amount_minor (en_amount e) \<and> en_currency e = currency (en_amount e) \<and>
      (case (get_tx d (en_transaction e), get_ledger_account d (en_account e)) of
         (Some tx, Some la) \<Rightarrow>
            tx_status tx \<noteq> DRAFT \<and> la_user la = tx_user tx \<and>
            Currency (tx_currency tx) = Inr (en_currency e)
       | _ \<Rightarrow> False))"

definition ledger_ok :: "db \<Rightarrow> bool" where
  "ledger_ok d =
     (table_ok en_id (entries d) (next_id d) \<and> list_all (entry_ok d) (entries d) \<and>
      books_balanced (entries d))"

lemma net_of_append [simp]: "net_of (xs @ ys) k c = net_of xs k c + net_of ys k c"
  by (simp add: net_of_def)

lemma net_of_absent: "(\<And>e. e \<in> set es \<Longrightarrow> en_transaction e \<noteq> k \<or> currency (en_amount e) \<noteq> c) \<Longrightarrow>
   net_of es k c = 0"
  by (induction es) (auto simp: net_of_def)

lemma books_balanced_iff: "books_balanced es \<longleftrightarrow> (\<forall>k c. net_of es k c = 0)"
proof
  assume b: "books_balanced es"
  show "\<forall>k c. net_of es k c = 0"
  proof (intro allI)
    fix k c
    show "net_of es k c = 0"
      using b net_of_absent [of es k c]
      by (cases "\<exists>e \<in> set es. en_transaction e = k \<and> currency (en_amount e) = c")
        (auto simp: books_balanced_def list_all_iff)
  qed
qed (simp add: books_balanced_def list_all_iff)

lemma draw_keys_map:
  "(\<And>e n. f (e\<lparr>en_id := n\<rparr>) = f e) \<Longrightarrow> map f (draw_keys m es) = map f es"
  by (induction es arbitrary: m) auto

lemma length_draw_keys [simp]: "length (draw_keys m es) = length es"
  by (induction es arbitrary: m) auto

lemma keys_draw_keys: "keys en_id (draw_keys m es) = [m..<m + length es]"
  by (induction es arbitrary: m) (auto simp: keys_def upt_conv_Cons simp del: upt_Suc)

lemma draw_keys_in: "e \<in> set (draw_keys m es) \<Longrightarrow> \<exists>e0 \<in> set es. \<exists>n. e = e0\<lparr>en_id := n\<rparr>"
  by (induction es arbitrary: m) auto

lemma signed_minor_key [simp]: "signed_minor (e\<lparr>en_id := n\<rparr>) = signed_minor e"
  by (simp add: signed_minor_def)

lemma net_of_draw_keys [simp]: "net_of (draw_keys m es) k c = net_of es k c"
  unfolding net_of_def by (subst draw_keys_map) simp_all

lemma account_net_draw_keys [simp]: "account_net (draw_keys m es) a = account_net es a"
  unfolding account_net_def by (subst draw_keys_map) simp_all

lemma account_net_append [simp]: "account_net (xs @ ys) a = account_net xs a + account_net ys a"
  by (simp add: account_net_def)

lemma table_ok_bulk:
  assumes "table_ok en_id (entries d) (next_id d)"
  shows "table_ok en_id (entries d @ draw_keys (next_id d) es) (next_id d + length es)"
proof -
  have "keys en_id (entries d @ draw_keys (next_id d) es) =
      keys en_id (entries d) @ [next_id d..<next_id d + length es]"
    by (simp add: keys_def flip: keys_draw_keys)
  then show ?thesis using assms by (force simp: table_ok_def)
qed

lemma bulk_create_simps:
  "fst (bulk_create es d) =
     d\<lparr>entries := entries d @ draw_keys (next_id d) es, next_id := next_id d + length es\<rparr>"
  "snd (bulk_create es d) = draw_keys (next_id d) es"
  by (simp_all add: bulk_create_def Let_def)

lemma entry_ok_frame [simp]:
  "entry_ok (d\<lparr>entries := x\<rparr>) = entry_ok d" "entry_ok (d\<lparr>next_id := n\<rparr>) = entry_ok d"
  "entry_ok (d\<lparr>audits := a\<rparr>) = entry_ok d"
  by (auto simp: entry_ok_def get_tx_def get_ledger_account_def fun_eq_iff)

lemma entry_ok_key [simp]: "entry_ok d (e\<lparr>en_id := n\<rparr>) = entry_ok d e"
  by (simp add: entry_ok_def cong: option.case_cong)

text \<open>Appending a block of entries that nets to zero keeps the books.\<close>

lemma ledger_ok_bulk:
  assumes "ledger_ok d" "\<And>e. e \<in> set es \<Longrightarrow> entry_ok d e" "\<And>k c. net_of es k c = 0"
  shows "ledger_ok (fst (bulk_create es d))"
  using assms table_ok_bulk [of d es]
  by (auto simp: ledger_ok_def bulk_create_simps list_all_iff books_balanced_iff
      dest!: draw_keys_in)

section \<open>What posting does\<close>

definition posted_side :: "entry_type \<Rightarrow> posting list \<Rightarrow> int" where
  "posted_side t ps = (\<Sum>p \<leftarrow> ps. if po_type p = t then amount_minor (po_amount p) else 0)"

definition posting_ok :: "canonical_transaction \<Rightarrow> string \<Rightarrow> posting \<Rightarrow> bool" where
  "posting_ok tx cur p =
     (currency (po_amount p) = cur \<and> 0 < amount_minor (po_amount p) \<and>
      la_user (po_account p) = tx_user tx)"

lemma posting_totals_Inr:
  "posting_totals tx cur ps (a, b) = Inr (x, y) \<longleftrightarrow>
     list_all (posting_ok tx cur) ps \<and> x = a + posted_side DEBIT ps \<and> y = b + posted_side CREDIT ps"
proof (induction ps arbitrary: a b)
  case (Cons p ps)
  then show ?case
    by (cases "po_type p") (auto simp: posting_ok_def posted_side_def not_le)
qed (auto simp: posted_side_def)

lemma posting_totals_Inl: "posting_totals tx cur ps t = Inl e \<Longrightarrow> e = InvalidRequestError"
  by (induction tx cur ps t rule: posting_totals.induct) (auto split: if_splits)

text \<open>The conditions under which the service posts.\<close>

definition postable :: "db \<Rightarrow> canonical_transaction \<Rightarrow> posting list \<Rightarrow> bool" where
  "postable d tx ps =
     (tx_status tx = CONFIRMED \<and> 2 \<le> length ps \<and>
      (\<exists>cur. Currency (tx_currency tx) = Inr cur \<and> list_all (posting_ok tx cur) ps) \<and>
      posted_side DEBIT ps = posted_side CREDIT ps \<and>
      (\<exists>locked. get_tx d (tx_id tx) = Some locked \<and> tx_status locked = CONFIRMED) \<and>
      \<not> is_posted d (tx_id tx))"

lemma get_tx_id: "get_tx d k = Some tx \<Longrightarrow> tx_id tx = k"
  by (rule transaction_table.get_pk)

lemma post_balanced_Inr:
  "post_balanced_transaction tx ps d = Inr r \<longleftrightarrow>
     postable d tx ps \<and> r = bulk_create (map (posting_entry (tx_id tx)) ps) d"
  unfolding post_balanced_transaction_def postable_def
  by (auto simp: not_less posting_totals_Inr dest: get_tx_id split: option.splits prod.splits)

lemma sum_signed_postings:
  "(\<Sum>e \<leftarrow> map (posting_entry k) ps. signed_minor e) = posted_side DEBIT ps - posted_side CREDIT ps"
proof (induction ps)
  case (Cons p ps)
  then show ?case
    by (cases "po_type p") (simp_all add: posting_entry_def signed_minor_def posted_side_def)
qed (simp add: posted_side_def)

lemma net_of_postings:
  assumes "list_all (posting_ok tx cur) ps"
  shows "net_of (map (posting_entry k) ps) j c =
    (if j = k \<and> c = cur then posted_side DEBIT ps - posted_side CREDIT ps else 0)"
proof (cases "j = k \<and> c = cur")
  case True
  have "net_of (map (posting_entry k) ps) k cur = (\<Sum>e \<leftarrow> map (posting_entry k) ps. signed_minor e)"
    using assms unfolding net_of_def
    by (induction ps) (auto simp: posting_ok_def posting_entry_def)
  then show ?thesis using True sum_signed_postings [of k ps] by simp
next
  case False
  then have "net_of (map (posting_entry k) ps) j c = 0"
    using assms by (intro net_of_absent) (auto simp: posting_ok_def posting_entry_def list_all_iff)
  with False show ?thesis by auto
qed

text \<open>The postings of a caller name rows of the account table.\<close>

definition loaded :: "db \<Rightarrow> posting list \<Rightarrow> bool" where
  "loaded d ps = list_all (\<lambda>p. get_ledger_account d (la_id (po_account p)) = Some (po_account p)) ps"

lemma posted_ledger_ok:
  assumes "ledger_ok d" "postable d tx ps" "loaded d ps" "get_tx d (tx_id tx) = Some tx"
  shows "ledger_ok (fst (bulk_create (map (posting_entry (tx_id tx)) ps) d))"
proof (rule ledger_ok_bulk [OF assms(1)])
  fix e
  assume "e \<in> set (map (posting_entry (tx_id tx)) ps)"
  then show "entry_ok d e"
    using assms(2-4)
    by (auto simp: entry_ok_def posting_entry_def postable_def posting_ok_def loaded_def list_all_iff)
next
  fix k c
  show "net_of (map (posting_entry (tx_id tx)) ps) k c = 0"
    using assms(2) net_of_postings by (fastforce simp: postable_def)
qed

lemma post_ledger_ok:
  assumes "post_balanced_transaction tx ps d = Inr (d', es)"
    and "ledger_ok d" "loaded d ps" "get_tx d (tx_id tx) = Some tx"
  shows "ledger_ok d'"
  using posted_ledger_ok [of d tx ps] assms by (auto simp: post_balanced_Inr) (metis fst_conv)

section \<open>What a reversal does\<close>

lemma signed_reversal [simp]: "signed_minor (reversal_entry e) = - signed_minor e"
  by (cases "en_type e") (simp_all add: signed_minor_def reversal_entry_def)

lemma reversal_fields [simp]:
  "en_transaction (reversal_entry e) = en_transaction e"
  "en_account (reversal_entry e) = en_account e"
  "en_amount (reversal_entry e) = en_amount e"
  "en_currency (reversal_entry e) = en_currency e"
  by (simp_all add: reversal_entry_def)

lemma entry_ok_reversal [simp]: "entry_ok d (reversal_entry e) = entry_ok d e"
  by (simp add: entry_ok_def cong: option.case_cong)

lemma net_of_reversal [simp]: "net_of (map reversal_entry es) k c = - net_of es k c"
  by (induction es) (auto simp: net_of_def)

lemma account_net_reversal [simp]: "account_net (map reversal_entry es) a = - account_net es a"
  by (induction es) (auto simp: account_net_def)

lemma net_of_entries_of: "net_of (entries_of d k) j c = (if j = k then net_of (entries d) k c else 0)"
proof -
  have "net_of (filter (\<lambda>e. en_transaction e = k) es) j c = (if j = k then net_of es k c else 0)" for es
    by (induction es) (auto simp: net_of_def)
  then show ?thesis by (simp add: entries_of_def)
qed

lemma reversed_ledger_ok:
  assumes "ledger_ok d"
  shows "ledger_ok (fst (bulk_create (map reversal_entry (entries_of d k)) d))"
proof (rule ledger_ok_bulk [OF assms])
  fix e
  assume "e \<in> set (map reversal_entry (entries_of d k))"
  then show "entry_ok d e"
    using assms by (auto simp: ledger_ok_def list_all_iff entries_of_def)
next
  fix j c
  show "net_of (map reversal_entry (entries_of d k)) j c = 0"
    using assms by (simp add: ledger_ok_def books_balanced_iff net_of_entries_of)
qed

lemma is_already_reversed_iff: "is_already_reversed es \<longleftrightarrow> (\<forall>a. account_net es a = 0)"
proof -
  define items where "items = map (\<lambda>e. (en_account e, signed_minor e)) es"
  have "(\<forall>p \<in> set (tally items). snd p = 0) \<longleftrightarrow> (\<forall>a. total_at a items = 0)"
  proof
    assume z: "\<forall>p \<in> set (tally items). snd p = 0"
    have "total_at a ps = 0" if "\<forall>p \<in> set ps. snd p = 0" for a and ps :: "(id \<times> int) list"
      using that by (induction ps) auto
    then show "\<forall>a. total_at a items = 0" using z total_at_tally [of _ items] by metis
  next
    assume "\<forall>a. total_at a items = 0"
    then show "\<forall>p \<in> set (tally items). snd p = 0"
      using tally_value by (metis prod.collapse)
  qed
  then show ?thesis
    by (simp add: is_already_reversed_def account_net_def items_def list_all_iff split_beta)
qed

lemma net_zero_of_ledger_ok:
  assumes "ledger_ok d"
  shows "transaction_net_minor d k = 0"
proof (cases "entries_of d k")
  case Nil
  then show ?thesis by (simp add: transaction_net_minor_def)
next
  case (Cons e0 rest)
  have same: "currency (en_amount e) = currency (en_amount e0)" if "e \<in> set (entries_of d k)" for e
  proof -
    have "e \<in> set (entries d)" "en_transaction e = k" "e0 \<in> set (entries d)" "en_transaction e0 = k"
      using that Cons by (auto simp: entries_of_def filter_eq_Cons_iff)
    then show ?thesis
      using assms
      by (auto simp: ledger_ok_def list_all_iff entry_ok_def split: option.splits) (metis sum.inject(2))
  qed
  have "net_of es k c = (\<Sum>e \<leftarrow> es. signed_minor e)"
    if "\<forall>e \<in> set es. en_transaction e = k \<and> currency (en_amount e) = c" for es c
    using that by (induction es) (auto simp: net_of_def)
  then have "transaction_net_minor d k = net_of (entries_of d k) k (currency (en_amount e0))"
    using same by (auto simp: transaction_net_minor_def entries_of_def)
  then show ?thesis
    using assms by (simp add: net_of_entries_of ledger_ok_def books_balanced_iff)
qed

lemma reverse_Inr:
  "reverse_transaction_postings tx d = Inr r \<longleftrightarrow>
     get_tx d (tx_id tx) \<noteq> None \<and>
     (if entries_of d (tx_id tx) = [] then r = (d, [])
      else transaction_net_minor d (tx_id tx) = 0 \<and>
           \<not> is_already_reversed (entries_of d (tx_id tx)) \<and>
           r = bulk_create (map reversal_entry (entries_of d (tx_id tx))) d)"
  unfolding reverse_transaction_postings_def Let_def
  by (auto split: option.splits dest!: get_tx_id)

lemma reverse_ledger_ok:
  "reverse_transaction_postings tx d = Inr (d', es) \<Longrightarrow> ledger_ok d \<Longrightarrow> ledger_ok d'"
  using reversed_ledger_ok [of d "tx_id tx"] by (auto simp: reverse_Inr split: if_splits) (metis fst_conv)

lemma entries_of_bulk:
  assumes "\<And>e. e \<in> set es \<Longrightarrow> en_transaction e = k"
  shows "entries_of (fst (bulk_create es d)) k = entries_of d k @ draw_keys (next_id d) es"
proof -
  have "filter (\<lambda>e. en_transaction e = k) (draw_keys m es) = draw_keys m es" for m
    using assms by (auto simp: filter_id_conv dest!: draw_keys_in)
  then show ?thesis by (simp add: entries_of_def bulk_create_simps)
qed

lemma entries_of_posted:
  "entries_of (fst (bulk_create (map (posting_entry k) ps) d)) k =
     entries_of d k @ draw_keys (next_id d) (map (posting_entry k) ps)"
  by (subst entries_of_bulk) auto

lemma not_posted: "\<not> is_posted d k \<longleftrightarrow> entries_of d k = []"
  by (auto simp: is_posted_def entries_of_def list_ex_iff filter_empty_conv)

lemma get_tx_bulk [simp]: "get_tx (fst (bulk_create es d)) = get_tx d"
  by (simp add: get_tx_def bulk_create_simps fun_eq_iff)

lemma reversed_accounts:
  "account_net (entries_of (fst (bulk_create (map reversal_entry (entries_of d k)) d)) k) a = 0"
  by (subst entries_of_bulk) (auto simp: entries_of_def)

lemma reversal_facts:
  assumes "reverse_transaction_postings tx d = Inr (d', es)" "ledger_ok d"
  shows "ledger_ok d' \<and> length es = length (entries_of d (tx_id tx)) \<and>
    (\<forall>a. account_net (entries_of d' (tx_id tx)) a = 0) \<and>
    (\<forall>k. k \<noteq> tx_id tx \<longrightarrow> entries_of d' k = entries_of d k) \<and>
    (entries_of d (tx_id tx) \<noteq> [] \<longrightarrow> reverse_transaction_postings tx d' = Inl ConflictError)"
proof (cases "entries_of d (tx_id tx) = []")
  case True
  then show ?thesis using assms by (auto simp: reverse_Inr account_net_def)
next
  case False
  define k where "k = tx_id tx"
  define new where "new = map reversal_entry (entries_of d k)"
  have r: "d' = fst (bulk_create new d)" "es = snd (bulk_create new d)"
    using assms(1) False by (auto simp: reverse_Inr k_def new_def) (metis fst_conv snd_conv)+
  have tr: "en_transaction e = k" if "e \<in> set new" for e
    using that by (auto simp: new_def entries_of_def)
  have zero: "account_net (entries_of d' k) a = 0" for a
    unfolding r(1) new_def by (rule reversed_accounts)
  have ok: "ledger_ok d'" using reverse_ledger_ok assms by blast
  have other: "entries_of d' j = entries_of d j" if "j \<noteq> k" for j
    using that tr by (auto simp: r(1) bulk_create_simps entries_of_def filter_empty_conv dest!: draw_keys_in)
  have ne: "entries_of d' k \<noteq> []"
    using False by (simp add: r(1) k_def [symmetric] entries_of_bulk tr)
  have "get_tx d' (tx_id tx) \<noteq> None"
    using assms(1) r(1) by (simp add: reverse_Inr get_tx_def bulk_create_simps split: if_splits)
  then have "reverse_transaction_postings tx d' = Inl ConflictError"
    using ne zero net_zero_of_ledger_ok [OF ok]
    by (auto simp: reverse_transaction_postings_def Let_def is_already_reversed_iff k_def
        split: option.splits dest!: get_tx_id)
  then show ?thesis using ok zero other r(2) by (auto simp: k_def new_def bulk_create_simps)
qed

section \<open>Two users' books, for the witnesses\<close>

definition sample_account :: financial_account where
  "sample_account = \<lparr>fa_id = 10, fa_user = 1, fa_name_index = ''checking-index'', fa_type = CHECKING,
     fa_currency = ''KRW'', fa_opening_balance = Some \<lparr>amount_minor = 2400000, currency = ''KRW''\<rparr>,
     fa_created_at = 100\<rparr>"

definition sample_asset :: ledger_account where
  "sample_asset = \<lparr>la_id = 20, la_chart = 5, la_user = 1, la_code = ''1000'',
     la_name_index = ''checking-index'', la_type = ASSET, la_normal_balance = DEBIT,
     la_parent = None, la_financial_account = Some 10, la_is_system = False\<rparr>"

definition sample_expense :: ledger_account where
  "sample_expense = \<lparr>la_id = 21, la_chart = 5, la_user = 1, la_code = ''5000'',
     la_name_index = ''groceries-index'', la_type = EXPENSE, la_normal_balance = DEBIT,
     la_parent = None, la_financial_account = None, la_is_system = False\<rparr>"

definition sample_tx :: canonical_transaction where
  "sample_tx = \<lparr>tx_id = 30, tx_user = 1, tx_type = T_PURCHASE, tx_occurred_at = 200,
     tx_posted_at = None, tx_merchant = ''market'', tx_merchant_index = ''m'', tx_counterparty = [],
     tx_counterparty_index = [], tx_amount = \<lparr>amount_minor = 42900, currency = ''KRW''\<rparr>,
     tx_currency = ''KRW'', tx_category = None, tx_category_source = ''uncategorized'',
     tx_financial_account = 10, tx_payment_instrument = None, tx_status = CONFIRMED,
     tx_source_key = [], tx_notes = [], tx_created_by = 1, tx_reviewed_by = Some 1\<rparr>"

definition sample_draft :: canonical_transaction where
  "sample_draft = sample_tx\<lparr>tx_id := 31, tx_status := DRAFT, tx_reviewed_by := None\<rparr>"

definition sample_db :: db where
  "sample_db = empty_db\<lparr>users := [1, 2], accounts := [sample_account],
     charts := [\<lparr>ch_id = 5, ch_user = 1, ch_name_index = ''default-chart''\<rparr>],
     ledger_accounts := [sample_asset, sample_expense],
     transactions := [sample_tx, sample_draft], next_id := 100\<rparr>"

definition sample_rule :: posting_rule_accounts where
  "sample_rule = \<lparr>pra_account = sample_asset, pra_offset = Some sample_expense,
     pra_transfer_account = None, pra_liability_account = None\<rparr>"

definition sample_postings :: "posting list" where
  "sample_postings = pair sample_expense sample_asset (tx_amount sample_tx)"

definition sample_posted :: db where
  "sample_posted = fst (bulk_create (map (posting_entry 30) sample_postings) sample_db)"

lemmas sample_defs = sample_account_def sample_asset_def sample_expense_def sample_tx_def
  sample_draft_def sample_db_def sample_rule_def sample_postings_def empty_db_def

section \<open>Properties\<close>

text \<open>
  C3. Posting keeps the books: when \<open>post_balanced_transaction\<close> succeeds on a transaction and
  accounts read from the database, it appends the entries of the postings and nothing else, the
  transaction's debits equal its credits, and the ledger invariant still holds.
\<close>

theorem post_keeps_books:
  assumes "post_balanced_transaction tx ps d = Inr (d', es)"
    and "ledger_ok d" "loaded d ps" "get_tx d (tx_id tx) = Some tx"
  shows "ledger_ok d' \<and> d' = d\<lparr>entries := entries d @ es, next_id := next_id d + length ps\<rparr> \<and>
    entries_of d' (tx_id tx) = es \<and> transaction_net_minor d' (tx_id tx) = 0 \<and> length es = length ps"
proof -
  have ok: "ledger_ok d'" using post_ledger_ok [OF assms] .
  have p: "postable d tx ps" "(d', es) = bulk_create (map (posting_entry (tx_id tx)) ps) d"
    using assms(1) by (auto simp: post_balanced_Inr)
  have d': "d' = d\<lparr>entries := entries d @ es, next_id := next_id d + length ps\<rparr>"
    and es: "es = draw_keys (next_id d) (map (posting_entry (tx_id tx)) ps)"
    using p(2) by (auto simp: bulk_create_def Let_def)
  have "entries_of d (tx_id tx) = []"
    using p(1) by (simp add: postable_def not_posted)
  moreover have "fst (bulk_create (map (posting_entry (tx_id tx)) ps) d) = d'"
    using p(2) by (metis fst_conv)
  then have "entries_of d' (tx_id tx) = entries_of d (tx_id tx) @ es"
    using es by (auto simp: entries_of_posted)
  ultimately show ?thesis using ok d' es net_zero_of_ledger_ok [OF ok] by simp
qed

lemmas sample_eval = sample_defs get_tx_def get_ledger_account_def pair_def

lemma sample_ok:
  "ledger_ok sample_db" "loaded sample_db sample_postings"
  "get_tx sample_db (tx_id sample_tx) = Some sample_tx" "length sample_postings = 2"
  by (simp_all add: sample_eval ledger_ok_def table_ok_def keys_def books_balanced_def loaded_def)

lemma sample_post:
  "post_balanced_transaction sample_tx sample_postings sample_db =
     Inr (bulk_create (map (posting_entry 30) sample_postings) sample_db)"
  by (simp add: post_balanced_transaction_def is_posted_def sample_eval)

theorem post_keeps_books_witness:
  "ledger_ok sample_db \<and>
   (\<exists>d' es. post_balanced_transaction sample_tx sample_postings sample_db = Inr (d', es) \<and>
      ledger_ok d' \<and> length es = 2)"
proof -
  obtain d' es where r: "post_balanced_transaction sample_tx sample_postings sample_db = Inr (d', es)"
    using sample_post by (metis surj_pair)
  show ?thesis using post_keeps_books [OF r sample_ok(1-3)] sample_ok r by auto
qed

text \<open>
  C4. A reversal leaves every account of the transaction at zero: from balanced books the reversal
  of a transaction's postings appends the mirror of each of its entries, no account keeps a
  position from the transaction, other transactions' entries are untouched and the books stay
  balanced; a second reversal is refused.
\<close>

theorem reversal_nets_every_account:
  assumes "reverse_transaction_postings tx d = Inr (d', es)" "ledger_ok d"
  shows "ledger_ok d' \<and> length es = length (entries_of d (tx_id tx)) \<and>
    (\<forall>a. account_net (entries_of d' (tx_id tx)) a = 0) \<and>
    (\<forall>k. k \<noteq> tx_id tx \<longrightarrow> entries_of d' k = entries_of d k) \<and>
    (entries_of d (tx_id tx) \<noteq> [] \<longrightarrow> reverse_transaction_postings tx d' = Inl ConflictError)"
  by (rule reversal_facts [OF assms])

lemma sample_tx_id [simp]: "tx_id sample_tx = 30"
  by (simp add: sample_tx_def)

lemma sample_postable: "postable sample_db sample_tx sample_postings"
  using sample_post post_balanced_Inr by blast

lemma sample_posted_ok: "ledger_ok sample_posted"
  using posted_ledger_ok [OF sample_ok(1) sample_postable sample_ok(2,3)]
  by (simp add: sample_posted_def)

lemma sample_reversible:
  "\<exists>d' es. reverse_transaction_postings sample_tx sample_posted = Inr (d', es)"
  "entries_of sample_posted 30 \<noteq> []" "length (entries_of sample_posted 30) = 2"
  by (simp_all add: reverse_transaction_postings_def Let_def sample_posted_def bulk_create_def
      posting_entry_def entries_of_def transaction_net_minor_def signed_minor_def
      is_already_reversed_def tally_def sample_eval)

theorem reversal_nets_every_account_witness:
  "\<exists>d' es. reverse_transaction_postings sample_tx sample_posted = Inr (d', es) \<and>
     length es = 2 \<and> account_net (entries_of d' 30) 20 = 0 \<and>
     reverse_transaction_postings sample_tx d' = Inl ConflictError"
proof -
  obtain d' es where r: "reverse_transaction_postings sample_tx sample_posted = Inr (d', es)"
    using sample_reversible(1) by auto
  show ?thesis
    using reversal_nets_every_account [OF r sample_posted_ok] sample_reversible(2,3) r by auto
qed

text \<open>Which account an event is posted against, and whether money enters the user's account.\<close>

fun counter_account :: "transaction_type \<Rightarrow> posting_rule_accounts \<Rightarrow> ledger_account option" where
  "counter_account T_BANK_TRANSFER c = pra_transfer_account c"
| "counter_account T_INTERNAL_TRANSFER c = pra_transfer_account c"
| "counter_account T_CASH_WITHDRAWAL c = pra_transfer_account c"
| "counter_account T_CREDIT_CARD_PAYMENT c = pra_liability_account c"
| "counter_account T_LOAN_PAYMENT c = pra_liability_account c"
| "counter_account T_OPENING_BALANCE c = None"
| "counter_account T_UNKNOWN c = None"
| "counter_account _ c = pra_offset c"

definition money_enters :: "transaction_type \<Rightarrow> bool" where
  "money_enters t = (t = T_INCOME \<or> t = T_REFUND)"

lemma build_postings_spec:
  "build_transaction_postings tx c = Inr ps \<longleftrightarrow>
     (\<exists>other. counter_account (tx_type tx) c = Some other \<and>
        la_financial_account (pra_account c) = Some (tx_financial_account tx) \<and>
        Currency (tx_currency tx) = Inr (currency (tx_amount tx)) \<and> 0 < amount_minor (tx_amount tx) \<and>
        ps = (if money_enters (tx_type tx) then pair (pra_account c) other (tx_amount tx)
              else pair other (pra_account c) (tx_amount tx)))"
  by (cases "tx_type tx")
    (auto simp: build_transaction_postings_def amount_for_def require_account_def money_enters_def
      rule_purchase_def rule_income_def rule_transfer_def rule_card_payment_def rule_refund_def
      rule_debit_expense_def not_le split: option.splits)

text \<open>
  C12. The posting rules: for a confirmed transaction of the database that is not yet posted, and
  accounts of its owner, \<open>post_transaction_by_type\<close> succeeds exactly when the rule of its type has
  its counter account, the primary account stands for the transaction's financial account and the
  amount is positive in the transaction's currency. It then moves the amount into the user's
  account for income and refunds and out of it for every other type, and moves the counter
  account the other way.
\<close>

theorem posting_rules_move_the_amount:
  assumes "get_tx d (tx_id tx) = Some tx" "tx_status tx = CONFIRMED" "\<not> is_posted d (tx_id tx)"
    and "la_user (pra_account c) = tx_user tx"
    and "\<forall>other. counter_account (tx_type tx) c = Some other \<longrightarrow> la_user other = tx_user tx \<and>
           la_id other \<noteq> la_id (pra_account c)"
  shows "(\<exists>r. post_transaction_by_type tx c d = Inr r) =
      (counter_account (tx_type tx) c \<noteq> None \<and>
       la_financial_account (pra_account c) = Some (tx_financial_account tx) \<and>
       Currency (tx_currency tx) = Inr (currency (tx_amount tx)) \<and> 0 < amount_minor (tx_amount tx)) \<and>
    (\<forall>d' es. post_transaction_by_type tx c d = Inr (d', es) \<longrightarrow>
      (let into = (if money_enters (tx_type tx) then 1 else - 1) * amount_minor (tx_amount tx) in
       account_net (entries_of d' (tx_id tx)) (la_id (pra_account c)) = into \<and>
       account_net (entries_of d' (tx_id tx)) (la_id (the (counter_account (tx_type tx) c))) = - into))"
    (is "?succeeds = ?conditions \<and> (\<forall>d' es. _ \<longrightarrow> ?moves d')")
proof -
  have posts: "post_transaction_by_type tx c d = Inr r \<longleftrightarrow>
      (\<exists>ps. build_transaction_postings tx c = Inr ps \<and> postable d tx ps \<and>
         r = bulk_create (map (posting_entry (tx_id tx)) ps) d)" for r
    by (auto simp: post_transaction_by_type_def post_balanced_Inr)
  have pairs: "postable d tx (pair a b (tx_amount tx))"
    if "la_user a = tx_user tx" "la_user b = tx_user tx" "0 < amount_minor (tx_amount tx)"
      "Currency (tx_currency tx) = Inr (currency (tx_amount tx))" for a b
    using that assms(1-3) by (auto simp: postable_def pair_def posting_ok_def posted_side_def)
  have "?succeeds = ?conditions"
  proof
    assume ?conditions
    then obtain other where o: "counter_account (tx_type tx) c = Some other" "la_user other = tx_user tx"
      and ps: "build_transaction_postings tx c = Inr (if money_enters (tx_type tx)
        then pair (pra_account c) other (tx_amount tx) else pair other (pra_account c) (tx_amount tx))"
      using assms(5) unfolding build_postings_spec by blast
    then show ?succeeds using pairs assms(4) \<open>?conditions\<close> unfolding posts by auto
  qed (auto simp: posts build_postings_spec)
  moreover have "?moves d'" if r: "post_transaction_by_type tx c d = Inr (d', es)" for d' es
  proof -
    obtain ps where ps: "build_transaction_postings tx c = Inr ps"
      and "(d', es) = bulk_create (map (posting_entry (tx_id tx)) ps) d"
      using r by (auto simp: posts)
    then have "d' = fst (bulk_create (map (posting_entry (tx_id tx)) ps) d)"
      by (metis fst_conv)
    moreover have "entries_of d (tx_id tx) = []" using assms(3) by (simp add: not_posted)
    ultimately have es: "entries_of d' (tx_id tx) = draw_keys (next_id d) (map (posting_entry (tx_id tx)) ps)"
      by (simp add: entries_of_posted)
    show ?thesis
      unfolding es using ps assms(5)
      by (auto simp: build_postings_spec pair_def account_net_def posting_entry_def signed_minor_def)
  qed
  ultimately show ?thesis by blast
qed

theorem posting_rules_witness:
  "\<exists>d' es. post_transaction_by_type sample_tx sample_rule sample_db = Inr (d', es) \<and>
     account_net (entries_of d' 30) 20 = - 42900 \<and> account_net (entries_of d' 30) 21 = 42900"
proof -
  have h: "get_tx sample_db (tx_id sample_tx) = Some sample_tx" "tx_status sample_tx = CONFIRMED"
    "\<not> is_posted sample_db (tx_id sample_tx)" "la_user (pra_account sample_rule) = tx_user sample_tx"
    "\<forall>other. counter_account (tx_type sample_tx) sample_rule = Some other \<longrightarrow>
       la_user other = tx_user sample_tx \<and> la_id other \<noteq> la_id (pra_account sample_rule)"
    by (simp_all add: sample_eval is_posted_def)
  have rules: "\<exists>r. post_transaction_by_type sample_tx sample_rule sample_db = Inr r"
    "\<And>d' es. post_transaction_by_type sample_tx sample_rule sample_db = Inr (d', es) \<Longrightarrow>
       account_net (entries_of d' 30) 20 = - 42900 \<and> account_net (entries_of d' 30) 21 = 42900"
    using posting_rules_move_the_amount [OF h] by (auto simp: sample_eval money_enters_def Let_def)
  obtain d' es where r: "post_transaction_by_type sample_tx sample_rule sample_db = Inr (d', es)"
    using rules(1) by auto
  show ?thesis using rules(2) [OF r] r by auto
qed

text \<open>
  A posting whose debit and credit name one account can be posted but never reversed: the
  account's position is zero from the start, which is what the check for an earlier reversal
  looks for.
\<close>

theorem one_account_posting_is_irreversible:
  assumes "postable d tx (pair a a m)"
  shows "\<exists>d' es. post_balanced_transaction tx (pair a a m) d = Inr (d', es) \<and>
    reverse_transaction_postings tx d' = Inl ConflictError"
proof -
  define d' where "d' = fst (bulk_create (map (posting_entry (tx_id tx)) (pair a a m)) d)"
  obtain es where r: "post_balanced_transaction tx (pair a a m) d = Inr (d', es)"
    using assms by (metis d'_def post_balanced_Inr surjective_pairing)
  have "entries_of d (tx_id tx) = []" using assms by (simp add: postable_def not_posted)
  then have es: "entries_of d' (tx_id tx) = draw_keys (next_id d) (map (posting_entry (tx_id tx)) (pair a a m))"
    by (simp add: d'_def entries_of_posted)
  have "account_net (entries_of d' (tx_id tx)) b = 0" for b
    unfolding es by (auto simp: pair_def account_net_def posting_entry_def signed_minor_def)
  moreover have "entries_of d' (tx_id tx) \<noteq> []" unfolding es by (simp add: pair_def)
  moreover have "get_tx d' (tx_id tx) \<noteq> None" using assms by (auto simp: d'_def postable_def)
  ultimately have "reverse_transaction_postings tx d' = Inl ConflictError"
    by (auto simp: reverse_transaction_postings_def Let_def is_already_reversed_iff raise_if_def
        split: option.splits dest!: get_tx_id)
  with r show ?thesis by blast
qed

theorem one_account_posting_witness:
  "\<exists>d' es. post_balanced_transaction sample_tx (pair sample_asset sample_asset (tx_amount sample_tx))
       sample_db = Inr (d', es) \<and> reverse_transaction_postings sample_tx d' = Inl ConflictError"
  by (rule one_account_posting_is_irreversible)
    (simp add: postable_def posting_ok_def posted_side_def is_posted_def sample_eval)

end
