(* ===== verification/Chart.thy ===== *)
theory Chart
  imports Ledger "HOL-Library.List_Lexorder"
begin

text \<open>
  The chart of accounts (\<open>apps/ledger/chart.py\<close> and the models' own checks): the ledger account
  standing for a real account, found or created on demand with the next free code of its type.
  Names are encrypted text that nothing here reads; the rows keep their blind indexes.
\<close>

section \<open>Definitions\<close>

definition DEFAULT_CHART_BLIND_INDEX :: string where
  "DEFAULT_CHART_BLIND_INDEX = ''default-chart''"

definition OPENING_BALANCE_EQUITY_BLIND_INDEX :: string where
  "OPENING_BALANCE_EQUITY_BLIND_INDEX = ''system-opening-balances''"

fun CODE_PREFIXES :: "account_type \<Rightarrow> string" where
  "CODE_PREFIXES ASSET = ''1''"
| "CODE_PREFIXES LIABILITY = ''2''"
| "CODE_PREFIXES EQUITY = ''3''"
| "CODE_PREFIXES INCOME = ''4''"
| "CODE_PREFIXES EXPENSE = ''5''"

fun NORMAL_BALANCES :: "account_type \<Rightarrow> entry_type" where
  "NORMAL_BALANCES ASSET = DEBIT"
| "NORMAL_BALANCES EXPENSE = DEBIT"
| "NORMAL_BALANCES LIABILITY = CREDIT"
| "NORMAL_BALANCES EQUITY = CREDIT"
| "NORMAL_BALANCES INCOME = CREDIT"

fun FINANCIAL_ACCOUNT_LEDGER_TYPES :: "financial_account_type \<Rightarrow> account_type" where
  "FINANCIAL_ACCOUNT_LEDGER_TYPES CHECKING = ASSET"
| "FINANCIAL_ACCOUNT_LEDGER_TYPES SAVINGS = ASSET"
| "FINANCIAL_ACCOUNT_LEDGER_TYPES CASH = ASSET"
| "FINANCIAL_ACCOUNT_LEDGER_TYPES INVESTMENT = ASSET"
| "FINANCIAL_ACCOUNT_LEDGER_TYPES OTHER_ASSET = ASSET"
| "FINANCIAL_ACCOUNT_LEDGER_TYPES CREDIT_CARD_LIABILITY = LIABILITY"
| "FINANCIAL_ACCOUNT_LEDGER_TYPES LOAN = LIABILITY"
| "FINANCIAL_ACCOUNT_LEDGER_TYPES OTHER_LIABILITY = LIABILITY"

text \<open>The first row of a queryset ordered by \<open>(code, created_at)\<close>.\<close>

definition first_account :: "(ledger_account \<Rightarrow> bool) \<Rightarrow> db \<Rightarrow> ledger_account option" where
  "first_account P d =
     (case sort_key la_code (filter P (ledger_accounts d)) of [] \<Rightarrow> None | a # _ \<Rightarrow> Some a)"

definition ensure_chart :: "id \<Rightarrow> db \<Rightarrow> db \<times> chart_row" where
  "ensure_chart user d =
     (case find (\<lambda>c. ch_user c = user \<and> ch_name_index c = DEFAULT_CHART_BLIND_INDEX) (charts d) of
        Some c \<Rightarrow> (d, c)
      | None \<Rightarrow>
          (let c = \<lparr>ch_id = next_id d, ch_user = user, ch_name_index = DEFAULT_CHART_BLIND_INDEX\<rparr>
           in (d\<lparr>charts := charts d @ [c], next_id := Suc (next_id d)\<rparr>, c)))"

text \<open>\<open>_CODE_SUFFIX\<close>, whose \<open>$\<close> also matches before a trailing newline.\<close>

definition code_suffix :: "string \<Rightarrow> bool" where
  "code_suffix s =
     (let t = (if s \<noteq> [] \<and> last s = CHR 0x0A then butlast s else s) in t \<noteq> [] \<and> list_all is_digit t)"

definition used_codes :: "db \<Rightarrow> id \<Rightarrow> account_type \<Rightarrow> int list" where
  "used_codes d chart t =
     List.map_filter (\<lambda>a. if la_chart a = chart \<and> take 1 (la_code a) = CODE_PREFIXES t \<and>
          code_suffix (la_code a) then py_int (la_code a) else None)
       (ledger_accounts d)"

definition code_base :: "account_type \<Rightarrow> int" where
  "code_base t = 1000 * int (digit_val (hd (CODE_PREFIXES t)))"

definition next_code :: "db \<Rightarrow> id \<Rightarrow> account_type \<Rightarrow> string" where
  "next_code d chart t =
     (let base = code_base t
      in show_int (Max (set ((base - 10) # filter (\<lambda>c. base \<le> c) (used_codes d chart t))) + 10))"

text \<open>\<open>LedgerAccount.clean\<close>, with the field checks that \<open>full_clean\<close> makes first.\<close>

definition account_forest :: "db \<Rightarrow> forest" where
  "account_forest d = map (\<lambda>a. (la_id a, la_parent a)) (ledger_accounts d)"

definition chart_owner :: "db \<Rightarrow> id \<Rightarrow> id option" where
  "chart_owner d k = map_option ch_user (get_chart d k)"

definition account_owner :: "db \<Rightarrow> id \<Rightarrow> id option" where
  "account_owner d k = map_option fa_user (get_account d k)"

definition ledger_account_clean :: "db \<Rightarrow> ledger_account \<Rightarrow> bool" where
  "ledger_account_clean d a =
     (la_code a \<noteq> [] \<and> length (la_code a) \<le> 32 \<and> la_name_index a \<noteq> [] \<and>
      length (la_name_index a) \<le> 128 \<and>
      NORMAL_BALANCES (la_type a) = la_normal_balance a \<and>
      chart_owner d (la_chart a) = Some (la_user a) \<and>
      (case la_parent a of
         None \<Rightarrow> True
       | Some p \<Rightarrow>
           (case get_ledger_account d p of
              None \<Rightarrow> False
            | Some pa \<Rightarrow> la_user pa = la_user a \<and> la_chart pa = la_chart a) \<and>
           \<not> cycle_from (account_forest d) (la_id a) [] (Some p)) \<and>
      (case la_financial_account a of
         None \<Rightarrow> True
       | Some f \<Rightarrow> account_owner d f = Some (la_user a)))"

text \<open>\<open>account.save()\<close> under the unique constraint on \<open>(chart, code)\<close>.\<close>

definition insert_ledger_account :: "ledger_account \<Rightarrow> db \<Rightarrow> db result" where
  "insert_ledger_account a d =
     raise_if (list_ex (\<lambda>b. la_chart b = la_chart a \<and> la_code b = la_code a) (ledger_accounts d))
       IntegrityError
       (Inr (d\<lparr>ledger_accounts := ledger_accounts d @ [a], next_id := Suc (next_id d)\<rparr>))"

definition get_or_create_account ::
  "id \<Rightarrow> account_type \<Rightarrow> string \<Rightarrow> id option \<Rightarrow> bool \<Rightarrow> db \<Rightarrow> (db \<times> ledger_account) result" where
  "get_or_create_account user t name_index financial is_system d0 =
     (case ensure_chart user d0 of (d, chart) \<Rightarrow>
       (case first_account (\<lambda>a. la_chart a = ch_id chart \<and> la_parent a = None \<and>
               la_name_index a = name_index) d of
          Some existing \<Rightarrow> Inr (d, existing)
        | None \<Rightarrow>
            (let account =
               \<lparr>la_id = next_id d, la_chart = ch_id chart, la_user = user,
                la_code = next_code d (ch_id chart) t, la_name_index = name_index, la_type = t,
                la_normal_balance = NORMAL_BALANCES t, la_parent = None,
                la_financial_account = financial, la_is_system = is_system\<rparr>
             in raise_if (\<not> ledger_account_clean d account) ValidationError
                  (rbind (insert_ledger_account account d) (\<lambda>d'. Inr (d', account))))))"

definition ensure_opening_balance_equity :: "id \<Rightarrow> db \<Rightarrow> (db \<times> ledger_account) result" where
  "ensure_opening_balance_equity user d =
     get_or_create_account user EQUITY OPENING_BALANCE_EQUITY_BLIND_INDEX None True d"

definition ensure_ledger_account_for ::
  "financial_account \<Rightarrow> db \<Rightarrow> (db \<times> ledger_account) result" where
  "ensure_ledger_account_for fa d =
     (case first_account (\<lambda>a. la_financial_account a = Some (fa_id fa)) d of
        Some existing \<Rightarrow> Inr (d, existing)
      | None \<Rightarrow>
          get_or_create_account (fa_user fa) (FINANCIAL_ACCOUNT_LEDGER_TYPES (fa_type fa))
            (fa_name_index fa) (Some (fa_id fa)) False d)"

section \<open>The chart's invariant\<close>

definition la_key :: "ledger_account \<Rightarrow> id \<times> string" where
  "la_key a = (la_chart a, la_code a)"

definition chart_ok :: "db \<Rightarrow> bool" where
  "chart_ok d =
     (table_ok la_id (ledger_accounts d) (next_id d) \<and> table_ok ch_id (charts d) (next_id d) \<and>
      distinct (map la_key (ledger_accounts d)) \<and>
      list_all (\<lambda>a. NORMAL_BALANCES (la_type a) = la_normal_balance a \<and>
        chart_owner d (la_chart a) = Some (la_user a)) (ledger_accounts d))"

lemma first_account_SomeD: "first_account P d = Some a \<Longrightarrow> a \<in> set (ledger_accounts d) \<and> P a"
proof -
  assume "first_account P d = Some a"
  then obtain rest where "sort_key la_code (filter P (ledger_accounts d)) = a # rest"
    by (auto simp: first_account_def split: list.splits)
  then have "a \<in> set (sort_key la_code (filter P (ledger_accounts d)))"
    by (metis list.set_intros(1))
  then show ?thesis by simp
qed

lemma first_account_None: "first_account P d = None \<longleftrightarrow> (\<forall>a \<in> set (ledger_accounts d). \<not> P a)"
proof -
  have "first_account P d = None \<longleftrightarrow> sort_key la_code (filter P (ledger_accounts d)) = []"
    by (auto simp: first_account_def split: list.splits)
  also have "\<dots> \<longleftrightarrow> filter P (ledger_accounts d) = []"
    by (metis length_0_conv length_sort)
  finally show ?thesis by (auto simp: filter_empty_conv)
qed

lemma first_account_only:
  "first_account P d = None \<Longrightarrow> P a \<Longrightarrow>
     first_account P (d\<lparr>ledger_accounts := ledger_accounts d @ [a], next_id := n\<rparr>) = Some a"
  by (simp add: first_account_None) (simp add: first_account_def)

lemma ensure_chart_props:
  assumes "ensure_chart user d = (d', c)"
  shows "ch_user c = user" "ch_name_index c = DEFAULT_CHART_BLIND_INDEX" "ensure_chart user d' = (d', c)"
    "table_ok ch_id (charts d) (next_id d) \<Longrightarrow>
       table_ok ch_id (charts d') (next_id d') \<and> get_chart d' (ch_id c) = Some c \<and>
       (\<forall>k x. get_chart d k = Some x \<longrightarrow> get_chart d' k = Some x)"
    "d' = d \<or> (\<exists>cs. d' = d\<lparr>charts := cs, next_id := Suc (next_id d)\<rparr>)"
proof -
  let ?P = "\<lambda>c. ch_user c = user \<and> ch_name_index c = DEFAULT_CHART_BLIND_INDEX"
  have cases: "d' = d \<and> find ?P (charts d) = Some c \<or>
      find ?P (charts d) = None \<and>
      c = \<lparr>ch_id = next_id d, ch_user = user, ch_name_index = DEFAULT_CHART_BLIND_INDEX\<rparr> \<and>
      d' = d\<lparr>charts := charts d @ [c], next_id := Suc (next_id d)\<rparr>"
    using assms by (auto simp: ensure_chart_def Let_def split: option.splits)
  then show "ch_user c = user" "ch_name_index c = DEFAULT_CHART_BLIND_INDEX"
    by (auto simp: find_Some_iff)
  have app: "find ?P (xs @ [c]) = Some c" if "find ?P xs = None" "?P c" for xs
    using that by (induction xs) auto
  show "ensure_chart user d' = (d', c)"
    using cases app [of "charts d"] by (auto simp: ensure_chart_def)
  show "d' = d \<or> (\<exists>cs. d' = d\<lparr>charts := cs, next_id := Suc (next_id d)\<rparr>)"
    using cases by auto
  assume t: "table_ok ch_id (charts d) (next_id d)"
  have "c \<in> set (charts d)" if "find ?P (charts d) = Some c"
    using that by (auto simp: find_Some_iff)
  then show "table_ok ch_id (charts d') (next_id d') \<and> get_chart d' (ch_id c) = Some c \<and>
       (\<forall>k x. get_chart d k = Some x \<longrightarrow> get_chart d' k = Some x)"
    using cases t table_ok_find [OF t] table_ok_find_new [OF t, of "next_id d"]
      table_ok_append [OF t, of c "Suc (next_id d)"]
    by (auto simp: get_chart_def find_row_append split: option.splits)
qed

text \<open>The row a lookup that creates returns, and the table it leaves.\<close>

lemma get_or_create_cases:
  assumes "get_or_create_account user t ix f s d0 = Inr (d', a)"
  obtains (found) d c where "ensure_chart user d0 = (d, c)" "d' = d"
      "first_account (\<lambda>a. la_chart a = ch_id c \<and> la_parent a = None \<and> la_name_index a = ix) d = Some a"
  | (created) d c where "ensure_chart user d0 = (d, c)"
      "first_account (\<lambda>a. la_chart a = ch_id c \<and> la_parent a = None \<and> la_name_index a = ix) d = None"
      "a = \<lparr>la_id = next_id d, la_chart = ch_id c, la_user = user, la_code = next_code d (ch_id c) t,
            la_name_index = ix, la_type = t, la_normal_balance = NORMAL_BALANCES t, la_parent = None,
            la_financial_account = f, la_is_system = s\<rparr>"
      "ledger_account_clean d a"
      "\<forall>b \<in> set (ledger_accounts d). la_key b \<noteq> la_key a"
      "d' = d\<lparr>ledger_accounts := ledger_accounts d @ [a], next_id := Suc (next_id d)\<rparr>"
  using assms
  by (auto simp: get_or_create_account_def insert_ledger_account_def Let_def list_ex_iff la_key_def
      split: prod.splits option.splits)

lemma get_or_create_again:
  assumes "get_or_create_account user t ix f s d0 = Inr (d', a)"
  shows "get_or_create_account user t ix f s d' = Inr (d', a)"
  using assms
proof (cases rule: get_or_create_cases)
  case (found d c)
  then show ?thesis
    using ensure_chart_props(3) [OF found(1)] by (simp add: get_or_create_account_def)
next
  case (created d c)
  have "ensure_chart user d = (d, c)" by (rule ensure_chart_props(3) [OF created(1)])
  then have "ensure_chart user d' = (d', c)"
    by (auto simp: ensure_chart_def created(6) Let_def split: option.splits dest!: arg_cong [where f = charts])
  then show ?thesis
    using first_account_only [OF created(2), of a] created(3,6)
    by (simp add: get_or_create_account_def)
qed

lemma get_or_create_chart_ok:
  assumes "get_or_create_account user t ix f s d0 = Inr (d', a)" "chart_ok d0"
  shows "chart_ok d' \<and> get_ledger_account d' (la_id a) = Some a"
proof -
  have *: "chart_ok d \<and> ledger_accounts d = ledger_accounts d0" if c: "ensure_chart user d0 = (d, c)" for d c
    using assms(2) ensure_chart_props(4,5) [OF c] table_ok_mono [of la_id "ledger_accounts d0" "next_id d0"]
    unfolding chart_ok_def chart_owner_def list_all_iff by (auto simp del: map_option_eq_Some) fastforce+
  from assms(1) show ?thesis
  proof (cases rule: get_or_create_cases)
    case (found d c)
    then show ?thesis
      using * [OF found(1)] first_account_SomeD [OF found(3)] table_ok_find [of la_id]
      by (auto simp: chart_ok_def get_ledger_account_def)
  next
    case (created d c)
    have d: "chart_ok d" using * [OF created(1)] by simp
    then have "find_row la_id (ledger_accounts d) (next_id d) = None"
      using table_ok_find_new by (auto simp: chart_ok_def)
    then show ?thesis
      using d created(3-6) table_ok_append [of la_id "ledger_accounts d" "next_id d" a "Suc (next_id d)"]
        table_ok_mono [of ch_id "charts d" "next_id d" "Suc (next_id d)"]
      by (auto simp: chart_ok_def get_ledger_account_def find_row_append ledger_account_clean_def
          chart_owner_def get_chart_def list_all_iff)
  qed
qed

lemma ensure_chart_accounts: "ensure_chart user d = (d', c) \<Longrightarrow> ledger_accounts d' = ledger_accounts d"
  using ensure_chart_props(5) by fastforce

section \<open>Properties\<close>

text \<open>
  Asking for the ledger account of a real account is idempotent: the second call returns the
  same row and changes nothing. The first keeps the chart's invariant (codes unique in a chart,
  normal balances following the account type, one owner per chart), only ever adds rows, and
  returns a row of the table.
\<close>

theorem ensure_ledger_account_idempotent:
  assumes "ensure_ledger_account_for fa d = Inr (d', a)" "chart_ok d"
  shows "ensure_ledger_account_for fa d' = Inr (d', a) \<and> chart_ok d' \<and>
    get_ledger_account d' (la_id a) = Some a \<and>
    (\<exists>new. ledger_accounts d' = ledger_accounts d @ new \<and> length new \<le> 1)"
proof (cases "first_account (\<lambda>a. la_financial_account a = Some (fa_id fa)) d")
  case (Some b)
  then have "b \<in> set (ledger_accounts d)" by (auto dest: first_account_SomeD)
  then have "get_ledger_account d (la_id b) = Some b"
    using assms(2) table_ok_find by (auto simp: chart_ok_def get_ledger_account_def)
  then show ?thesis using Some assms by (auto simp: ensure_ledger_account_for_def)
next
  case None
  let ?t = "FINANCIAL_ACCOUNT_LEDGER_TYPES (fa_type fa)"
  have g: "get_or_create_account (fa_user fa) ?t (fa_name_index fa) (Some (fa_id fa)) False d = Inr (d', a)"
    using assms(1) None by (simp add: ensure_ledger_account_for_def)
  have again: "get_or_create_account (fa_user fa) ?t (fa_name_index fa) (Some (fa_id fa)) False d' = Inr (d', a)"
    by (rule get_or_create_again [OF g])
  from g have "ensure_ledger_account_for fa d' = Inr (d', a) \<and>
      (\<exists>new. ledger_accounts d' = ledger_accounts d @ new \<and> length new \<le> 1)"
  proof (cases rule: get_or_create_cases)
    case (found d2 c)
    then have "ledger_accounts d' = ledger_accounts d" using ensure_chart_accounts by simp
    then have "first_account (\<lambda>a. la_financial_account a = Some (fa_id fa)) d' = None"
      using None by (simp add: first_account_def)
    then show ?thesis
      using again \<open>ledger_accounts d' = ledger_accounts d\<close> by (simp add: ensure_ledger_account_for_def)
  next
    case (created d2 c)
    then have e: "ledger_accounts d2 = ledger_accounts d" using ensure_chart_accounts by simp
    then have "first_account (\<lambda>a. la_financial_account a = Some (fa_id fa)) d2 = None"
      using None by (simp add: first_account_def)
    then have "first_account (\<lambda>a. la_financial_account a = Some (fa_id fa)) d' = Some a"
      unfolding created(6) by (rule first_account_only) (simp add: created(3))
    then show ?thesis using created(6) e by (simp add: ensure_ledger_account_for_def)
  qed
  then show ?thesis using get_or_create_chart_ok [OF g assms(2)] by simp
qed

definition sample_savings :: financial_account where
  "sample_savings = sample_account\<lparr>fa_id := 11, fa_name_index := ''savings-index'', fa_type := SAVINGS\<rparr>"

definition sample_db2 :: db where
  "sample_db2 = sample_db\<lparr>accounts := [sample_account, sample_savings]\<rparr>"

lemma sample_chart_ok: "chart_ok sample_db2"
  by (simp add: sample_db2_def sample_eval chart_ok_def table_ok_def keys_def la_key_def
      chart_owner_def get_chart_def)

lemma sample_next_code: "next_code sample_db2 5 ASSET = ''1010''"
  by code_simp

theorem ensure_ledger_account_witness:
  "\<exists>d' a. ensure_ledger_account_for sample_savings sample_db2 = Inr (d', a) \<and> la_code a = ''1010'' \<and>
     ensure_ledger_account_for sample_savings d' = Inr (d', a)"
proof -
  have "\<exists>d' a. ensure_ledger_account_for sample_savings sample_db2 = Inr (d', a) \<and> la_code a = ''1010''"
    using sample_next_code
    by (simp add: Let_def ensure_ledger_account_for_def get_or_create_account_def ensure_chart_def
        first_account_def insert_ledger_account_def ledger_account_clean_def chart_owner_def
        get_chart_def account_owner_def get_account_def DEFAULT_CHART_BLIND_INDEX_def
        sample_db2_def sample_savings_def sample_eval)
  then obtain d' a where r: "ensure_ledger_account_for sample_savings sample_db2 = Inr (d', a)"
    and c: "la_code a = ''1010''" by blast
  show ?thesis using ensure_ledger_account_idempotent [OF r sample_chart_ok] r c by blast
qed

text \<open>
  C13. A ledger account that passes \<open>clean\<close> keeps the tree of parents walkable: saving its parent
  link into a table whose ancestor walks all end leaves them ending, the row's own \<open>ancestors()\<close>
  included, although that loop has no guard of its own.
\<close>

theorem clean_keeps_ancestors_finite:
  assumes "rooted (account_forest d)" "closed_forest (account_forest d)" "ledger_account_clean d a"
  shows "rooted (set_parent (la_id a) (la_parent a) (account_forest d)) \<and>
    closed_forest (set_parent (la_id a) (la_parent a) (account_forest d)) \<and>
    (\<exists>up. ancestors_from (set_parent (la_id a) (la_parent a) (account_forest d)) (la_parent a) = Some up)"
proof -
  have m: "map_of (map (\<lambda>a. (la_id a, la_parent a)) rows) k = map_option la_parent (find_row la_id rows k)"
    for rows k by (induction rows) auto
  have known: "known (account_forest d) (la_parent a)"
    using assms(3)
    by (auto simp: known_def ledger_account_clean_def account_forest_def m get_ledger_account_def
        split: option.splits)
  have acyclic: "\<not> cycle_from (account_forest d) (la_id a) [] (la_parent a)"
    using assms(3) by (auto simp: ledger_account_clean_def split: option.splits)
  show ?thesis
    using rooted_set_parent [OF assms(1,2) known acyclic] closed_set_parent [OF assms(2) known]
      no_cycle_ancestors [OF assms(2) known acyclic] by blast
qed

theorem clean_keeps_ancestors_witness:
  "rooted (set_parent 21 (Some 20) (account_forest sample_db))"
proof -
  let ?a = "sample_expense\<lparr>la_parent := Some 20\<rparr>"
  have "rooted (account_forest sample_db)" "closed_forest (account_forest sample_db)"
    "ledger_account_clean sample_db ?a"
    by (simp_all add: account_forest_def rooted_def closed_forest_def known_def sample_eval
        ledger_account_clean_def chart_owner_def get_chart_def)
  from clean_keeps_ancestors_finite [OF this] show ?thesis by (simp add: sample_expense_def)
qed

text \<open>
  The codes of one type run out after a hundred accounts: once 1990 is the highest asset code,
  the next asset gets 2000, a code of the liabilities' range. That code is not counted as an
  asset's, so the following asset is offered 2000 again and the unique constraint refuses it; the
  same happens at once where a liability already has 2000.
\<close>

theorem asset_codes_run_out:
  assumes "1990 \<in> set (used_codes d k ASSET)" "\<forall>c \<in> set (used_codes d k ASSET). c \<le> 1990"
    and "la_chart a = k" "la_code a = ''2000''"
  shows "next_code d k ASSET = ''2000'' \<and>
    next_code (d\<lparr>ledger_accounts := ledger_accounts d @ [a]\<rparr>) k ASSET = ''2000'' \<and>
    (la_chart b = k \<and> la_code b = ''2000'' \<longrightarrow>
       insert_ledger_account b (d\<lparr>ledger_accounts := ledger_accounts d @ [a]\<rparr>) = Inl IntegrityError)"
proof -
  let ?S = "\<lambda>d. set ((code_base ASSET - 10) # filter (\<lambda>c. code_base ASSET \<le> c) (used_codes d k ASSET))"
  have base: "code_base ASSET = 1000" by (simp add: code_base_def digit_val_def)
  have "Max (?S d) = 1990"
    using assms(1,2) by (intro Max_eqI) (auto simp: base)
  moreover have "show_int (1990 + 10) = ''2000''" by code_simp
  ultimately have c: "next_code d k ASSET = ''2000''" by (simp add: next_code_def Let_def)
  have "used_codes (d\<lparr>ledger_accounts := ledger_accounts d @ [a]\<rparr>) k ASSET = used_codes d k ASSET"
    using assms(4) by (simp add: used_codes_def map_filter_def)
  then show ?thesis
    using c assms(3,4) by (simp add: next_code_def insert_ledger_account_def)
qed

theorem asset_codes_run_out_witness:
  "next_code (sample_db\<lparr>ledger_accounts := [sample_asset\<lparr>la_code := ''1990''\<rparr>]\<rparr>) 5 ASSET = ''2000''"
proof -
  let ?d = "sample_db\<lparr>ledger_accounts := [sample_asset\<lparr>la_code := ''1990''\<rparr>]\<rparr>"
  have "used_codes ?d 5 ASSET = [1990]" by code_simp
  then show ?thesis
    using asset_codes_run_out [of ?d 5 "sample_asset\<lparr>la_code := ''2000''\<rparr>" sample_asset]
    by (simp add: sample_asset_def)
qed

end
