(* ===== verification/Balances.thy ===== *)
theory Balances
  imports Chart "HOL-Library.Product_Lexorder"
begin

text \<open>
  What each account holds (\<open>apps/ledger/balances.py\<close>): the confirmed entries of one user added up
  per account and currency with the sign of the account's normal balance, then per financial
  account, and into one position per currency.
\<close>

section \<open>Definitions\<close>

fun NORMAL_BALANCE_SIGNS :: "entry_type \<Rightarrow> entry_type \<Rightarrow> int" where
  "NORMAL_BALANCE_SIGNS DEBIT DEBIT = 1"
| "NORMAL_BALANCE_SIGNS DEBIT CREDIT = - 1"
| "NORMAL_BALANCE_SIGNS CREDIT DEBIT = - 1"
| "NORMAL_BALANCE_SIGNS CREDIT CREDIT = 1"

record account_balance =
  ab_account :: id
  ab_code :: string
  ab_type :: account_type
  ab_normal :: entry_type
  ab_financial_account :: "id option"
  ab_currency :: string
  ab_amount :: int
  ab_count :: nat

record position =
  pos_currency :: string
  pos_assets :: int
  pos_liabilities :: int

definition net_minor :: "position \<Rightarrow> int" where
  "net_minor p = pos_assets p - pos_liabilities p"

definition counted_entry :: "db \<Rightarrow> id \<Rightarrow> ledger_entry \<Rightarrow> (ledger_entry \<times> ledger_account) option" where
  "counted_entry d user e =
     (case (get_ledger_account d (en_account e), get_tx d (en_transaction e)) of
        (Some a, Some t) \<Rightarrow>
          if la_user a = user \<and> tx_user t = user \<and> tx_status t = CONFIRMED then Some (e, a)
          else None
      | _ \<Rightarrow> None)"

text \<open>
  \<open>_entries\<close>: each entry of a confirmed transaction of the user against an account of the user,
  with that account, ordered by account code and then as created.
\<close>

definition counted_entries :: "db \<Rightarrow> id \<Rightarrow> (ledger_entry \<times> ledger_account) list" where
  "counted_entries d user =
     sort_key (\<lambda>(e, a). la_code a)
       (List.map_filter (counted_entry d user) (entries d))"

definition balance_key :: "ledger_entry \<times> ledger_account \<Rightarrow> id \<times> string" where
  "balance_key = (\<lambda>(e, a). (la_id a, currency (en_amount e)))"

definition balance_item :: "ledger_entry \<times> ledger_account \<Rightarrow> (id \<times> string) \<times> int" where
  "balance_item = (\<lambda>(e, a).
     (balance_key (e, a), NORMAL_BALANCE_SIGNS (la_normal_balance a) (en_type e) * amount_minor (en_amount e)))"

text \<open>The \<open>accounts\<close> dictionary: the row last stored under a key.\<close>

definition accounts_seen :: "(ledger_entry \<times> ledger_account) list \<Rightarrow> id \<Rightarrow> ledger_account" where
  "accounts_seen es k = the (map_of (rev (map (\<lambda>(e, a). (la_id a, a)) es)) k)"

definition balance_row ::
  "(ledger_entry \<times> ledger_account) list \<Rightarrow> (id \<times> string) \<times> int \<Rightarrow> account_balance" where
  "balance_row es = (\<lambda>((k, cur), n).
     \<lparr>ab_account = k, ab_code = la_code (accounts_seen es k), ab_type = la_type (accounts_seen es k),
      ab_normal = la_normal_balance (accounts_seen es k),
      ab_financial_account = la_financial_account (accounts_seen es k), ab_currency = cur,
      ab_amount = n, ab_count = length (filter (\<lambda>x. balance_key x = (k, cur)) es)\<rparr>)"

definition account_balances :: "db \<Rightarrow> id \<Rightarrow> account_balance list" where
  "account_balances d user =
     (let es = counted_entries d user
      in map (balance_row es)
           (sort_key (\<lambda>((k, cur), n). (la_code (accounts_seen es k), cur))
             (tally (map balance_item es))))"

definition typed_totals :: "account_type \<Rightarrow> account_balance list \<Rightarrow> (string \<times> int) list" where
  "typed_totals t bs = tally (map (\<lambda>b. (ab_currency b, ab_amount b)) (filter (\<lambda>b. ab_type b = t) bs))"

definition positions :: "db \<Rightarrow> id \<Rightarrow> position list" where
  "positions d user =
     (let bs = account_balances d user; assets = typed_totals ASSET bs;
          liabilities = typed_totals LIABILITY bs
      in map (\<lambda>cur. \<lparr>pos_currency = cur, pos_assets = total_at cur assets,
             pos_liabilities = total_at cur liabilities\<rparr>)
           (sort (remdups (map fst assets @ map fst liabilities))))"

definition financial_account_balances :: "db \<Rightarrow> id \<Rightarrow> ((id \<times> string) \<times> int) list" where
  "financial_account_balances d user =
     tally (List.map_filter (\<lambda>b. case ab_financial_account b of
              None \<Rightarrow> None | Some f \<Rightarrow> Some ((f, ab_currency b), ab_amount b))
       (account_balances d user))"

section \<open>Summing over the rows\<close>

lemma sum_list_sort_key: "(\<Sum>x \<leftarrow> sort_key k xs. f x) = (\<Sum>x \<leftarrow> xs. f x :: int)"
  by (metis mset_map mset_sort sum_mset_sum_list)

lemma sign_cases: "NORMAL_BALANCE_SIGNS n t = (if n = t then 1 else - 1)"
  by (cases n; cases t) simp_all

lemma sign_sign: "NORMAL_BALANCE_SIGNS n DEBIT * (NORMAL_BALANCE_SIGNS n (en_type e) * amount_minor (en_amount e)) = signed_minor e"
  by (cases n; cases "en_type e") (simp_all add: signed_minor_def)

lemma in_map_filter: "y \<in> set (List.map_filter f xs) \<longleftrightarrow> (\<exists>x \<in> set xs. f x = Some y)"
  by (induction xs) (auto simp: List.map_filter_simps split: option.splits)

lemma counted_entry_Some:
  "counted_entry d user x = Some (e, a) \<longleftrightarrow>
     x = e \<and> get_ledger_account d (en_account e) = Some a \<and> la_user a = user \<and>
     (\<exists>t. get_tx d (en_transaction e) = Some t \<and> tx_user t = user \<and> tx_status t = CONFIRMED)"
  by (auto simp: counted_entry_def split: option.splits)

lemma counted_in:
  "(e, a) \<in> set (counted_entries d user) \<longleftrightarrow>
     e \<in> set (entries d) \<and> get_ledger_account d (en_account e) = Some a \<and> la_user a = user \<and>
     (\<exists>t. get_tx d (en_transaction e) = Some t \<and> tx_user t = user \<and> tx_status t = CONFIRMED)"
  unfolding counted_entries_def set_sort in_map_filter counted_entry_Some by blast

lemma counted_account:
  "(e, a) \<in> set (counted_entries d user) \<Longrightarrow> get_ledger_account d (la_id a) = Some a \<and> la_id a = en_account e"
  unfolding counted_in get_ledger_account_def by (metis find_row_pk)

lemma accounts_seen_id:
  assumes "(e, a) \<in> set (counted_entries d user)"
  shows "accounts_seen (counted_entries d user) (la_id a) = a"
proof -
  define ps where "ps = rev (map (\<lambda>(e, a). (la_id a, a)) (counted_entries d user))"
  have "(la_id a, a) \<in> set ps" using assms by (force simp: ps_def)
  moreover have "b = a" if "(la_id a, b) \<in> set ps" for b
    using that counted_account [OF assms] counted_account
    by (auto simp: ps_def) (metis option.inject)
  ultimately have "map_of ps (la_id a) = Some a"
    by (metis map_of_SomeD weak_map_of_SomeI)
  then show ?thesis by (simp add: accounts_seen_def ps_def)
qed

lemma total_at_filter: "total_at k (map f xs) = (\<Sum>x \<leftarrow> xs. if fst (f x) = k then snd (f x) else 0)"
  by (simp add: total_at_def case_prod_unfold comp_def)

text \<open>Any weighting of the balances by account and currency is the weighting of the entries.\<close>

lemma sum_balances:
  "(\<Sum>b \<leftarrow> account_balances d user. w (ab_account b) (ab_currency b) * ab_amount b) =
   (\<Sum>(e, a) \<leftarrow> counted_entries d user. w (la_id a) (currency (en_amount e)) *
      (NORMAL_BALANCE_SIGNS (la_normal_balance a) (en_type e) * amount_minor (en_amount e)))"
proof -
  define es where "es = counted_entries d user"
  have "(\<Sum>b \<leftarrow> account_balances d user. w (ab_account b) (ab_currency b) * ab_amount b) =
      (\<Sum>(kc, n) \<leftarrow> tally (map balance_item es). w (fst kc) (snd kc) * n)"
    by (simp add: account_balances_def Let_def es_def comp_def balance_row_def case_prod_unfold sum_list_sort_key)
  also have "\<dots> = (\<Sum>(kc, n) \<leftarrow> map balance_item es. w (fst kc) (snd kc) * n)"
    using sum_tally [of "\<lambda>kc. w (fst kc) (snd kc)" "map balance_item es"] by simp
  also have "\<dots> = (\<Sum>(e, a) \<leftarrow> es. w (la_id a) (currency (en_amount e)) *
      (NORMAL_BALANCE_SIGNS (la_normal_balance a) (en_type e) * amount_minor (en_amount e)))"
    by (simp add: comp_def balance_item_def balance_key_def case_prod_unfold)
  finally show ?thesis by (simp add: es_def)
qed

lemma balance_in_account_balances:
  assumes "b \<in> set (account_balances d user)"
  shows "\<exists>a. get_ledger_account d (ab_account b) = Some a \<and> la_user a = user \<and>
     ab_code b = la_code a \<and> ab_type b = la_type a \<and> ab_normal b = la_normal_balance a \<and>
     ab_financial_account b = la_financial_account a \<and>
     ab_amount b = (\<Sum>(e, a) \<leftarrow> counted_entries d user.
       if la_id a = ab_account b \<and> currency (en_amount e) = ab_currency b
       then NORMAL_BALANCE_SIGNS (la_normal_balance a) (en_type e) * amount_minor (en_amount e) else 0)"
proof -
  define es where "es = counted_entries d user"
  obtain k cur n where b: "b = balance_row es ((k, cur), n)" and t: "((k, cur), n) \<in> set (tally (map balance_item es))"
    using assms by (auto simp: account_balances_def Let_def es_def)
  have "(k, cur) \<in> fst ` set (map balance_item es)" using t fst_tally by (metis fst_conv image_eqI)
  then obtain e a where ea: "(e, a) \<in> set es" "k = la_id a"
    by (auto simp: balance_item_def balance_key_def)
  have "accounts_seen es k = a" using ea accounts_seen_id by (simp add: es_def)
  moreover have "get_ledger_account d k = Some a" "la_user a = user"
    using ea counted_account counted_in by (auto simp: es_def)
  moreover have "n = total_at (k, cur) (map balance_item es)" using t by (rule tally_value)
  then have "n = (\<Sum>(e, a) \<leftarrow> es. if la_id a = k \<and> currency (en_amount e) = cur
       then NORMAL_BALANCE_SIGNS (la_normal_balance a) (en_type e) * amount_minor (en_amount e) else 0)"
    by (simp add: total_at_filter balance_item_def balance_key_def case_prod_unfold cong: if_cong)
  ultimately show ?thesis by (auto simp: b balance_row_def es_def)
qed

lemma sum_net_of:
  "finite K \<Longrightarrow> (\<Sum>k \<in> K. net_of es k c) =
     (\<Sum>e \<leftarrow> es. if en_transaction e \<in> K \<and> currency (en_amount e) = c then signed_minor e else 0)"
proof (induction es)
  case (Cons e es)
  have "(\<Sum>k \<in> K. net_of (e # es) k c) =
      (\<Sum>k \<in> K. if en_transaction e = k \<and> currency (en_amount e) = c then signed_minor e else 0) +
      (\<Sum>k \<in> K. net_of es k c)"
    by (simp add: net_of_def sum.distrib)
  also have "(\<Sum>k \<in> K. if en_transaction e = k \<and> currency (en_amount e) = c then signed_minor e else 0) =
      (if en_transaction e \<in> K \<and> currency (en_amount e) = c then signed_minor e else 0)"
    using Cons.prems by (cases "currency (en_amount e) = c") (simp_all add: sum.delta')
  finally show ?case using Cons by simp
qed (simp add: net_of_def)

text \<open>In balanced books the confirmed entries of a user net to zero in every currency.\<close>

lemma counted_net_zero:
  assumes "ledger_ok d"
  shows "(\<Sum>(e, a) \<leftarrow> counted_entries d user. if currency (en_amount e) = c then signed_minor e else 0) = 0"
proof -
  define K where "K = {k \<in> en_transaction ` set (entries d).
     \<exists>t. get_tx d k = Some t \<and> tx_user t = user \<and> tx_status t = CONFIRMED}"
  have sub: "counted_entry d user e =
      (if en_transaction e \<in> K then Some (e, the (get_ledger_account d (en_account e))) else None)"
    if "entry_ok d e" "e \<in> set (entries d)" for e
    using that by (auto simp: K_def entry_ok_def counted_entry_def split: option.splits)
  have gen: "(\<Sum>(e, a) \<leftarrow> List.map_filter (counted_entry d user) es. if currency (en_amount e) = c then signed_minor e else 0) =
      (\<Sum>e \<leftarrow> es. if en_transaction e \<in> K \<and> currency (en_amount e) = c then signed_minor e else 0)"
    if "\<forall>e \<in> set es. entry_ok d e \<and> e \<in> set (entries d)" for es
    using that
  proof (induction es)
    case (Cons e es)
    then have "entry_ok d e" "e \<in> set (entries d)" by simp_all
    with Cons sub show ?case by simp
  qed simp
  have "(\<Sum>(e, a) \<leftarrow> counted_entries d user. if currency (en_amount e) = c then signed_minor e else 0) =
      (\<Sum>e \<leftarrow> entries d. if en_transaction e \<in> K \<and> currency (en_amount e) = c then signed_minor e else 0)"
    unfolding counted_entries_def using assms
    by (simp only: sum_list_sort_key) (rule gen, auto simp: ledger_ok_def list_all_iff)
  also have "\<dots> = (\<Sum>k \<in> K. net_of (entries d) k c)"
    by (subst sum_net_of) (simp_all add: K_def)
  also have "\<dots> = 0" using assms by (simp add: ledger_ok_def books_balanced_iff)
  finally show ?thesis .
qed

definition typed_sum :: "(account_type \<Rightarrow> bool) \<Rightarrow> string \<Rightarrow> account_balance list \<Rightarrow> int" where
  "typed_sum T c bs = (\<Sum>b \<leftarrow> bs. if T (ab_type b) \<and> ab_currency b = c then ab_amount b else 0)"

definition normal_sum :: "entry_type \<Rightarrow> string \<Rightarrow> account_balance list \<Rightarrow> int" where
  "normal_sum n c bs = (\<Sum>b \<leftarrow> bs. if ab_normal b = n \<and> ab_currency b = c then ab_amount b else 0)"

lemma trial_balance:
  assumes "ledger_ok d"
  shows "normal_sum DEBIT c (account_balances d user) = normal_sum CREDIT c (account_balances d user)"
proof -
  define nb where "nb k = (case get_ledger_account d k of Some a \<Rightarrow> la_normal_balance a | None \<Rightarrow> DEBIT)" for k
  define w where "w k c' = (if c' = c then NORMAL_BALANCE_SIGNS (nb k) DEBIT else 0)" for k c'
  have nb: "ab_normal b = nb (ab_account b)" if "b \<in> set (account_balances d user)" for b
    using balance_in_account_balances [OF that] by (auto simp: nb_def)
  have diff: "normal_sum DEBIT c bs - normal_sum CREDIT c bs =
      (\<Sum>b \<leftarrow> bs. w (ab_account b) (ab_currency b) * ab_amount b)"
    if "\<forall>b \<in> set bs. ab_normal b = nb (ab_account b)" for bs
    using that
  proof (induction bs)
    case (Cons b bs)
    then show ?case
      by (cases "nb (ab_account b)") (auto simp: normal_sum_def w_def)
  qed (simp add: normal_sum_def)
  have "(\<Sum>b \<leftarrow> account_balances d user. w (ab_account b) (ab_currency b) * ab_amount b) =
      (\<Sum>(e, a) \<leftarrow> counted_entries d user. if currency (en_amount e) = c then signed_minor e else 0)"
    unfolding sum_balances
  proof (intro arg_cong [where f = sum_list] map_cong refl, clarify)
    fix e a
    assume "(e, a) \<in> set (counted_entries d user)"
    from counted_account [OF this] have "get_ledger_account d (la_id a) = Some a" by (rule conjunct1)
    then have "nb (la_id a) = la_normal_balance a" by (simp add: nb_def)
    then show "w (la_id a) (currency (en_amount e)) *
        (NORMAL_BALANCE_SIGNS (la_normal_balance a) (en_type e) * amount_minor (en_amount e)) =
      (if currency (en_amount e) = c then signed_minor e else 0)"
      by (simp add: w_def sign_sign)
  qed
  also have "\<dots> = 0" by (rule counted_net_zero [OF assms])
  finally show ?thesis using diff [of "account_balances d user"] nb by simp
qed

lemma total_at_typed: "total_at c (typed_totals t bs) = typed_sum (\<lambda>t'. t' = t) c bs"
proof -
  have "total_at c (map (\<lambda>b. (ab_currency b, ab_amount b)) (filter (\<lambda>b. ab_type b = t) bs)) =
      typed_sum (\<lambda>t'. t' = t) c bs"
    by (induction bs) (auto simp: typed_sum_def)
  then show ?thesis by (simp add: typed_totals_def total_at_tally)
qed

lemma balance_normal_matches:
  assumes "chart_ok d" "b \<in> set (account_balances d user)"
  shows "ab_normal b = NORMAL_BALANCES (ab_type b)"
proof -
  obtain a where a: "get_ledger_account d (ab_account b) = Some a" "ab_type b = la_type a" "ab_normal b = la_normal_balance a"
    using balance_in_account_balances [OF assms(2)] by auto
  have "a \<in> set (ledger_accounts d)"
    using a(1) unfolding get_ledger_account_def by (auto dest: find_row_SomeD)
  then show ?thesis using a(2,3) assms(1) by (auto simp: chart_ok_def list_all_iff)
qed

section \<open>Properties\<close>


lemma sample_counted:
  "counted_entries sample_posted 1 =
     [(posting_entry 30 (sample_postings ! 1)\<lparr>en_id := 101\<rparr>, sample_asset),
      (posting_entry 30 (sample_postings ! 0)\<lparr>en_id := 100\<rparr>, sample_expense)]"
  by (simp add: Let_def counted_entries_def counted_entry_def sample_posted_def bulk_create_def sample_eval
      posting_entry_def)

lemma sample_balances:
  "account_balances sample_posted 1 =
     [\<lparr>ab_account = 20, ab_code = ''1000'', ab_type = ASSET, ab_normal = DEBIT,
       ab_financial_account = Some 10, ab_currency = ''KRW'', ab_amount = - 42900, ab_count = 1\<rparr>,
      \<lparr>ab_account = 21, ab_code = ''5000'', ab_type = EXPENSE, ab_normal = DEBIT,
       ab_financial_account = None, ab_currency = ''KRW'', ab_amount = 42900, ab_count = 1\<rparr>]"
  unfolding account_balances_def sample_counted
  by (simp add: balance_item_def balance_key_def tally_def balance_row_def
      accounts_seen_def posting_entry_def sample_eval)


text \<open>
  C11. The accounting equation: in books that satisfy the ledger and chart invariants, what a user
  owns minus what they owe in a currency is what came in (equity and income) minus what was spent.
  It holds of every position \<open>positions\<close> reports.
\<close>

theorem net_position_equation:
  assumes "ledger_ok d" "chart_ok d" "p \<in> set (positions d user)"
  shows "net_minor p =
    typed_sum (\<lambda>t. t = EQUITY \<or> t = INCOME) (pos_currency p) (account_balances d user) -
    typed_sum (\<lambda>t. t = EXPENSE) (pos_currency p) (account_balances d user)"
proof -
  define bs where "bs = account_balances d user"
  define c where "c = pos_currency p"
  have p: "pos_assets p = typed_sum (\<lambda>t. t = ASSET) c bs" "pos_liabilities p = typed_sum (\<lambda>t. t = LIABILITY) c bs"
    using assms(3) by (auto simp: positions_def Let_def total_at_typed bs_def c_def)
  have sums: "normal_sum DEBIT c xs = typed_sum (\<lambda>t. t = ASSET) c xs + typed_sum (\<lambda>t. t = EXPENSE) c xs \<and>
      normal_sum CREDIT c xs = typed_sum (\<lambda>t. t = LIABILITY) c xs + typed_sum (\<lambda>t. t = EQUITY \<or> t = INCOME) c xs"
    if "\<forall>b \<in> set xs. ab_normal b = NORMAL_BALANCES (ab_type b)" for xs
    using that
  proof (induction xs)
    case (Cons b xs)
    then show ?case by (cases "ab_type b") (auto simp: normal_sum_def typed_sum_def)
  qed (simp add: normal_sum_def typed_sum_def)
  have "\<forall>b \<in> set bs. ab_normal b = NORMAL_BALANCES (ab_type b)"
    using balance_normal_matches [OF assms(2)] by (simp add: bs_def)
  from sums [OF this] show ?thesis
    using trial_balance [OF assms(1), of c user] p
    by (simp add: net_minor_def bs_def [symmetric] c_def [symmetric])
qed

theorem net_position_equation_witness:
  "\<exists>p \<in> set (positions sample_posted 1). net_minor p = - 42900 \<and>
     net_minor p = typed_sum (\<lambda>t. t = EQUITY \<or> t = INCOME) ''KRW'' (account_balances sample_posted 1) -
       typed_sum (\<lambda>t. t = EXPENSE) ''KRW'' (account_balances sample_posted 1)"
proof -
  have "chart_ok sample_posted"
    by (simp add: Let_def sample_posted_def bulk_create_def sample_eval chart_ok_def table_ok_def keys_def
        la_key_def chart_owner_def get_chart_def)
  moreover have "\<lparr>pos_currency = ''KRW'', pos_assets = - 42900, pos_liabilities = 0\<rparr> \<in> set (positions sample_posted 1)"
    by (simp add: positions_def Let_def sample_balances typed_totals_def tally_def del: One_nat_def)
  ultimately show ?thesis
    using net_position_equation [OF sample_posted_ok] by (force simp: net_minor_def)
qed

end
