(* ===== verification/Lifecycle.thy ===== *)
theory Lifecycle
  imports Models
begin

text \<open>
  Rows with a status and a table of legal moves: the interface that transactions
  (\<open>apps/transactions/lifecycle.py\<close>) and documents (\<open>apps/processing/state.py\<close>) both provide.
  A move locks the row, refuses what the table does not list, and saves the new status.
\<close>

locale guarded_lifecycle = keyed_store get put pk
  for get :: "'s \<Rightarrow> id \<Rightarrow> 'r option" and put :: "'r \<Rightarrow> 's \<Rightarrow> 's" and pk :: "'r \<Rightarrow> id" +
  fixes status :: "'r \<Rightarrow> 'x"
    and allowed :: "'x \<Rightarrow> 'x \<Rightarrow> bool"
    and move :: "'a \<Rightarrow> id \<Rightarrow> 'x \<Rightarrow> 's \<Rightarrow> 's result"
  assumes move_effect: "move a k x d = Inr d' \<Longrightarrow>
      \<exists>r r'. get d k = Some r \<and> allowed (status r) x \<and> get d' k = Some r' \<and> status r' = x \<and>
        (\<forall>j. j \<noteq> k \<longrightarrow> get d' j = get d j)"
begin

text \<open>A run of moves by anybody, in order.\<close>

fun moves :: "('a \<times> id \<times> 'x) list \<Rightarrow> 's \<Rightarrow> 's result" where
  "moves [] d = Inr d"
| "moves ((a, k, x) # ms) d = rbind (move a k x d) (moves ms)"

lemma move_refused: "get d k = Some r \<Longrightarrow> \<not> allowed (status r) x \<Longrightarrow> \<exists>e. move a k x d = Inl e"
  using move_effect [of a k x d] by (cases "move a k x d") fastforce+

lemma move_path:
  assumes "move a j x d = Inr d'" "get d k = Some r"
  shows "\<exists>r'. get d' k = Some r' \<and> (r' = r \<or> allowed (status r) (status r'))"
  using move_effect [OF assms(1)] assms(2) by (cases "j = k") auto

text \<open>Along any run a row's status follows the table.\<close>

lemma moves_path:
  assumes "moves ms d = Inr d'" "get d k = Some r"
  shows "\<exists>r'. get d' k = Some r' \<and> allowed\<^sup>*\<^sup>* (status r) (status r')"
  using assms
proof (induction ms d arbitrary: r rule: moves.induct)
  case (1 d)
  then show ?case by auto
next
  case (2 a j x ms d)
  from 2(2) obtain d1 where d1: "move a j x d = Inr d1" "moves ms d1 = Inr d'" by auto
  obtain r1 where r1: "get d1 k = Some r1" "r1 = r \<or> allowed (status r) (status r1)"
    using move_path [OF d1(1) 2(3)] by auto
  obtain r' where "get d' k = Some r'" "allowed\<^sup>*\<^sup>* (status r1) (status r')"
    using 2(1) [OF d1(2) r1(1)] by auto
  then show ?case using r1(2) by (auto intro: converse_rtranclp_into_rtranclp)
qed

text \<open>A status with no way out is kept, and so is the row's whole content.\<close>

lemma terminal_kept:
  assumes "moves ms d = Inr d'" "get d k = Some r" "\<And>x. \<not> allowed (status r) x"
  shows "get d' k = Some r"
  using assms
proof (induction ms d rule: moves.induct)
  case (2 a j x ms d)
  from 2(2) obtain d1 where d1: "move a j x d = Inr d1" "moves ms d1 = Inr d'" by auto
  have "get d1 k = Some r" using move_path [OF d1(1) 2(3)] 2(4) by auto
  then show ?case using 2(1) [OF d1(2)] 2(4) by blast
qed simp

end

end
