(* ===== verification/Transactions.thy ===== *)
theory Transactions
  imports Chart Lifecycle
begin

text \<open>
  Canonical transactions: the model's own checks (\<open>models.py\<close>), the contents invariant
  (\<open>invariants.py\<close>), the status table and the named door for corrections (\<open>lifecycle.py\<close>),
  saving once per origin (\<open>idempotency.py\<close>), manual entry (\<open>services.py\<close>) and deletion by
  reversal (\<open>deletion.py\<close>), all under \<open>apps/transactions\<close>.
\<close>

section \<open>Validation\<close>

definition owned :: "('r \<Rightarrow> id) \<Rightarrow> 'r option \<Rightarrow> id \<Rightarrow> bool" where
  "owned owner row user = (case row of None \<Rightarrow> False | Some r \<Rightarrow> owner r = user)"

text \<open>
  \<open>full_clean(validate_constraints=False)\<close>: the field checks, then \<open>clean\<close>, which also puts the
  currency into its normal form. Any complaint is one \<open>ValidationError\<close>.
\<close>

definition tx_fields_ok :: "db \<Rightarrow> canonical_transaction \<Rightarrow> bool" where
  "tx_fields_ok d t =
     (tx_currency t \<noteq> [] \<and> length (tx_currency t) \<le> 3 \<and>
      tx_category_source t \<noteq> [] \<and> length (tx_category_source t) \<le> 32 \<and>
      length (tx_merchant_index t) \<le> 128 \<and> length (tx_counterparty_index t) \<le> 128 \<and>
      length (tx_source_key t) \<le> 128 \<and> tx_user t \<in> set (users d))"

definition tx_relations_ok :: "db \<Rightarrow> canonical_transaction \<Rightarrow> bool" where
  "tx_relations_ok d t =
     ((case tx_posted_at t of None \<Rightarrow> True | Some p \<Rightarrow> tx_occurred_at t \<le> p) \<and>
      owned fa_user (get_account d (tx_financial_account t)) (tx_user t) \<and>
      (case tx_category t of None \<Rightarrow> True | Some k \<Rightarrow> owned cat_user (get_category d k) (tx_user t)) \<and>
      (case tx_payment_instrument t of None \<Rightarrow> True
       | Some k \<Rightarrow> owned pi_user (get_instrument d k) (tx_user t)) \<and>
      tx_created_by t \<in> set (users d) \<and>
      (case tx_reviewed_by t of None \<Rightarrow> True | Some k \<Rightarrow> k \<in> set (users d)))"

definition tx_full_clean :: "db \<Rightarrow> canonical_transaction \<Rightarrow> canonical_transaction result" where
  "tx_full_clean d t =
     (let t' = t\<lparr>tx_currency := normalize_code (tx_currency t)\<rparr>
      in raise_if (\<not> tx_fields_ok d t \<or> \<not> tx_relations_ok d t \<or> \<not> is_supported (tx_currency t'))
           ValidationError (Inr t'))"

definition validate_transaction_invariants ::
  "db \<Rightarrow> canonical_transaction \<Rightarrow> canonical_transaction result" where
  "validate_transaction_invariants d t0 =
     rbind (tx_full_clean d t0) (\<lambda>t.
     rbind (Currency (tx_currency t)) (\<lambda>cur.
     raise_if (currency (tx_amount t) \<noteq> cur) ValidationError
     (raise_if (amount_minor (tx_amount t) \<le> 0) ValidationError
     (raise_if (tx_status t = DRAFT \<and> is_posted d (tx_id t)) ValidationError (Inr t)))))"

section \<open>Lifecycle\<close>

fun ALLOWED_STATUS_TRANSITIONS :: "transaction_status \<Rightarrow> transaction_status list" where
  "ALLOWED_STATUS_TRANSITIONS DRAFT = [CONFIRMED, VOIDED]"
| "ALLOWED_STATUS_TRANSITIONS CONFIRMED = [VOIDED]"
| "ALLOWED_STATUS_TRANSITIONS VOIDED = []"

definition tx_allowed :: "transaction_status \<Rightarrow> transaction_status \<Rightarrow> bool" where
  "tx_allowed s s' = (s' \<in> set (ALLOWED_STATUS_TRANSITIONS s))"

fun STATUS_AUDIT_EVENTS :: "transaction_status \<Rightarrow> event_type result" where
  "STATUS_AUDIT_EVENTS CONFIRMED = Inr TRANSACTION_ACCEPTED"
| "STATUS_AUDIT_EVENTS VOIDED = Inr TRANSACTION_VOIDED"
| "STATUS_AUDIT_EVENTS DRAFT = Inl KeyError"

definition parse_status :: "string \<Rightarrow> transaction_status option" where
  "parse_status s = find (\<lambda>x. status_value x = s) [DRAFT, CONFIRMED, VOIDED]"

definition assert_editable_in_place :: "canonical_transaction \<Rightarrow> 'a result \<Rightarrow> 'a result" where
  "assert_editable_in_place t k = raise_if (tx_status t \<noteq> DRAFT) ImmutableTransactionError k"

text \<open>\<open>select_for_update().filter(pk=k, user=user).first()\<close>\<close>

definition owned_tx :: "db \<Rightarrow> id \<Rightarrow> id \<Rightarrow> canonical_transaction option" where
  "owned_tx d k user =
     (case get_tx d k of None \<Rightarrow> None | Some t \<Rightarrow> if tx_user t = user then Some t else None)"

text \<open>Only the status and the reviewer are saved; the returned row is the one in memory.\<close>

definition transition_transaction_status ::
  "id \<Rightarrow> id \<Rightarrow> string \<Rightarrow> db \<Rightarrow> (db \<times> canonical_transaction) result" where
  "transition_transaction_status k user status d =
     (case owned_tx d k user of
        None \<Rightarrow> Inl InvalidRequestError
      | Some t \<Rightarrow>
          (case parse_status status of
             None \<Rightarrow> Inl TransitionError
           | Some s \<Rightarrow>
               raise_if (\<not> tx_allowed (tx_status t) s) TransitionError
               (rbind (validate_transaction_invariants d (t\<lparr>tx_status := s, tx_reviewed_by := Some user\<rparr>)) (\<lambda>t'.
                rbind (STATUS_AUDIT_EVENTS s) (\<lambda>event.
                rbind (record_audit_event user event (Some k)
                    [(''status'', MStr status), (''previous_status'', MStr (status_value (tx_status t)))]
                    (put_tx (t\<lparr>tx_status := s, tx_reviewed_by := Some user\<rparr>) d)) (\<lambda>d'.
                Inr (d', t')))))))"

subsection \<open>Correcting confirmed history\<close>

datatype change_value = VDate "int option" | VType transaction_type | VRef "id option"

definition LEDGER_BEARING_FIELDS :: "string list" where
  "LEDGER_BEARING_FIELDS =
     [''amount_minor'', ''currency'', ''transaction_type'', ''financial_account'', ''payment_instrument'']"

text \<open>\<open>CORRECTABLE_FIELDS\<close>: how the current value of a field is read; \<open>None\<close> for any other name.\<close>

definition correctable_value :: "canonical_transaction \<Rightarrow> string \<Rightarrow> change_value option" where
  "correctable_value t f =
     (if f = ''occurred_at'' then Some (VDate (Some (tx_occurred_at t)))
      else if f = ''posted_at'' then Some (VDate (tx_posted_at t))
      else if f = ''transaction_type'' then Some (VType (tx_type t))
      else if f = ''category'' then Some (VRef (tx_category t))
      else if f = ''financial_account'' then Some (VRef (Some (tx_financial_account t)))
      else if f = ''payment_instrument'' then Some (VRef (tx_payment_instrument t))
      else None)"

text \<open>\<open>setattr\<close>; a value the field cannot hold is refused by the \<open>full_clean\<close> that follows.\<close>

definition set_field :: "string \<times> change_value \<Rightarrow> canonical_transaction \<Rightarrow> canonical_transaction result" where
  "set_field fv t =
     (case fv of (f, v) \<Rightarrow>
       (case v of
          VDate (Some x) \<Rightarrow>
            if f = ''occurred_at'' then Inr (t\<lparr>tx_occurred_at := x\<rparr>)
            else if f = ''posted_at'' then Inr (t\<lparr>tx_posted_at := Some x\<rparr>) else Inl ValidationError
        | VDate None \<Rightarrow> if f = ''posted_at'' then Inr (t\<lparr>tx_posted_at := None\<rparr>) else Inl ValidationError
        | VType x \<Rightarrow> if f = ''transaction_type'' then Inr (t\<lparr>tx_type := x\<rparr>) else Inl ValidationError
        | VRef r \<Rightarrow>
            if f = ''category'' then Inr (t\<lparr>tx_category := r\<rparr>)
            else if f = ''payment_instrument'' then Inr (t\<lparr>tx_payment_instrument := r\<rparr>)
            else if f = ''financial_account'' then
              (case r of Some x \<Rightarrow> Inr (t\<lparr>tx_financial_account := x\<rparr>) | None \<Rightarrow> Inl ValidationError)
            else Inl ValidationError))"

definition changed_fields :: "canonical_transaction \<Rightarrow> (string \<times> change_value) list \<Rightarrow> (string \<times> change_value) list" where
  "changed_fields t changes = filter (\<lambda>(f, v). correctable_value t f \<noteq> Some v) changes"

definition correct_confirmed_transaction ::
  "id \<Rightarrow> id \<Rightarrow> string \<Rightarrow> (string \<times> change_value) list \<Rightarrow> db \<Rightarrow>
     (db \<times> canonical_transaction \<times> string list) result" where
  "correct_confirmed_transaction k user reason changes d =
     raise_if (strip reason = []) InvalidRequestError
     (case owned_tx d k user of
        None \<Rightarrow> Inl InvalidRequestError
      | Some t \<Rightarrow>
          raise_if (list_ex (\<lambda>(f, v). correctable_value t f = None) changes) InvalidRequestError
          (raise_if (tx_status t \<noteq> CONFIRMED) ImmutableTransactionError
          (let changed = changed_fields t changes; names = sort (map fst changed)
           in if changed = [] then Inr (d, t, [])
              else raise_if (list_ex (\<lambda>f. f \<in> set LEDGER_BEARING_FIELDS) names \<and> is_posted d k) ConflictError
                (rbind (rfold set_field changed t) (\<lambda>t1.
                 rbind (tx_full_clean d (t1\<lparr>tx_reviewed_by := Some user\<rparr>)) (\<lambda>t2.
                 rbind (record_audit_event user TRANSACTION_CORRECTED (Some k)
                     [(''changed_fields'', MStrs names), (''reason'', MStr (take 200 (strip reason))),
                      (''status'', MStr (status_value (tx_status t)))]
                     (put_tx (t1\<lparr>tx_reviewed_by := Some user\<rparr>) d)) (\<lambda>d'.
                 Inr (d', t2, names))))))))"

section \<open>One transaction per origin\<close>

definition OBSERVATION_SOURCE :: string where "OBSERVATION_SOURCE = ''observation''"
definition TRANSFER_SOURCE :: string where "TRANSFER_SOURCE = ''transfer''"
definition REFUND_SOURCE :: string where "REFUND_SOURCE = ''refund''"

definition source_key :: "string \<Rightarrow> id \<Rightarrow> string result" where
  "source_key source identifier =
     raise_if (source = []) ValueError (Inr (source @ '':'' @ show_nat identifier))"

text \<open>Inserting a new row draws its key.\<close>

definition insert_tx :: "canonical_transaction \<Rightarrow> db \<Rightarrow> db \<times> canonical_transaction" where
  "insert_tx t d =
     (let t' = t\<lparr>tx_id := next_id d\<rparr>
      in (d\<lparr>transactions := transactions d @ [t'], next_id := Suc (next_id d)\<rparr>, t'))"

text \<open>The partial unique constraint on \<open>(user, source_idempotency_key)\<close>.\<close>

definition same_origin :: "db \<Rightarrow> canonical_transaction \<Rightarrow> canonical_transaction option" where
  "same_origin d t =
     find (\<lambda>x. tx_user x = tx_user t \<and> tx_source_key x = tx_source_key t) (transactions d)"

definition save_tx :: "canonical_transaction \<Rightarrow> db \<Rightarrow> (db \<times> canonical_transaction) result" where
  "save_tx t d =
     raise_if (tx_source_key t \<noteq> [] \<and> same_origin d t \<noteq> None) IntegrityError (Inr (insert_tx t d))"

definition save_once :: "canonical_transaction \<Rightarrow> db \<Rightarrow> (db \<times> canonical_transaction \<times> bool) result" where
  "save_once t d =
     (if tx_source_key t = [] then rbind (save_tx t d) (\<lambda>(d', t'). Inr (d', t', True))
      else (case save_tx t d of
              Inr (d', t') \<Rightarrow> Inr (d', t', True)
            | Inl e \<Rightarrow>
                if e = IntegrityError then
                  (case same_origin d t of None \<Rightarrow> Inl e | Some existing \<Rightarrow> Inr (d, existing, False))
                else Inl e))"

section \<open>Manual entry\<close>

text \<open>The arguments of the two manual services; related objects are rows the caller loaded.\<close>

record manual_entry =
  me_occurred_at :: int
  me_amount_minor :: int
  me_currency :: string
  me_type :: transaction_type
  me_account :: financial_account
  me_instrument :: "payment_instrument option"
  me_category :: "category_row option"
  me_merchant :: string
  me_counterparty :: string
  me_notes :: string

text \<open>The two keyed hashes of \<open>apply_blind_indexes\<close>, absent without a search key.\<close>

type_synonym blind_index = "((id \<Rightarrow> string \<Rightarrow> string) \<times> (id \<Rightarrow> string \<Rightarrow> string)) option"

definition validate_related_objects :: "id \<Rightarrow> manual_entry \<Rightarrow> 'a result \<Rightarrow> 'a result" where
  "validate_related_objects user m k =
     raise_if (fa_user (me_account m) \<noteq> user) InvalidRequestError
     (raise_if (case me_instrument m of None \<Rightarrow> False
        | Some i \<Rightarrow> pi_user i \<noteq> user \<or> pi_financial_account i \<noteq> fa_id (me_account m)) InvalidRequestError
     (raise_if (case me_category m of None \<Rightarrow> False | Some c \<Rightarrow> cat_user c \<noteq> user) InvalidRequestError k))"

definition manual_amount :: "int \<Rightarrow> string \<Rightarrow> money result" where
  "manual_amount minor cur = raise_if (minor \<le> 0) InvalidRequestError (Money minor cur)"

definition apply_blind_indexes ::
  "blind_index \<Rightarrow> string \<Rightarrow> string \<Rightarrow> canonical_transaction \<Rightarrow> canonical_transaction" where
  "apply_blind_indexes ix merchant counterparty t =
     (case ix of
        None \<Rightarrow> t
      | Some (mi, ci) \<Rightarrow>
          t\<lparr>tx_merchant_index := (if merchant = [] then [] else mi (tx_user t) merchant),
            tx_counterparty_index := ci (tx_user t) counterparty\<rparr>)"

definition fill_manual :: "manual_entry \<Rightarrow> money \<Rightarrow> blind_index \<Rightarrow> canonical_transaction \<Rightarrow> canonical_transaction" where
  "fill_manual m amount ix t =
     apply_blind_indexes ix (me_merchant m) (me_counterparty m)
       (t\<lparr>tx_occurred_at := me_occurred_at m, tx_currency := me_currency m, tx_type := me_type m,
          tx_financial_account := fa_id (me_account m),
          tx_payment_instrument := map_option pi_id (me_instrument m),
          tx_category := map_option cat_id (me_category m), tx_amount := amount,
          tx_merchant := me_merchant m, tx_counterparty := me_counterparty m, tx_notes := me_notes m\<rparr>)"

definition blank_tx :: "id \<Rightarrow> money \<Rightarrow> canonical_transaction" where
  "blank_tx user amount =
     \<lparr>tx_id = 0, tx_user = user, tx_type = T_UNKNOWN, tx_occurred_at = 0, tx_posted_at = None,
      tx_merchant = [], tx_merchant_index = [], tx_counterparty = [], tx_counterparty_index = [],
      tx_amount = amount, tx_currency = ''KRW'', tx_category = None,
      tx_category_source = ''uncategorized'', tx_financial_account = 0, tx_payment_instrument = None,
      tx_status = DRAFT, tx_source_key = [], tx_notes = [], tx_created_by = user, tx_reviewed_by = None\<rparr>"

definition manual_metadata :: "manual_entry \<Rightarrow> (string \<times> meta_value) list" where
  "manual_metadata m = [(''source'', MStr ''manual''), (''transaction_type'', MStr (type_value (me_type m)))]"

definition create_manual_transaction ::
  "id \<Rightarrow> manual_entry \<Rightarrow> blind_index \<Rightarrow> db \<Rightarrow> (db \<times> canonical_transaction) result" where
  "create_manual_transaction user m ix d =
     validate_related_objects user m
     (rbind (manual_amount (me_amount_minor m) (me_currency m)) (\<lambda>amount.
      rbind (validate_transaction_invariants d
          (fill_manual m amount ix ((blank_tx user amount)\<lparr>tx_id := next_id d\<rparr>))) (\<lambda>t.
      rbind (save_tx t d) (\<lambda>(d1, t1).
      rbind (record_audit_event user TRANSACTION_CREATED (Some (tx_id t1)) (manual_metadata m) d1) (\<lambda>d2.
      Inr (d2, t1))))))"

definition update_manual_transaction ::
  "id \<Rightarrow> id \<Rightarrow> manual_entry \<Rightarrow> blind_index \<Rightarrow> db \<Rightarrow> (db \<times> canonical_transaction) result" where
  "update_manual_transaction k user m ix d =
     (case owned_tx d k user of
        None \<Rightarrow> Inl InvalidRequestError
      | Some t \<Rightarrow>
          assert_editable_in_place t
          (validate_related_objects user m
          (rbind (manual_amount (me_amount_minor m) (me_currency m)) (\<lambda>amount.
           rbind (validate_transaction_invariants d (fill_manual m amount ix t)) (\<lambda>t1.
           rbind (record_audit_event user TRANSACTION_CORRECTED (Some k) (manual_metadata m)
             (put_tx t1 d)) (\<lambda>d2. Inr (d2, t1)))))))"

section \<open>Deletion\<close>

definition fed_by :: "id \<Rightarrow> id \<Rightarrow> imported_observation \<Rightarrow> bool" where
  "fed_by k user o' = (ob_canonical o' = Some k \<and> ob_user o' = user)"

definition release_observation :: "imported_observation \<Rightarrow> imported_observation" where
  "release_observation o' =
     o'\<lparr>ob_canonical := None, ob_review_status := UNREVIEWED, ob_reviewed_by := None,
        ob_reviewed_at := None\<rparr>"

definition release_observations :: "id \<Rightarrow> id \<Rightarrow> db \<Rightarrow> db \<times> nat" where
  "release_observations k user d =
     (d\<lparr>observations := map (\<lambda>o'. if fed_by k user o' then release_observation o' else o') (observations d)\<rparr>,
      length (filter (fed_by k user) (observations d)))"

record deletion_result =
  del_transaction :: canonical_transaction
  del_reversals :: nat
  del_released :: nat

definition delete_transaction ::
  "id \<Rightarrow> id \<Rightarrow> string \<Rightarrow> bool \<Rightarrow> db \<Rightarrow> (db \<times> deletion_result) result" where
  "delete_transaction k user reason confirmed d =
     raise_if (\<not> confirmed) DeletionNotConfirmedError
     (case owned_tx d k user of
        None \<Rightarrow> Inl InvalidRequestError
      | Some t \<Rightarrow>
          raise_if (tx_status t = VOIDED) ConflictError
          (rbind (reverse_transaction_postings t d) (\<lambda>(d1, reversals).
           (case release_observations k user d1 of (d2, released) \<Rightarrow>
           rbind (transition_transaction_status k user ''voided'' d2) (\<lambda>(d3, t3).
           rbind (record_audit_event user TRANSACTION_DELETED (Some k)
               [(''reversal_entry_count'', MInt (int (length reversals))),
                (''released_observation_count'', MInt (int released)),
                (''reason'', MStr (take 200 (strip reason)))] d3) (\<lambda>d4.
           Inr (d4, \<lparr>del_transaction = t3, del_reversals = length reversals, del_released = released\<rparr>)))))))"

definition is_ledger_balanced_after_deletion :: "db \<Rightarrow> id \<Rightarrow> bool" where
  "is_ledger_balanced_after_deletion d k = (\<not> is_posted d k \<or> transaction_net_minor d k = 0)"

section \<open>Facts about the operations\<close>

lemma get_tx_frame [simp]:
  "get_tx (d\<lparr>audits := a\<rparr>) = get_tx d" "get_tx (d\<lparr>entries := es\<rparr>) = get_tx d"
  "get_tx (d\<lparr>observations := obs\<rparr>) = get_tx d" "get_tx (d\<lparr>next_id := n\<rparr>) = get_tx d"
  by (simp_all add: get_tx_def fun_eq_iff)

lemma get_tx_put: "get_tx d (tx_id t) = Some t0 \<Longrightarrow> get_tx (put_tx t d) j = (if j = tx_id t then Some t else get_tx d j)"
  by (rule transaction_table.get_put)

lemma put_tx_fields [simp]:
  "entries (put_tx t d) = entries d" "users (put_tx t d) = users d" "next_id (put_tx t d) = next_id d"
  "ledger_accounts (put_tx t d) = ledger_accounts d" "observations (put_tx t d) = observations d"
  "keys tx_id (transactions (put_tx t d)) = keys tx_id (transactions d)" "audits (put_tx t d) = audits d"
  by (simp_all add: put_tx_def)

lemma owned_tx_Some [simp]: "owned_tx d k user = Some t \<longleftrightarrow> get_tx d k = Some t \<and> tx_user t = user"
  by (auto simp: owned_tx_def split: option.splits)

lemma owned_tx_None [simp]: "owned_tx d k user = None \<longleftrightarrow> (\<forall>t. get_tx d k = Some t \<longrightarrow> tx_user t \<noteq> user)"
  by (auto simp: owned_tx_def split: option.splits)

lemma full_clean_Inr:
  "tx_full_clean d t = Inr t' \<longleftrightarrow>
     tx_fields_ok d t \<and> tx_relations_ok d t \<and> is_supported (normalize_code (tx_currency t)) \<and>
     t' = t\<lparr>tx_currency := normalize_code (tx_currency t)\<rparr>"
  by (auto simp: tx_full_clean_def Let_def)

lemma validate_Inr:
  "validate_transaction_invariants d t = Inr t' \<longleftrightarrow>
     tx_full_clean d t = Inr t' \<and> Currency (tx_currency t') = Inr (currency (tx_amount t)) \<and>
     0 < amount_minor (tx_amount t) \<and> \<not> (tx_status t = DRAFT \<and> is_posted d (tx_id t))"
  by (auto simp: validate_transaction_invariants_def full_clean_Inr not_le)

lemma status_value_inj [simp]: "status_value a = status_value b \<longleftrightarrow> a = b"
  by (cases a; cases b) simp_all

lemma parse_status_iff: "parse_status s = Some x \<longleftrightarrow> s = status_value x"
  by (cases x) (auto simp: parse_status_def)

lemma parse_status_value [simp]: "parse_status (status_value x) = Some x"
  by (simp add: parse_status_iff)

lemma transition_Inr:
  "transition_transaction_status k user status d = Inr (d', t') \<longleftrightarrow>
     (\<exists>t s e. get_tx d k = Some t \<and> tx_user t = user \<and> status = status_value s \<and> tx_allowed (tx_status t) s \<and>
        STATUS_AUDIT_EVENTS s = Inr e \<and> user \<in> set (users d) \<and>
        validate_transaction_invariants d (t\<lparr>tx_status := s, tx_reviewed_by := Some user\<rparr>) = Inr t' \<and>
        d' = (put_tx (t\<lparr>tx_status := s, tx_reviewed_by := Some user\<rparr>) d)\<lparr>audits := audits d @
          [\<lparr>au_user = user, au_event = e, au_object = Some k,
            au_metadata = [(''status'', MStr status), (''previous_status'', MStr (status_value (tx_status t)))]\<rparr>]\<rparr>)"
  unfolding transition_transaction_status_def
  by (auto simp: record_audit_event_Inr parse_status_iff split: option.splits)

lemma transition_put:
  assumes "transition_transaction_status k user (status_value s) d = Inr (d', t')"
  shows "\<exists>t a. get_tx d k = Some t \<and> tx_user t = user \<and> tx_allowed (tx_status t) s \<and>
     d' = (put_tx (t\<lparr>tx_status := s, tx_reviewed_by := Some user\<rparr>) d)\<lparr>audits := a\<rparr>"
  using assms unfolding transition_Inr status_value_inj by blast

lemma set_field_keeps:
  "set_field fv t = Inr t' \<Longrightarrow>
     tx_id t' = tx_id t \<and> tx_user t' = tx_user t \<and> tx_status t' = tx_status t \<and> tx_amount t' = tx_amount t \<and>
     tx_currency t' = tx_currency t \<and> tx_source_key t' = tx_source_key t \<and>
     (fst fv \<notin> set LEDGER_BEARING_FIELDS \<longrightarrow>
        tx_type t' = tx_type t \<and> tx_financial_account t' = tx_financial_account t \<and>
        tx_payment_instrument t' = tx_payment_instrument t)"
  by (auto simp: set_field_def LEDGER_BEARING_FIELDS_def split: prod.splits change_value.splits option.splits if_splits)

lemma set_fields_keep:
  "rfold set_field fvs t = Inr t' \<Longrightarrow>
     tx_id t' = tx_id t \<and> tx_user t' = tx_user t \<and> tx_status t' = tx_status t \<and> tx_amount t' = tx_amount t \<and>
     tx_currency t' = tx_currency t \<and> tx_source_key t' = tx_source_key t \<and>
     ((\<forall>f \<in> set (map fst fvs). f \<notin> set LEDGER_BEARING_FIELDS) \<longrightarrow>
        tx_type t' = tx_type t \<and> tx_financial_account t' = tx_financial_account t \<and>
        tx_payment_instrument t' = tx_payment_instrument t)"
proof (induction fvs arbitrary: t)
  case (Cons fv fvs)
  then obtain t1 where t1: "set_field fv t = Inr t1" "rfold set_field fvs t1 = Inr t'" by auto
  show ?case using set_field_keeps [OF t1(1)] Cons.IH [OF t1(2)] by simp
qed simp

text \<open>A successful correction: nothing changed, or a confirmed row saved with its audit event.\<close>

lemma correct_Inr:
  assumes "correct_confirmed_transaction k user reason changes d = Inr (d', t', names)"
  obtains t where "get_tx d k = Some t" "tx_user t = user" "tx_status t = CONFIRMED"
    "names = sort (map fst (changed_fields t changes))" "names = []" "d' = d" "t' = t"
  | t t1 where "get_tx d k = Some t" "tx_user t = user" "tx_status t = CONFIRMED" "names \<noteq> []"
    "names = sort (map fst (changed_fields t changes))"
    "rfold set_field (changed_fields t changes) t = Inr t1"
    "is_posted d k \<longrightarrow> (\<forall>f \<in> set names. f \<notin> set LEDGER_BEARING_FIELDS)"
    "t' = t1\<lparr>tx_reviewed_by := Some user, tx_currency := normalize_code (tx_currency t1)\<rparr>"
    "user \<in> set (users d)"
    "tx_relations_ok d (t1\<lparr>tx_reviewed_by := Some user\<rparr>)"
    "d' = (put_tx (t1\<lparr>tx_reviewed_by := Some user\<rparr>) d)\<lparr>audits := audits d @
       [\<lparr>au_user = user, au_event = TRANSACTION_CORRECTED, au_object = Some k,
         au_metadata = [(''changed_fields'', MStrs names), (''reason'', MStr (take 200 (strip reason))),
            (''status'', MStr ''confirmed'')]\<rparr>]\<rparr>"
proof -
  have ne: "sort xs = [] \<longleftrightarrow> xs = []" for xs :: "string list"
    by (metis length_0_conv length_sort)
  obtain t where t: "get_tx d k = Some t" "tx_user t = user" "tx_status t = CONFIRMED"
    using assms by (auto simp: correct_confirmed_transaction_def split: option.splits)
  then have o: "owned_tx d k user = Some t" by simp
  define names' where "names' = sort (map fst (changed_fields t changes))"
  have rest: "(if changed_fields t changes = [] then Inr (d, t, [])
      else raise_if (list_ex (\<lambda>f. f \<in> set LEDGER_BEARING_FIELDS) names' \<and> is_posted d k) ConflictError
        (rbind (rfold set_field (changed_fields t changes) t) (\<lambda>t1.
         rbind (tx_full_clean d (t1\<lparr>tx_reviewed_by := Some user\<rparr>)) (\<lambda>t2.
         rbind (record_audit_event user TRANSACTION_CORRECTED (Some k)
           [(''changed_fields'', MStrs names'), (''reason'', MStr (take 200 (strip reason))),
            (''status'', MStr (status_value (tx_status t)))]
           (put_tx (t1\<lparr>tx_reviewed_by := Some user\<rparr>) d)) (\<lambda>d'. Inr (d', t2, names')))))) = Inr (d', t', names)"
    using assms unfolding correct_confirmed_transaction_def o option.case Let_def raise_if_Inr names'_def
    by blast
  show thesis
  proof (cases "changed_fields t changes = []")
    case True
    then show thesis using that(1) [OF t] rest by simp
  next
    case False
    then have "names' \<noteq> []" by (simp add: names'_def ne)
    then show thesis
      using rest False t that(2) [OF t]
      by (auto simp: names'_def full_clean_Inr record_audit_event_Inr list_ex_iff)
  qed
qed

section \<open>Steps of the books\<close>

text \<open>
  Every way the services of this component and the ledger change the books, and also saving a
  draft that another component built (\<open>save_once\<close>).
\<close>

inductive books_step :: "db \<Rightarrow> db \<Rightarrow> bool" where
  create: "create_manual_transaction u m ix d = Inr (d', t) \<Longrightarrow> books_step d d'"
| update: "update_manual_transaction k u m ix d = Inr (d', t) \<Longrightarrow> books_step d d'"
| transition: "transition_transaction_status k u s d = Inr (d', t) \<Longrightarrow> books_step d d'"
| correct: "correct_confirmed_transaction k u r c d = Inr (d', t, ns) \<Longrightarrow> books_step d d'"
| delete: "delete_transaction k u r b d = Inr (d', res) \<Longrightarrow> books_step d d'"
| origin: "save_once t d = Inr (d', t', b) \<Longrightarrow> books_step d d'"
| post: "get_tx d (tx_id t) = Some t \<Longrightarrow> loaded d ps \<Longrightarrow>
    post_balanced_transaction t ps d = Inr (d', es) \<Longrightarrow> books_step d d'"

inductive_cases books_stepE: "books_step d d'"

definition origin :: "canonical_transaction \<Rightarrow> id \<times> string" where
  "origin t = (tx_user t, tx_source_key t)"

definition origins_ok :: "db \<Rightarrow> bool" where
  "origins_ok d = distinct (map origin (filter (\<lambda>t. tx_source_key t \<noteq> []) (transactions d)))"

definition books_ok :: "db \<Rightarrow> bool" where
  "books_ok d = (ledger_ok d \<and> table_ok tx_id (transactions d) (next_id d) \<and> origins_ok d)"

text \<open>What may become of a transaction that has left the draft state.\<close>

definition history_kept :: "bool \<Rightarrow> canonical_transaction \<Rightarrow> canonical_transaction \<Rightarrow> bool" where
  "history_kept posted t t' =
     (tx_user t' = tx_user t \<and> tx_amount t' = tx_amount t \<and> tx_currency t' = tx_currency t \<and>
      tx_source_key t' = tx_source_key t \<and> (tx_status t = VOIDED \<longrightarrow> t' = t) \<and>
      (tx_status t' = tx_status t \<or> tx_status t' = VOIDED) \<and>
      (posted \<longrightarrow> tx_type t' = tx_type t \<and> tx_financial_account t' = tx_financial_account t \<and>
         tx_payment_instrument t' = tx_payment_instrument t))"

definition keeps_history :: "db \<Rightarrow> db \<Rightarrow> bool" where
  "keeps_history d d' \<longleftrightarrow>
     (\<forall>k t. get_tx d k = Some t \<longrightarrow> tx_status t \<noteq> DRAFT \<longrightarrow>
        (\<exists>t'. get_tx d' k = Some t' \<and> history_kept (is_posted d k) t t')) \<and>
     (\<forall>k. is_posted d k \<longrightarrow> is_posted d' k)"

lemma history_kept_refl: "history_kept b t t"
  by (simp add: history_kept_def)

lemma keeps_historyD:
  "keeps_history d d' \<Longrightarrow> get_tx d k = Some t \<Longrightarrow> tx_status t \<noteq> DRAFT \<Longrightarrow>
     \<exists>t'. get_tx d' k = Some t' \<and> history_kept (is_posted d k) t t'"
  unfolding keeps_history_def by blast

lemma keeps_historyI:
  assumes "\<And>k t. get_tx d k = Some t \<Longrightarrow> tx_status t \<noteq> DRAFT \<Longrightarrow>
      \<exists>t'. get_tx d' k = Some t' \<and> history_kept (is_posted d k) t t'"
    and "\<And>k. is_posted d k \<Longrightarrow> is_posted d' k"
  shows "keeps_history d d'"
  using assms unfolding keeps_history_def by blast

lemma keeps_history_refl: "keeps_history d d"
  by (auto simp: keeps_history_def history_kept_refl)

lemma keeps_history_trans:
  assumes "keeps_history d1 d2" "keeps_history d2 d3"
  shows "keeps_history d1 d3"
  unfolding keeps_history_def
proof (intro conjI allI impI)
  fix k t
  assume t: "get_tx d1 k = Some t" "tx_status t \<noteq> DRAFT"
  then obtain t2 where t2: "get_tx d2 k = Some t2" "history_kept (is_posted d1 k) t t2"
    using keeps_historyD [OF assms(1)] by blast
  then have "tx_status t2 \<noteq> DRAFT" using t(2) by (auto simp: history_kept_def)
  then obtain t3 where t3: "get_tx d3 k = Some t3" "history_kept (is_posted d2 k) t2 t3"
    using keeps_historyD [OF assms(2) t2(1)] by blast
  have "is_posted d1 k \<Longrightarrow> is_posted d2 k" using assms(1) by (simp add: keeps_history_def)
  then have "history_kept (is_posted d1 k) t t3"
    using t2(2) t3(2) by (auto simp: history_kept_def)
  then show "\<exists>t'. get_tx d3 k = Some t' \<and> history_kept (is_posted d1 k) t t'" using t3(1) by blast
next
  fix k
  assume "is_posted d1 k"
  then show "is_posted d3 k" using assms by (simp add: keeps_history_def)
qed

lemma ledger_ok_transfer:
  assumes "ledger_ok d" "entries d' = entries d" "next_id d \<le> next_id d'"
    and "ledger_accounts d' = ledger_accounts d" "keeps_history d d'"
  shows "ledger_ok d'"
proof -
  have "entry_ok d' e" if e: "entry_ok d e" for e
  proof -
    obtain t a where t: "get_tx d (en_transaction e) = Some t" "tx_status t \<noteq> DRAFT"
      and a: "get_ledger_account d (en_account e) = Some a"
      using e by (auto simp: entry_ok_def split: option.splits)
    then obtain t' where t': "get_tx d' (en_transaction e) = Some t'" "history_kept (is_posted d (en_transaction e)) t t'"
      using keeps_historyD [OF assms(5)] by blast
    then have "tx_status t' \<noteq> DRAFT" "tx_user t' = tx_user t" "tx_currency t' = tx_currency t"
      using t(2) by (auto simp: history_kept_def)
    moreover have "get_ledger_account d' (en_account e) = Some a"
      using a assms(4) by (simp add: get_ledger_account_def)
    ultimately show ?thesis using e t t'(1) a by (simp add: entry_ok_def)
  qed
  then show ?thesis
    using assms table_ok_mono [of en_id "entries d" "next_id d" "next_id d'"]
    by (auto simp: ledger_ok_def list_all_iff)
qed

subsection \<open>Saving a changed row\<close>

definition origin_same :: "canonical_transaction \<Rightarrow> canonical_transaction \<Rightarrow> bool" where
  "origin_same t t' = (origin t' = origin t)"

lemma put_tx_history:
  assumes "get_tx d (tx_id t') = Some t" "tx_status t \<noteq> DRAFT \<Longrightarrow> history_kept (is_posted d (tx_id t')) t t'"
  shows "keeps_history d (put_tx t' d)"
proof (rule keeps_historyI)
  fix k x
  assume x: "get_tx d k = Some x" "tx_status x \<noteq> DRAFT"
  show "\<exists>x'. get_tx (put_tx t' d) k = Some x' \<and> history_kept (is_posted d k) x x'"
    using x assms by (cases "k = tx_id t'") (simp_all add: get_tx_put [OF assms(1)] history_kept_refl)
qed (simp add: is_posted_def)

lemma put_tx_books_ok:
  assumes "books_ok d" "get_tx d (tx_id t') = Some t" "origin t' = origin t"
    and "tx_status t \<noteq> DRAFT \<Longrightarrow> history_kept (is_posted d (tx_id t')) t t'"
  shows "books_ok (put_tx t' d)"
proof -
  have "ledger_ok (put_tx t' d)"
    using assms(1) by (intro ledger_ok_transfer [OF _ _ _ _ put_tx_history [OF assms(2,4)]]) (simp_all add: books_ok_def)
  moreover have "origins_ok (put_tx t' d)"
  proof -
    have t: "t \<in> set (transactions d)" "tx_id t = tx_id t'"
      using assms(2) unfolding get_tx_def by (auto dest: find_row_SomeD)
    have "x = t" if "x \<in> set (transactions d)" "tx_id x = tx_id t'" for x
      using that assms(1,2) table_ok_find [of tx_id "transactions d" "next_id d" x]
      by (simp add: books_ok_def get_tx_def)
    then have "map origin (filter (\<lambda>t. tx_source_key t \<noteq> []) (put_row tx_id t' xs)) =
        map origin (filter (\<lambda>t. tx_source_key t \<noteq> []) xs)" if "set xs \<subseteq> set (transactions d)" for xs
      using that assms(3) by (induction xs) (auto simp: put_row_def origin_def)
    then show ?thesis using assms(1) by (simp add: books_ok_def origins_ok_def put_tx_def)
  qed
  ultimately show ?thesis using assms(1) by (simp add: books_ok_def) (simp add: put_tx_def)
qed

lemma books_ok_frame [simp]:
  "books_ok (d\<lparr>audits := a\<rparr>) = books_ok d" "books_ok (d\<lparr>observations := obs\<rparr>) = books_ok d"
  by (simp_all add: books_ok_def ledger_ok_def origins_ok_def cong: list.pred_cong)
    (simp_all add: list_all_iff entry_ok_def get_tx_def get_ledger_account_def)

lemma keeps_history_frame [simp]:
  "keeps_history d (d'\<lparr>audits := a\<rparr>) = keeps_history d d'"
  "keeps_history d (d'\<lparr>observations := obs\<rparr>) = keeps_history d d'"
  by (simp_all add: keeps_history_def is_posted_def)

subsection \<open>Inserting a row\<close>

lemma save_tx_Inr:
  "save_tx t d = Inr (d', t') \<longleftrightarrow> (tx_source_key t = [] \<or> same_origin d t = None) \<and> (d', t') = insert_tx t d"
  by (auto simp: save_tx_def)

lemma insert_history:
  assumes "table_ok tx_id (transactions d) (next_id d)"
  shows "keeps_history d (fst (insert_tx t d))"
proof (rule keeps_historyI)
  fix k x
  assume "get_tx d k = Some x"
  then have "get_tx (fst (insert_tx t d)) k = Some x"
    by (simp add: insert_tx_def Let_def get_tx_def find_row_append)
  then show "\<exists>x'. get_tx (fst (insert_tx t d)) k = Some x' \<and> history_kept (is_posted d k) x x'"
    using history_kept_refl by blast
qed (simp add: insert_tx_def Let_def is_posted_def)

lemma insert_books_ok:
  assumes "books_ok d" "tx_source_key t = [] \<or> same_origin d t = None"
  shows "books_ok (fst (insert_tx t d))"
proof -
  have tab: "table_ok tx_id (transactions d) (next_id d)" using assms(1) by (simp add: books_ok_def)
  have "ledger_ok (fst (insert_tx t d))"
    using assms(1) by (intro ledger_ok_transfer [OF _ _ _ _ insert_history [OF tab]])
      (simp_all add: books_ok_def insert_tx_def Let_def)
  moreover have "origins_ok (fst (insert_tx t d))"
    using assms
    by (auto simp: books_ok_def origins_ok_def insert_tx_def Let_def origin_def same_origin_def find_None_iff)
  ultimately show ?thesis
    using table_ok_append [OF tab, of "t\<lparr>tx_id := next_id d\<rparr>" "Suc (next_id d)"]
    by (simp add: books_ok_def) (simp add: insert_tx_def Let_def)
qed

lemma get_tx_insert:
  assumes "table_ok tx_id (transactions d) (next_id d)"
  shows "get_tx (fst (insert_tx t d)) (next_id d) = Some (t\<lparr>tx_id := next_id d\<rparr>)"
  using table_ok_find_new [OF assms order_refl]
  by (simp add: insert_tx_def Let_def get_tx_def find_row_append)

subsection \<open>Each operation keeps the books and their history\<close>

definition good_step :: "db \<Rightarrow> db \<Rightarrow> bool" where
  "good_step d d' = (books_ok d' \<and> keeps_history d d')"

lemma good_step_trans: "good_step d1 d2 \<Longrightarrow> good_step d2 d3 \<Longrightarrow> good_step d1 d3"
  unfolding good_step_def using keeps_history_trans by blast

lemma good_step_frame [simp]:
  "good_step d (d'\<lparr>audits := a\<rparr>) = good_step d d'" "good_step d (d'\<lparr>observations := obs\<rparr>) = good_step d d'"
  by (simp_all add: good_step_def)

lemma good_put:
  assumes "books_ok d" "get_tx d (tx_id t') = Some t" "origin t' = origin t"
    and "tx_status t \<noteq> DRAFT \<Longrightarrow> history_kept (is_posted d (tx_id t')) t t'"
  shows "good_step d (put_tx t' d)"
  unfolding good_step_def using put_tx_books_ok [OF assms] put_tx_history [OF assms(2,4)] by simp

lemma good_insert:
  assumes "books_ok d" "tx_source_key t = [] \<or> same_origin d t = None"
  shows "good_step d (fst (insert_tx t d))"
  unfolding good_step_def using insert_books_ok [OF assms] insert_history assms(1) by (simp add: books_ok_def)

lemma good_bulk:
  assumes "books_ok d" "ledger_ok (fst (bulk_create es d))"
  shows "good_step d (fst (bulk_create es d))"
proof -
  have "origins_ok (fst (bulk_create es d))" "transactions (fst (bulk_create es d)) = transactions d"
    "next_id d \<le> next_id (fst (bulk_create es d))"
    using assms(1) by (simp_all add: books_ok_def origins_ok_def bulk_create_simps)
  then have "books_ok (fst (bulk_create es d))"
    using assms table_ok_mono by (auto simp: books_ok_def)
  moreover have "keeps_history d (fst (bulk_create es d))"
    by (rule keeps_historyI) (auto simp: history_kept_refl is_posted_def bulk_create_simps)
  ultimately show ?thesis by (simp add: good_step_def)
qed

lemma good_post:
  assumes "books_ok d" "get_tx d (tx_id t) = Some t" "loaded d ps"
    and "post_balanced_transaction t ps d = Inr (d', es)"
  shows "good_step d d'"
proof -
  have "ledger_ok d'" using post_ledger_ok assms by (simp add: books_ok_def)
  moreover have "d' = fst (bulk_create (map (posting_entry (tx_id t)) ps) d)"
    using assms(4) by (metis post_balanced_Inr fst_conv)
  ultimately show ?thesis using good_bulk assms(1) by simp
qed

lemma good_reverse:
  assumes "books_ok d" "reverse_transaction_postings t d = Inr (d', es)"
  shows "good_step d d'"
proof -
  have ok: "ledger_ok d'" using reverse_ledger_ok assms by (simp add: books_ok_def)
  show ?thesis
  proof (cases "entries_of d (tx_id t) = []")
    case True
    then show ?thesis using assms by (simp add: reverse_Inr good_step_def keeps_history_refl)
  next
    case False
    then have "d' = fst (bulk_create (map reversal_entry (entries_of d (tx_id t))) d)"
      using assms(2) by (auto simp: reverse_Inr) (metis fst_conv)
    then show ?thesis using good_bulk assms(1) ok by simp
  qed
qed

lemma transition_keeps:
  assumes "tx_status t \<noteq> DRAFT" "tx_allowed (tx_status t) x"
  shows "history_kept b t (t\<lparr>tx_status := x, tx_reviewed_by := u\<rparr>)"
proof -
  have "tx_status t = CONFIRMED \<and> x = VOIDED"
    using assms by (cases "tx_status t") (simp_all add: tx_allowed_def)
  then show ?thesis by (simp add: history_kept_def)
qed

lemma good_transition:
  assumes "books_ok d" "transition_transaction_status k user s d = Inr (d', t')"
  shows "good_step d d'"
proof -
  obtain t x e where t: "get_tx d k = Some t" "tx_allowed (tx_status t) x"
    and d': "d' = (put_tx (t\<lparr>tx_status := x, tx_reviewed_by := Some user\<rparr>) d)\<lparr>audits := e\<rparr>"
    using assms(2) unfolding transition_Inr by blast
  have k: "tx_id t = k" using t(1) by (rule get_tx_id)
  have "good_step d (put_tx (t\<lparr>tx_status := x, tx_reviewed_by := Some user\<rparr>) d)"
    using transition_keeps [OF _ t(2)]
    by (intro good_put [OF assms(1), where t = t]) (simp_all add: k t(1) origin_def)
  then show ?thesis by (simp add: d')
qed

lemma fill_manual_keeps [simp]:
  "tx_id (fill_manual m a ix t) = tx_id t" "tx_user (fill_manual m a ix t) = tx_user t"
  "tx_status (fill_manual m a ix t) = tx_status t" "tx_source_key (fill_manual m a ix t) = tx_source_key t"
  "tx_amount (fill_manual m a ix t) = a" "tx_type (fill_manual m a ix t) = me_type m"
  "tx_created_by (fill_manual m a ix t) = tx_created_by t" "tx_currency (fill_manual m a ix t) = me_currency m"
  by (auto simp: fill_manual_def apply_blind_indexes_def split: option.splits)

lemma validate_keeps:
  "validate_transaction_invariants d t = Inr t' \<Longrightarrow>
     tx_id t' = tx_id t \<and> tx_user t' = tx_user t \<and> tx_status t' = tx_status t \<and>
     tx_source_key t' = tx_source_key t \<and> tx_amount t' = tx_amount t"
  by (auto simp: validate_Inr full_clean_Inr)

lemma create_Inr:
  assumes "create_manual_transaction user m ix d = Inr (d', t')"
  obtains amount t where "0 < me_amount_minor m" "Money (me_amount_minor m) (me_currency m) = Inr amount"
    "validate_transaction_invariants d (fill_manual m amount ix ((blank_tx user amount)\<lparr>tx_id := next_id d\<rparr>)) = Inr t"
    "t' = snd (insert_tx t d)" "tx_source_key t = []" "tx_status t = DRAFT" "tx_amount t = amount" "tx_user t = user"
    "d' = (fst (insert_tx t d))\<lparr>audits := audits d @
      [\<lparr>au_user = user, au_event = TRANSACTION_CREATED, au_object = Some (tx_id t'), au_metadata = manual_metadata m\<rparr>]\<rparr>"
proof -
  obtain amount t d1 where a: "0 < me_amount_minor m" "Money (me_amount_minor m) (me_currency m) = Inr amount"
    and v: "validate_transaction_invariants d (fill_manual m amount ix ((blank_tx user amount)\<lparr>tx_id := next_id d\<rparr>)) = Inr t"
    and s: "save_tx t d = Inr (d1, t')"
    and r: "record_audit_event user TRANSACTION_CREATED (Some (tx_id t')) (manual_metadata m) d1 = Inr d'"
    using assms
    by (auto simp: create_manual_transaction_def validate_related_objects_def manual_amount_def
        simp del: save_tx_Inr split: prod.splits)
  have i: "d1 = fst (insert_tx t d)" "t' = snd (insert_tx t d)"
    using s by (auto simp: save_tx_Inr) (metis fst_conv snd_conv)+
  have "audits d1 = audits d" by (simp add: i insert_tx_def Let_def)
  then show thesis
    using that [OF a v i(2)] validate_keeps [OF v] r i by (auto simp: record_audit_event_Inr blank_tx_def)
qed

lemma good_create:
  assumes "books_ok d" "create_manual_transaction user m ix d = Inr (d', t')"
  shows "good_step d d'"
  using assms(2)
proof (rule create_Inr)
  fix amount t
  assume "tx_source_key t = []" "d' = (fst (insert_tx t d))\<lparr>audits := audits d @
      [\<lparr>au_user = user, au_event = TRANSACTION_CREATED, au_object = Some (tx_id t'), au_metadata = manual_metadata m\<rparr>]\<rparr>"
  then show "good_step d d'" using good_insert [OF assms(1), of t] by simp
qed

lemma update_Inr:
  assumes "update_manual_transaction k user m ix d = Inr (d', t')"
  obtains t amount where "get_tx d k = Some t" "tx_user t = user" "tx_status t = DRAFT"
    "0 < me_amount_minor m" "Money (me_amount_minor m) (me_currency m) = Inr amount"
    "validate_transaction_invariants d (fill_manual m amount ix t) = Inr t'"
    "d' = (put_tx t' d)\<lparr>audits := audits d @
      [\<lparr>au_user = user, au_event = TRANSACTION_CORRECTED, au_object = Some k, au_metadata = manual_metadata m\<rparr>]\<rparr>"
  using assms
  by (auto simp: update_manual_transaction_def assert_editable_in_place_def validate_related_objects_def
      manual_amount_def record_audit_event_Inr split: option.splits)

lemma good_update:
  assumes "books_ok d" "update_manual_transaction k user m ix d = Inr (d', t')"
  shows "good_step d d'"
  using assms(2)
proof (rule update_Inr)
  fix t amount
  assume t: "get_tx d k = Some t" "tx_status t = DRAFT"
    and v: "validate_transaction_invariants d (fill_manual m amount ix t) = Inr t'"
    and d': "d' = (put_tx t' d)\<lparr>audits := audits d @
      [\<lparr>au_user = user, au_event = TRANSACTION_CORRECTED, au_object = Some k, au_metadata = manual_metadata m\<rparr>]\<rparr>"
  have "good_step d (put_tx t' d)"
    using validate_keeps [OF v] t get_tx_id [OF t(1)]
    by (intro good_put [OF assms(1), where t = t]) (auto simp: origin_def)
  then show "good_step d d'" by (simp add: d')
qed

lemma good_correct:
  assumes "books_ok d" "correct_confirmed_transaction k user r c d = Inr (d', t', ns)"
  shows "good_step d d'"
  using assms(2)
proof (rule correct_Inr)
  fix t
  assume "d' = d"
  then show "good_step d d'" using assms(1) by (simp add: good_step_def keeps_history_refl)
next
  fix t t1
  assume t: "get_tx d k = Some t" "tx_status t = CONFIRMED"
    and f: "rfold set_field (changed_fields t c) t = Inr t1" "ns = sort (map fst (changed_fields t c))"
    and l: "is_posted d k \<longrightarrow> (\<forall>f \<in> set ns. f \<notin> set LEDGER_BEARING_FIELDS)"
    and d': "d' = (put_tx (t1\<lparr>tx_reviewed_by := Some user\<rparr>) d)\<lparr>audits := audits d @
       [\<lparr>au_user = user, au_event = TRANSACTION_CORRECTED, au_object = Some k,
         au_metadata = [(''changed_fields'', MStrs ns), (''reason'', MStr (take 200 (strip r))),
            (''status'', MStr ''confirmed'')]\<rparr>]\<rparr>"
  note keep = set_fields_keep [OF f(1)]
  have k: "tx_id t = k" using t(1) by (rule get_tx_id)
  have "good_step d (put_tx (t1\<lparr>tx_reviewed_by := Some user\<rparr>) d)"
    using keep l t k f(2)
    by (intro good_put [OF assms(1), where t = t]) (auto simp: origin_def history_kept_def)
  then show "good_step d d'" by (simp add: d')
qed

lemma save_once_Inr:
  "save_once t d = Inr (d', t', b) \<longleftrightarrow>
     (b \<and> (tx_source_key t = [] \<or> same_origin d t = None) \<and> (d', t') = insert_tx t d) \<or>
     (\<not> b \<and> tx_source_key t \<noteq> [] \<and> d' = d \<and> same_origin d t = Some t')"
  by (cases "tx_source_key t = []"; cases "same_origin d t")
    (auto simp: save_once_def save_tx_def split: prod.splits)

lemma good_save_once:
  assumes "books_ok d" "save_once t d = Inr (d', t', b)"
  shows "good_step d d'"
proof (cases b)
  case True
  then have "d' = fst (insert_tx t d)" "tx_source_key t = [] \<or> same_origin d t = None"
    using assms(2) by (auto simp: save_once_Inr) (metis fst_conv)+
  then show ?thesis using good_insert assms(1) by simp
next
  case False
  then show ?thesis using assms by (simp add: save_once_Inr good_step_def keeps_history_refl)
qed

subsection \<open>Deletion\<close>

lemma release_observations_eq:
  "release_observations k user d = (d', n) \<longleftrightarrow>
     d' = d\<lparr>observations := map (\<lambda>o'. if fed_by k user o' then release_observation o' else o') (observations d)\<rparr> \<and>
     n = length (filter (fed_by k user) (observations d))"
  by (auto simp: release_observations_def)

lemma delete_Inr:
  assumes "delete_transaction k user reason confirmed d = Inr (d', res)"
  obtains t d1 es d2 d3 t3 where "get_tx d k = Some t" "tx_user t = user" "tx_status t \<noteq> VOIDED" confirmed
    "reverse_transaction_postings t d = Inr (d1, es)"
    "d2 = d1\<lparr>observations := map (\<lambda>o'. if fed_by k user o' then release_observation o' else o') (observations d1)\<rparr>"
    "transition_transaction_status k user ''voided'' d2 = Inr (d3, t3)"
    "del_reversals res = length es" "del_released res = length (filter (fed_by k user) (observations d1))"
    "\<exists>a. d' = d3\<lparr>audits := a\<rparr>"
proof -
  from assms obtain t where t: "owned_tx d k user = Some t" and "confirmed" "tx_status t \<noteq> VOIDED"
    unfolding delete_transaction_def by (cases "owned_tx d k user") auto
  moreover from assms t obtain d1 es where r: "reverse_transaction_postings t d = Inr (d1, es)"
    unfolding delete_transaction_def t by auto
  moreover obtain d2 n where rel: "release_observations k user d1 = (d2, n)" by (metis surj_pair)
  moreover from assms obtain d3 t3 where m: "transition_transaction_status k user ''voided'' d2 = Inr (d3, t3)"
    unfolding delete_transaction_def by (auto simp: t r rel simp del: owned_tx_Some split: prod.splits)
  moreover from assms have "del_reversals res = length es \<and> del_released res = n \<and> (\<exists>a. d' = d3\<lparr>audits := a\<rparr>)"
    unfolding delete_transaction_def
    by (auto simp: t r rel m record_audit_event_Inr simp del: owned_tx_Some)
  ultimately show thesis using that by (auto simp: release_observations_eq)
qed

lemma good_delete:
  assumes "books_ok d" "delete_transaction k user reason confirmed d = Inr (d', res)"
  shows "good_step d d'"
  using assms(2)
proof (rule delete_Inr)
  fix t d1 es d2 d3 t3
  assume r: "reverse_transaction_postings t d = Inr (d1, es)"
    and d2: "d2 = d1\<lparr>observations := map (\<lambda>o'. if fed_by k user o' then release_observation o' else o') (observations d1)\<rparr>"
    and m: "transition_transaction_status k user ''voided'' d2 = Inr (d3, t3)" and d': "\<exists>a. d' = d3\<lparr>audits := a\<rparr>"
  have "good_step d d1" by (rule good_reverse [OF assms(1) r])
  then have d2': "good_step d d2" by (simp add: d2)
  then have "good_step d2 d3" using good_transition [OF _ m] by (simp add: good_step_def)
  with d2' have "good_step d d3" by (rule good_step_trans)
  then show "good_step d d'" using d' by auto
qed

lemma good_books_step: "books_step d d' \<Longrightarrow> books_ok d \<Longrightarrow> good_step d d'"
  by (erule books_stepE)
    (simp_all add: good_create good_update good_transition good_correct good_delete good_save_once good_post)

lemma good_books_steps: "books_step\<^sup>*\<^sup>* d d' \<Longrightarrow> books_ok d \<Longrightarrow> good_step d d'"
proof (induction rule: rtranclp_induct)
  case base
  then show ?case by (simp add: good_step_def keeps_history_refl)
next
  case (step d1 d2)
  then have "good_step d d1" "good_step d1 d2" using good_books_step by (auto simp: good_step_def)
  then show ?case by (rule good_step_trans)
qed

subsection \<open>The lifecycle interface\<close>

definition tx_move :: "id \<Rightarrow> id \<Rightarrow> transaction_status \<Rightarrow> db \<Rightarrow> db result" where
  "tx_move user k s d =
     rbind (transition_transaction_status k user (status_value s) d) (\<lambda>(d', _). Inr d')"

interpretation tx_life: guarded_lifecycle get_tx put_tx tx_id tx_status tx_allowed tx_move
proof unfold_locales
  fix u k x d d'
  assume "tx_move u k x d = Inr d'"
  then obtain t' where "transition_transaction_status k u (status_value x) d = Inr (d', t')"
    by (auto simp: tx_move_def)
  then obtain t a where t: "get_tx d k = Some t" "tx_allowed (tx_status t) x"
    and d': "d' = (put_tx (t\<lparr>tx_status := x, tx_reviewed_by := Some u\<rparr>) d)\<lparr>audits := a\<rparr>"
    unfolding transition_Inr status_value_inj by blast
  have k: "tx_id t = k" using t(1) by (rule get_tx_id)
  have "get_tx d' j = (if j = k then Some (t\<lparr>tx_status := x, tx_reviewed_by := Some u\<rparr>) else get_tx d j)" for j
    using get_tx_put [of d "t\<lparr>tx_status := x, tx_reviewed_by := Some u\<rparr>"] t(1) by (simp add: d' k)
  then show "\<exists>r r'. get_tx d k = Some r \<and> tx_allowed (tx_status r) x \<and> get_tx d' k = Some r' \<and>
      tx_status r' = x \<and> (\<forall>j. j \<noteq> k \<longrightarrow> get_tx d' j = get_tx d j)"
    using t by auto
qed

subsection \<open>What a correction changes\<close>

lemma set_fieldE:
  assumes "set_field (f, v) t = Inr t'"
  obtains x where "f = ''occurred_at''" "v = VDate (Some x)" "t' = t\<lparr>tx_occurred_at := x\<rparr>"
  | x where "f = ''posted_at''" "v = VDate x" "t' = t\<lparr>tx_posted_at := x\<rparr>"
  | x where "f = ''transaction_type''" "v = VType x" "t' = t\<lparr>tx_type := x\<rparr>"
  | x where "f = ''category''" "v = VRef x" "t' = t\<lparr>tx_category := x\<rparr>"
  | x where "f = ''payment_instrument''" "v = VRef x" "t' = t\<lparr>tx_payment_instrument := x\<rparr>"
  | x where "f = ''financial_account''" "v = VRef (Some x)" "t' = t\<lparr>tx_financial_account := x\<rparr>"
proof (cases v)
  case (VDate x)
  then have "f = ''occurred_at'' \<and> (\<exists>y. x = Some y \<and> t' = t\<lparr>tx_occurred_at := y\<rparr>) \<or>
      f = ''posted_at'' \<and> t' = t\<lparr>tx_posted_at := x\<rparr>"
    using assms by (simp add: set_field_def split: option.splits if_splits)
  then show thesis using that(1,2) VDate by blast
next
  case (VType x)
  then have "f = ''transaction_type'' \<and> t' = t\<lparr>tx_type := x\<rparr>"
    using assms by (simp add: set_field_def split: if_splits)
  then show thesis using that(3) VType by blast
next
  case (VRef x)
  then have "f = ''category'' \<and> t' = t\<lparr>tx_category := x\<rparr> \<or>
      f = ''payment_instrument'' \<and> t' = t\<lparr>tx_payment_instrument := x\<rparr> \<or>
      f = ''financial_account'' \<and> (\<exists>y. x = Some y \<and> t' = t\<lparr>tx_financial_account := y\<rparr>)"
    using assms by (simp add: set_field_def split: option.splits if_splits)
  then show thesis using that(4-6) VRef by blast
qed

lemma set_field_value:
  assumes "set_field (f, v) t = Inr t'"
  shows "correctable_value t' f = Some v" "g \<noteq> f \<Longrightarrow> correctable_value t' g = correctable_value t g"
  using assms by (elim set_fieldE; simp add: correctable_value_def)+

lemma set_fields_value:
  assumes "rfold set_field fvs t = Inr t'" "distinct (map fst fvs)"
  shows "(\<forall>(f, v) \<in> set fvs. correctable_value t' f = Some v) \<and>
    (\<forall>g. g \<notin> fst ` set fvs \<longrightarrow> correctable_value t' g = correctable_value t g)"
  using assms
proof (induction fvs arbitrary: t)
  case (Cons fv fvs)
  then obtain f v t1 where t1: "fv = (f, v)" "set_field (f, v) t = Inr t1" "rfold set_field fvs t1 = Inr t'"
    by (cases fv) auto
  have IH: "(\<forall>(f, v) \<in> set fvs. correctable_value t' f = Some v) \<and>
      (\<forall>g. g \<notin> fst ` set fvs \<longrightarrow> correctable_value t' g = correctable_value t1 g)"
    using Cons.IH [OF t1(3)] Cons.prems(2) by simp
  have "f \<notin> fst ` set fvs" using Cons.prems(2) t1(1) by simp
  then have "correctable_value t' f = Some v" using IH set_field_value(1) [OF t1(2)] by simp
  then show ?case using IH set_field_value(2) [OF t1(2)] t1(1) by auto
qed simp

lemma correctable_value_reviewed [simp]:
  "correctable_value (t\<lparr>tx_reviewed_by := r\<rparr>) f = correctable_value t f"
  by (simp add: correctable_value_def)

lemma created_draft:
  assumes "books_ok d" and c: "create_manual_transaction user m ix d = Inr (d', t)"
  shows "get_tx d' (tx_id t) = Some t \<and> get_tx d (tx_id t) = None \<and> tx_status t = DRAFT \<and> tx_user t = user \<and>
      tx_amount t = \<lparr>amount_minor = me_amount_minor m, currency = normalize_code (me_currency m)\<rparr> \<and>
      tx_currency t = normalize_code (me_currency m) \<and> 0 < me_amount_minor m \<and>
      owned fa_user (get_account d (tx_financial_account t)) user \<and> \<not> is_posted d' (tx_id t)"
  using c
proof (rule create_Inr)
  fix amount t1
  assume a: "0 < me_amount_minor m" "Money (me_amount_minor m) (me_currency m) = Inr amount"
    and v: "validate_transaction_invariants d (fill_manual m amount ix ((blank_tx user amount)\<lparr>tx_id := next_id d\<rparr>)) = Inr t1"
    and t: "t = snd (insert_tx t1 d)" "tx_status t1 = DRAFT" "tx_amount t1 = amount" "tx_user t1 = user"
    and d': "d' = (fst (insert_tx t1 d))\<lparr>audits := audits d @
      [\<lparr>au_user = user, au_event = TRANSACTION_CREATED, au_object = Some (tx_id t), au_metadata = manual_metadata m\<rparr>]\<rparr>"
  have tab: "table_ok tx_id (transactions d) (next_id d)" using assms by (simp add: books_ok_def)
  have t_eq: "t = t1\<lparr>tx_id := next_id d\<rparr>" by (simp add: t(1) insert_tx_def Let_def)
  have new: "get_tx d (next_id d) = None" using table_ok_find_new [OF tab] by (simp add: get_tx_def)
  have amount: "amount = \<lparr>amount_minor = me_amount_minor m, currency = normalize_code (me_currency m)\<rparr>"
    using a(2) by (auto simp: Money_def Currency_Inr_iff)
  have cur: "tx_currency t1 = normalize_code (me_currency m)"
    and own: "owned fa_user (get_account d (tx_financial_account t1)) user"
    using v t(4) by (auto simp: validate_Inr full_clean_Inr tx_relations_ok_def)
  have "entry_ok d e \<Longrightarrow> en_transaction e \<noteq> next_id d" for e
    using new by (auto simp: entry_ok_def)
  then have "\<not> is_posted d (next_id d)"
    using assms by (auto simp: books_ok_def ledger_ok_def list_all_iff is_posted_def list_ex_iff)
  then have "\<not> is_posted d' (next_id d)" by (simp add: d' is_posted_def insert_tx_def Let_def)
  then show ?thesis
    using get_tx_insert [OF tab, of t1] new a(1) amount t(2-4) cur own by (simp add: d' t_eq)
qed

section \<open>Properties\<close>

text \<open>
  C5. The books stay correct whatever sequence of services runs: manual entry and edits, status
  changes, corrections, deletions, saves of drafts by origin and postings all keep the ledger
  invariant, distinct keys and one transaction per origin.
\<close>

theorem books_stay_correct:
  assumes "books_step\<^sup>*\<^sup>* d d'" "books_ok d"
  shows "books_ok d'"
  using good_books_steps [OF assms] by (simp add: good_step_def)

lemma sample_books_ok: "books_ok sample_db"
  using sample_ok(1)
  by (simp add: books_ok_def) (simp add: sample_eval origins_ok_def table_ok_def keys_def)

lemma sample_books_step: "books_step sample_db sample_posted"
proof -
  have "post_balanced_transaction sample_tx sample_postings sample_db =
      Inr (sample_posted, snd (bulk_create (map (posting_entry 30) sample_postings) sample_db))"
    unfolding sample_post sample_posted_def by simp
  then show ?thesis using sample_ok by (intro books_step.post)
qed

lemma sample_books_steps: "books_step\<^sup>*\<^sup>* sample_db sample_posted"
  using sample_books_step by blast

theorem books_stay_correct_witness:
  "books_step\<^sup>*\<^sup>* sample_db sample_posted \<and> books_ok sample_posted \<and> is_posted sample_posted 30"
proof -
  have "is_posted sample_posted 30"
    using sample_reversible(2) by (simp add: not_posted [symmetric])
  then show ?thesis using books_stay_correct [OF sample_books_steps sample_books_ok] sample_books_steps by blast
qed




lemma sample_delete:
  "\<exists>r. delete_transaction 30 1 ''entered twice'' True sample_posted = Inr r"
proof -
  obtain d1 es where r: "reverse_transaction_postings sample_tx sample_posted = Inr (d1, es)"
    using sample_reversible(1) by blast
  have d1: "transactions d1 = transactions sample_db" "users d1 = users sample_db" "accounts d1 = accounts sample_db"
    using r by (auto simp: reverse_Inr bulk_create_def Let_def sample_posted_def split: if_splits)
  have tx: "get_tx sample_posted 30 = Some sample_tx"
    using sample_ok(3) by (simp add: sample_posted_def)
  have k: "normalize_code ''KRW'' = ''KRW''" "is_supported ''KRW''"
    by code_simp+
  have f: "tx_status sample_tx = CONFIRMED" "tx_user sample_tx = 1" by (simp_all add: sample_tx_def)
  define d2 where "d2 = fst (release_observations 30 1 d1)"
  have d2: "transactions d2 = transactions sample_db" "users d2 = users sample_db" "accounts d2 = accounts sample_db"
    by (simp_all add: d2_def d1 release_observations_def)
  have tx2: "get_tx d2 30 = Some sample_tx" using sample_ok(3) by (simp add: get_tx_def d2)
  have "validate_transaction_invariants d2 (sample_tx\<lparr>tx_status := VOIDED, tx_reviewed_by := Some 1\<rparr>) =
      Inr (sample_tx\<lparr>tx_status := VOIDED, tx_reviewed_by := Some 1\<rparr>)"
    by (simp add: validate_Inr full_clean_Inr tx_fields_ok_def tx_relations_ok_def get_account_def d2 owned_def
        k sample_eval)
  then have m: "transition_transaction_status 30 1 ''voided'' d2 = Inr ((put_tx (sample_tx\<lparr>tx_status := VOIDED, tx_reviewed_by := Some 1\<rparr>) d2)
      \<lparr>audits := audits d2 @ [\<lparr>au_user = 1, au_event = TRANSACTION_VOIDED, au_object = Some 30,
         au_metadata = [(''status'', MStr ''voided''), (''previous_status'', MStr ''confirmed'')]\<rparr>]\<rparr>,
       sample_tx\<lparr>tx_status := VOIDED, tx_reviewed_by := Some 1\<rparr>)"
    by (simp add: transition_transaction_status_def owned_tx_def tx2 f parse_status_def tx_allowed_def
        record_audit_event_def d2 del: One_nat_def) (simp add: sample_db_def)
  have rel: "release_observations 30 1 d1 = (d2, snd (release_observations 30 1 d1))"
    by (simp add: d2_def)
  have u: "1 \<in> set (users sample_db)" by (simp add: sample_db_def)
  show ?thesis
    unfolding delete_transaction_def
    by (simp add: owned_tx_def tx f r m record_audit_event_def d2 u del: One_nat_def)
      (subst rel, simp add: m record_audit_event_def d2 u del: One_nat_def)
qed


text \<open>
  C9. One origin makes one transaction: after \<open>save_once\<close> of a keyed transaction on correct books
  exactly one row has its owner and key, it is the row returned, and any later attempt with the
  same origin returns that row, creates nothing and says so.
\<close>

theorem one_transaction_per_origin:
  assumes "save_once t d = Inr (d', t', created)" "books_ok d" "tx_source_key t \<noteq> []"
    and "tx_user u = tx_user t" "tx_source_key u = tx_source_key t"
  shows "filter (\<lambda>x. origin x = origin t) (transactions d') = [t'] \<and> books_ok d' \<and>
    save_once u d' = Inr (d', t', False)"
proof -
  have ok: "books_ok d'" using good_save_once [OF assms(2,1)] by (simp add: good_step_def)
  have so: "same_origin d' t = Some t'"
  proof (cases created)
    case True
    then have "same_origin d t = None" "(d', t') = insert_tx t d" using assms(1,3) by (auto simp: save_once_Inr)
    moreover have "find P (xs @ [x]) = Some x" if "find P xs = None" "P x" for P and xs :: "canonical_transaction list" and x
      using that by (induction xs) (auto split: if_splits)
    ultimately show ?thesis by (simp add: same_origin_def insert_tx_def Let_def)
  qed (use assms(1) in \<open>simp add: save_once_Inr\<close>)
  have mem: "t' \<in> set (transactions d') \<and> origin t' = origin t"
    using so by (auto simp: same_origin_def find_Some_iff origin_def)
  have one: "filter (\<lambda>x. origin x = origin t) xs = [t']"
    if "distinct (map origin (filter (\<lambda>t. tx_source_key t \<noteq> []) xs))" "t' \<in> set xs" for xs
    using that
  proof (induction xs)
    case (Cons x xs)
    have keyed: "tx_source_key y \<noteq> []" if "origin y = origin t" for y
      using that assms(3) by (simp add: origin_def)
    show ?case
    proof (cases "origin x = origin t")
      case True
      then have "origin t \<notin> origin ` {y \<in> set xs. tx_source_key y \<noteq> []}"
        using Cons.prems(1) keyed [OF True] by auto
      then have "filter (\<lambda>x. origin x = origin t) xs = []" "t' \<notin> set xs"
        using keyed mem by (auto simp: filter_empty_conv image_iff)
      then show ?thesis using True Cons.prems(2) by simp
    next
      case False
      then have "t' \<in> set xs" using Cons.prems(2) mem by auto
      moreover have "distinct (map origin (filter (\<lambda>t. tx_source_key t \<noteq> []) xs))"
        using Cons.prems(1) by (simp split: if_splits)
      ultimately show ?thesis using Cons.IH False by simp
    qed
  qed simp
  have "same_origin d' u = same_origin d' t" using assms(4,5) by (simp add: same_origin_def)
  then have "save_once u d' = Inr (d', t', False)" using so assms(3,5) by (simp add: save_once_Inr)
  then show ?thesis using one [of "transactions d'"] ok mem by (simp add: books_ok_def origins_ok_def)
qed

theorem one_transaction_per_origin_witness:
  "\<exists>d' t'. save_once (sample_draft\<lparr>tx_source_key := ''observation:7''\<rparr>) sample_db = Inr (d', t', True) \<and>
     save_once (sample_tx\<lparr>tx_source_key := ''observation:7''\<rparr>) d' = Inr (d', t', False)"
proof -
  obtain d' t' where r: "save_once (sample_draft\<lparr>tx_source_key := ''observation:7''\<rparr>) sample_db = Inr (d', t', True)"
    by (simp add: save_once_Inr insert_tx_def Let_def same_origin_def sample_eval)
  show ?thesis
    using one_transaction_per_origin [OF r sample_books_ok, of "sample_tx\<lparr>tx_source_key := ''observation:7''\<rparr>"] r
    by (auto simp: sample_draft_def)
qed

text \<open>
  A correction is made openly: it succeeds only on a confirmed transaction of the caller. When
  nothing differs it changes nothing; otherwise exactly the fields it names take the requested
  values, none of them is one the ledger was posted from if the transaction is posted, and the
  stream gains one event with the names of the changed fields.
\<close>

theorem correction_is_recorded:
  assumes "correct_confirmed_transaction k user reason changes d = Inr (d', t', names)"
    and "distinct (map fst changes)"
  shows "\<exists>t r. get_tx d k = Some t \<and> tx_user t = user \<and> tx_status t = CONFIRMED \<and> get_tx d' k = Some r \<and>
    names = sort (map fst (changed_fields t changes)) \<and>
    (\<forall>(f, v) \<in> set changes. correctable_value r f = Some v) \<and>
    (\<forall>f. f \<notin> set names \<longrightarrow> correctable_value r f = correctable_value t f) \<and>
    (is_posted d k \<longrightarrow> set names \<inter> set LEDGER_BEARING_FIELDS = {}) \<and>
    (if names = [] then d' = d
     else audits d' = audits d @ [\<lparr>au_user = user, au_event = TRANSACTION_CORRECTED, au_object = Some k,
       au_metadata = [(''changed_fields'', MStrs names), (''reason'', MStr (take 200 (strip reason))),
         (''status'', MStr ''confirmed'')]\<rparr>])"
  using assms(1)
proof (rule correct_Inr)
  fix t
  assume t: "get_tx d k = Some t" "tx_user t = user" "tx_status t = CONFIRMED" "d' = d"
    and n: "names = sort (map fst (changed_fields t changes))" "names = []"
  have "changed_fields t changes = []" using n by (metis length_0_conv length_sort list.map_disc_iff)
  then have "\<forall>(f, v) \<in> set changes. correctable_value t f = Some v"
    by (auto simp: changed_fields_def filter_empty_conv)
  then show ?thesis using t n by auto
next
  fix t t1
  assume t: "get_tx d k = Some t" "tx_user t = user" "tx_status t = CONFIRMED" "names \<noteq> []"
    and n: "names = sort (map fst (changed_fields t changes))"
    and f: "rfold set_field (changed_fields t changes) t = Inr t1"
    and l: "is_posted d k \<longrightarrow> (\<forall>f \<in> set names. f \<notin> set LEDGER_BEARING_FIELDS)"
    and d': "d' = (put_tx (t1\<lparr>tx_reviewed_by := Some user\<rparr>) d)\<lparr>audits := audits d @
       [\<lparr>au_user = user, au_event = TRANSACTION_CORRECTED, au_object = Some k,
         au_metadata = [(''changed_fields'', MStrs names), (''reason'', MStr (take 200 (strip reason))),
            (''status'', MStr ''confirmed'')]\<rparr>]\<rparr>"
  have "distinct (map fst (changed_fields t changes))"
    using assms(2) unfolding changed_fields_def by (rule distinct_map_filter)
  note vals = set_fields_value [OF f this]
  have "tx_id t1 = k" using set_fields_keep [OF f] get_tx_id [OF t(1)] by simp
  then have g: "get_tx d' k = Some (t1\<lparr>tx_reviewed_by := Some user\<rparr>)"
    using get_tx_put [of d "t1\<lparr>tx_reviewed_by := Some user\<rparr>"] t(1) by (simp add: d')
  have names: "set names = fst ` set (changed_fields t changes)" by (simp add: n)
  have "correctable_value t1 f = Some v" if "(f, v) \<in> set changes" for f v
  proof (cases "correctable_value t f = Some v")
    case True
    have "(f, w) \<notin> set (changed_fields t changes)" for w
      using True that assms(2) by (auto simp: changed_fields_def dest: eq_key_imp_eq_value)
    then have "f \<notin> fst ` set (changed_fields t changes)" by auto
    then show ?thesis using vals True by simp
  next
    case False
    then have "(f, v) \<in> set (changed_fields t changes)" using that by (simp add: changed_fields_def)
    then show ?thesis using vals by blast
  qed
  then show ?thesis using t n l g vals names by (auto simp: d')
qed

definition sample_change :: "(string \<times> change_value) list" where
  "sample_change = [(''occurred_at'', VDate (Some 201))]"

lemma sample_correct:
  "\<exists>d' t'. correct_confirmed_transaction 30 1 ''misread the date'' sample_change sample_db = Inr (d', t', [''occurred_at''])"
proof -
  have k: "normalize_code ''KRW'' = ''KRW''" "is_supported ''KRW''" "strip ''misread the date'' \<noteq> []"
    by code_simp+
  have tx: "owned_tx sample_db 30 1 = Some sample_tx" using sample_ok(3) by (simp add: sample_tx_def)
  have c: "changed_fields sample_tx sample_change = [(''occurred_at'', VDate (Some 201))]"
    "correctable_value sample_tx ''occurred_at'' \<noteq> None"
    by (simp_all add: changed_fields_def sample_change_def correctable_value_def sample_tx_def)
  have v: "tx_full_clean sample_db (sample_tx\<lparr>tx_occurred_at := 201, tx_reviewed_by := Some 1\<rparr>) =
      Inr (sample_tx\<lparr>tx_occurred_at := 201, tx_reviewed_by := Some 1\<rparr>)"
    by (simp add: full_clean_Inr tx_fields_ok_def tx_relations_ok_def get_account_def owned_def k sample_eval)
  have u: "1 \<in> set (users sample_db)" "tx_status sample_tx = CONFIRMED" by (simp_all add: sample_db_def sample_tx_def)
  show ?thesis
    using c(2)
    by (simp add: correct_confirmed_transaction_def tx c [unfolded sample_change_def] Let_def k(3) u set_field_def v record_audit_event_def
        LEDGER_BEARING_FIELDS_def sample_change_def del: One_nat_def owned_tx_Some)
qed

theorem correction_is_recorded_witness:
  "\<exists>d' t'. correct_confirmed_transaction 30 1 ''misread the date'' sample_change sample_db =
       Inr (d', t', [''occurred_at'']) \<and>
     (\<exists>r. get_tx d' 30 = Some r \<and> correctable_value r ''occurred_at'' = Some (VDate (Some 201)))"
proof -
  obtain d' t' where r: "correct_confirmed_transaction 30 1 ''misread the date'' sample_change sample_db =
       Inr (d', t', [''occurred_at''])"
    using sample_correct by blast
  have "distinct (map fst sample_change)" by (simp add: sample_change_def)
  from correction_is_recorded [OF r this] obtain x where
    "get_tx d' 30 = Some x" "\<forall>(f, v) \<in> set sample_change. correctable_value x f = Some v" by blast
  then have "correctable_value x ''occurred_at'' = Some (VDate (Some 201))" by (simp add: sample_change_def)
  with r show ?thesis using \<open>get_tx d' 30 = Some x\<close> by blast
qed

text \<open>
  Manual entry makes drafts and only drafts are edited in place: a successful
  \<open>create_manual_transaction\<close> stores a draft of the caller with the positive amount it was given, in
  the normal form of the currency, on an account of the caller and not posted, while
  \<open>update_manual_transaction\<close> of any transaction that has left the draft state is refused.
\<close>

theorem manual_entry_is_a_draft:
  assumes "books_ok d"
  shows "(\<forall>d' t. create_manual_transaction user m ix d = Inr (d', t) \<longrightarrow>
      get_tx d' (tx_id t) = Some t \<and> get_tx d (tx_id t) = None \<and> tx_status t = DRAFT \<and> tx_user t = user \<and>
      tx_amount t = \<lparr>amount_minor = me_amount_minor m, currency = normalize_code (me_currency m)\<rparr> \<and>
      tx_currency t = normalize_code (me_currency m) \<and> 0 < me_amount_minor m \<and>
      owned fa_user (get_account d (tx_financial_account t)) user \<and> \<not> is_posted d' (tx_id t)) \<and>
    (\<forall>k t. get_tx d k = Some t \<longrightarrow> tx_user t = user \<longrightarrow> tx_status t \<noteq> DRAFT \<longrightarrow>
      update_manual_transaction k user m ix d = Inl ImmutableTransactionError)"
  using created_draft [OF assms]
  by (auto simp: update_manual_transaction_def owned_tx_def assert_editable_in_place_def)

definition sample_entry :: manual_entry where
  "sample_entry = \<lparr>me_occurred_at = 210, me_amount_minor = 1500, me_currency = ''krw'', me_type = T_FEE,
     me_account = sample_account, me_instrument = None, me_category = None, me_merchant = ''bank'',
     me_counterparty = [], me_notes = []\<rparr>"

theorem manual_entry_witness:
  "update_manual_transaction 30 1 sample_entry None sample_db = Inl ImmutableTransactionError"
proof -
  have "get_tx sample_db 30 = Some sample_tx" "tx_user sample_tx = 1" "tx_status sample_tx \<noteq> DRAFT"
    using sample_ok(3) by (simp_all add: sample_tx_def)
  then show ?thesis using manual_entry_is_a_draft [OF sample_books_ok, of 1 sample_entry None] by blast
qed

end
