(* ===== verification/Opening.thy ===== *)
theory Opening
  imports Transactions
begin

text \<open>
  Opening balances (\<open>apps/financial_accounts/opening_balances.py\<close>): where an account started,
  posted once against equity and corrected by posting the difference.
\<close>

section \<open>Definitions\<close>

record opening_posting =
  op_transaction :: "canonical_transaction option"
  op_signed_minor :: int
  op_is_adjustment :: bool

definition linked_account :: "financial_account \<Rightarrow> db \<Rightarrow> ledger_account option" where
  "linked_account account d = first_account (\<lambda>a. la_financial_account a = Some (fa_id account)) d"

definition opening_entry :: "db \<Rightarrow> id \<Rightarrow> ledger_entry \<Rightarrow> bool" where
  "opening_entry d la e =
     (en_account e = la \<and>
      (case get_tx d (en_transaction e) of None \<Rightarrow> False | Some t \<Rightarrow> tx_type t = T_OPENING_BALANCE))"

definition signed_for :: "entry_type \<Rightarrow> ledger_entry \<Rightarrow> int" where
  "signed_for normal e =
     (if en_type e = normal then amount_minor (en_amount e) else - amount_minor (en_amount e))"

definition posted_opening_balance_minor :: "financial_account \<Rightarrow> db \<Rightarrow> int" where
  "posted_opening_balance_minor account d =
     (case linked_account account d of
        None \<Rightarrow> 0
      | Some la \<Rightarrow>
          (\<Sum>e \<leftarrow> entries d. if opening_entry d (la_id la) e then signed_for (la_normal_balance la) e else 0))"

definition opening_tx :: "financial_account \<Rightarrow> id \<Rightarrow> money \<Rightarrow> int \<Rightarrow> canonical_transaction" where
  "opening_tx account user amount occurred_at =
     (blank_tx user amount)\<lparr>tx_occurred_at := occurred_at, tx_currency := currency amount,
        tx_type := T_OPENING_BALANCE, tx_financial_account := fa_id account\<rparr>"

definition post_pair ::
  "financial_account \<Rightarrow> id \<Rightarrow> int \<Rightarrow> int \<Rightarrow> db \<Rightarrow> (db \<times> canonical_transaction) result" where
  "post_pair account user minor occurred_at d =
     rbind (Money \<bar>minor\<bar> (fa_currency account)) (\<lambda>amount.
     rbind (ensure_ledger_account_for account d) (\<lambda>(d1, la).
     rbind (ensure_opening_balance_equity user d1) (\<lambda>(d2, equity).
     rbind (tx_full_clean d2 (opening_tx account user amount occurred_at)) (\<lambda>t0.
     rbind (save_tx t0 d2) (\<lambda>(d3, t1).
     rbind (transition_transaction_status (tx_id t1) user ''confirmed'' d3) (\<lambda>(d4, t2).
     let increase = la_normal_balance la;
         account_entry = (if 0 < minor then increase else OPPOSITE_ENTRY_TYPE increase)
     in rbind (post_balanced_transaction t2
          [\<lparr>po_account = la, po_type = account_entry, po_amount = amount\<rparr>,
           \<lparr>po_account = equity, po_type = OPPOSITE_ENTRY_TYPE account_entry, po_amount = amount\<rparr>] d4)
        (\<lambda>(d5, _). Inr (d5, t2))))))))"

definition post_opening_balance ::
  "financial_account \<Rightarrow> id \<Rightarrow> int option \<Rightarrow> db \<Rightarrow> (db \<times> opening_posting) result" where
  "post_opening_balance account user occurred_at d =
     raise_if (fa_user account \<noteq> user) ForbiddenError
     (case fa_opening_balance account of
        None \<Rightarrow> Inr (d, \<lparr>op_transaction = None, op_signed_minor = 0, op_is_adjustment = False\<rparr>)
      | Some recorded \<Rightarrow>
          (if amount_minor recorded = 0
           then Inr (d, \<lparr>op_transaction = None, op_signed_minor = 0, op_is_adjustment = False\<rparr>)
           else rbind (Currency (fa_currency account)) (\<lambda>cur.
             raise_if (currency recorded \<noteq> cur) InvalidRequestError
             (raise_if (posted_opening_balance_minor account d \<noteq> 0) InvalidRequestError
             (rbind (post_pair account user (amount_minor recorded)
                 (case occurred_at of Some x \<Rightarrow> x | None \<Rightarrow> fa_created_at account) d) (\<lambda>(d1, t).
              rbind (record_audit_event user OPENING_BALANCE_POSTED (Some (fa_id account))
                  [(''currency'', MStr (fa_currency account)), (''transaction_id'', MId (tx_id t))] d1) (\<lambda>d2.
              Inr (d2, \<lparr>op_transaction = Some t, op_signed_minor = amount_minor recorded,
                op_is_adjustment = False\<rparr>))))))))"

definition correct_opening_balance ::
  "financial_account \<Rightarrow> id \<Rightarrow> money \<Rightarrow> string \<Rightarrow> int \<Rightarrow> db \<Rightarrow> (db \<times> opening_posting) result" where
  "correct_opening_balance account user corrected reason occurred_at d =
     raise_if (fa_user account \<noteq> user) ForbiddenError
     (raise_if (strip reason = []) InvalidRequestError
     (rbind (Currency (fa_currency account)) (\<lambda>cur.
      raise_if (currency corrected \<noteq> cur) InvalidRequestError
      (let difference = amount_minor corrected - posted_opening_balance_minor account d;
           account' = account\<lparr>fa_opening_balance := Some corrected\<rparr>;
           d1 = put_account account' d
       in if difference = 0
          then Inr (d1, \<lparr>op_transaction = None, op_signed_minor = 0, op_is_adjustment = True\<rparr>)
          else rbind (post_pair account' user difference occurred_at d1) (\<lambda>(d2, t).
            rbind (record_audit_event user OPENING_BALANCE_ADJUSTED (Some (fa_id account))
                [(''currency'', MStr (fa_currency account)), (''transaction_id'', MId (tx_id t)),
                 (''reason'', MStr (take 200 (strip reason)))] d2) (\<lambda>d3.
            Inr (d3, \<lparr>op_transaction = Some t, op_signed_minor = difference, op_is_adjustment = True\<rparr>)))))))"

section \<open>What the ensured accounts are\<close>

text \<open>
  Blind indexes keep accounts apart: a ledger account under the account's name index stands for
  it, and none under the equity account's index does. The unique constraint on account names
  gives the first, the keyed index the second.
\<close>

definition names_apart :: "financial_account \<Rightarrow> db \<Rightarrow> bool" where
  "names_apart account d =
     (fa_name_index account \<noteq> OPENING_BALANCE_EQUITY_BLIND_INDEX \<and>
      list_all (\<lambda>a. (la_name_index a = fa_name_index account \<longrightarrow> la_user a = fa_user account \<longrightarrow>
           la_financial_account a = Some (fa_id account)) \<and>
        (la_name_index a = OPENING_BALANCE_EQUITY_BLIND_INDEX \<longrightarrow>
           la_financial_account a \<noteq> Some (fa_id account))) (ledger_accounts d))"

text \<open>What finding or creating an account does to the database.\<close>

definition chart_step :: "db \<Rightarrow> db \<Rightarrow> ledger_account list \<Rightarrow> bool" where
  "chart_step d d' new \<longleftrightarrow>
     (\<exists>cs n. d' = d\<lparr>charts := cs, ledger_accounts := ledger_accounts d @ new, next_id := n\<rparr> \<and> next_id d \<le> n) \<and>
     (chart_ok d \<longrightarrow> chart_ok d')"

lemma chart_step_refl: "chart_step d d []"
proof -
  have "d = d\<lparr>charts := charts d, ledger_accounts := ledger_accounts d @ [], next_id := next_id d\<rparr>" by simp
  then show ?thesis unfolding chart_step_def by blast
qed

lemma chart_step_charts:
  assumes "d' = d\<lparr>charts := cs, next_id := Suc (next_id d)\<rparr>" "chart_ok d \<longrightarrow> chart_ok d'"
  shows "chart_step d d' []"
proof -
  have "d' = d\<lparr>charts := cs, ledger_accounts := ledger_accounts d @ [], next_id := Suc (next_id d)\<rparr>"
    by (simp add: assms(1))
  then show ?thesis using assms(2) unfolding chart_step_def by (metis le_SucI order_refl)
qed

lemma get_or_create_step:
  assumes "get_or_create_account user t ix f s d = Inr (d', a)"
  shows "\<exists>new. chart_step d d' new \<and> (new = [] \<or> new = [a] \<and> la_financial_account a = f \<and> la_id a \<ge> next_id d) \<and>
    la_name_index a = ix \<and> (chart_ok d \<longrightarrow> la_user a = user) \<and> a \<in> set (ledger_accounts d')"
proof -
  have chart: "chart_ok d \<longrightarrow> chart_ok d'"
    using get_or_create_chart_ok [OF assms] by blast
  from assms show ?thesis
  proof (cases rule: get_or_create_cases)
    case (found d1 c)
    note e = ensure_chart_props [OF found(1)]
    have a: "a \<in> set (ledger_accounts d1)" "la_chart a = ch_id c" "la_name_index a = ix"
      using first_account_SomeD [OF found(3)] by auto
    have "la_user a = user" if "chart_ok d"
    proof -
      have "chart_ok d'" using chart that by blast
      then have "chart_owner d' (la_chart a) = Some (la_user a)"
        using a(1) found(2) by (simp add: chart_ok_def list_all_iff)
      moreover have "get_chart d1 (ch_id c) = Some c" using e(4) that by (simp add: chart_ok_def)
      ultimately show ?thesis using a(2) e(1) found(2) by (simp add: chart_owner_def)
    qed
    moreover have "chart_step d d' []"
      using e(5) found(2) chart chart_step_refl chart_step_charts by blast
    ultimately show ?thesis using a found(2) by blast
  next
    case (created d1 c)
    note e = ensure_chart_props [OF created(1)]
    obtain cs n where d1: "d1 = d\<lparr>charts := cs, next_id := n\<rparr>" "next_id d \<le> n"
      using e(5) by (cases d) fastforce
    then have "d' = d\<lparr>charts := cs, ledger_accounts := ledger_accounts d @ [a], next_id := Suc n\<rparr> \<and> next_id d \<le> Suc n"
      using created(6) by simp
    then have "chart_step d d' [a]"
      unfolding chart_step_def using chart by blast
    moreover have "la_id a \<ge> next_id d" using d1 created(3) by simp
    ultimately show ?thesis using created(3,6) by auto
  qed
qed

lemma chart_step_fields:
  assumes "chart_step d d' new"
  shows "entries d' = entries d" "transactions d' = transactions d" "users d' = users d" "accounts d' = accounts d"
    "ledger_accounts d' = ledger_accounts d @ new" "next_id d \<le> next_id d'" "audits d' = audits d"
    "chart_ok d \<Longrightarrow> chart_ok d'" "categories d' = categories d" "instruments d' = instruments d"
  using assms by (auto simp: chart_step_def)

lemma chart_step_ledger_ok:
  assumes "chart_step d d' new" "ledger_ok d"
  shows "ledger_ok d'"
proof -
  note f = chart_step_fields [OF assms(1)]
  have tx: "get_tx d' = get_tx d" by (simp add: get_tx_def f fun_eq_iff)
  have "get_ledger_account d k = Some a \<Longrightarrow> get_ledger_account d' k = Some a" for k a
    by (simp add: get_ledger_account_def f find_row_append)
  then have "entry_ok d e \<Longrightarrow> entry_ok d' e" for e
    by (auto simp: entry_ok_def tx split: option.splits)
  then show ?thesis
    using assms(2) table_ok_mono [OF _ f(6)] by (auto simp: ledger_ok_def f list_all_iff)
qed

lemma chart_step_books_ok: "chart_step d d' new \<Longrightarrow> books_ok d \<Longrightarrow> books_ok d'"
  using chart_step_ledger_ok [of d d' new] chart_step_fields [of d d' new]
    table_ok_mono [of tx_id "transactions d" "next_id d" "next_id d'"]
  by (auto simp: books_ok_def origins_ok_def)

lemma first_account_append:
  "(\<And>a. a \<in> set new \<Longrightarrow> \<not> P a) \<Longrightarrow> ledger_accounts d' = ledger_accounts d @ new \<Longrightarrow>
     first_account P d' = first_account P d"
  by (simp add: first_account_def)

text \<open>The account that opening balances are posted to is the one their total is read from.\<close>

lemma ensure_linked:
  assumes "ensure_ledger_account_for account d = Inr (d', la)" "names_apart account d" "chart_ok d"
  shows "linked_account account d' = Some la \<and> la \<in> set (ledger_accounts d') \<and>
    (\<exists>new. chart_step d d' new \<and>
      (linked_account account d = Some la \<and> new = [] \<or>
       linked_account account d = None \<and> new = [la] \<and> next_id d \<le> la_id la)) \<and>
    names_apart account d'"
proof (cases "linked_account account d")
  case (Some a)
  then have "d' = d" "la = a" using assms(1) by (auto simp: ensure_ledger_account_for_def linked_account_def)
  moreover note chart_step_refl [of d]
  ultimately show ?thesis using Some assms(2) by (auto simp: linked_account_def dest: first_account_SomeD)
next
  case None
  then have g: "get_or_create_account (fa_user account) (FINANCIAL_ACCOUNT_LEDGER_TYPES (fa_type account))
      (fa_name_index account) (Some (fa_id account)) False d = Inr (d', la)"
    using assms(1) by (simp add: ensure_ledger_account_for_def linked_account_def)
  obtain new where s: "chart_step d d' new" "la_name_index la = fa_name_index account" "la_user la = fa_user account"
    "la \<in> set (ledger_accounts d')"
    and new: "new = [] \<or> new = [la] \<and> la_financial_account la = Some (fa_id account) \<and> next_id d \<le> la_id la"
    using get_or_create_step [OF g] assms(3) by blast
  note f = chart_step_fields [OF s(1)]
  have "new \<noteq> []"
  proof
    assume "new = []"
    then have "la \<in> set (ledger_accounts d)" using s(4) f(5) by simp
    then have "la_financial_account la = Some (fa_id account)"
      using assms(2) s(2,3) by (auto simp: names_apart_def list_all_iff)
    then show False using None \<open>la \<in> set (ledger_accounts d)\<close> by (simp add: linked_account_def first_account_None)
  qed
  then have n: "new = [la]" "la_financial_account la = Some (fa_id account)" "next_id d \<le> la_id la" using new by auto
  have "linked_account account d' = Some la"
    using None n by (simp add: linked_account_def first_account_None) (simp add: first_account_def f)
  moreover have "names_apart account d'"
    using assms(2) n s(2) by (simp add: names_apart_def f)
  ultimately show ?thesis using None s n by blast
qed

lemma ensure_equity:
  assumes "ensure_opening_balance_equity user d = Inr (d', eq)" "names_apart account d" "chart_ok d"
  shows "linked_account account d' = linked_account account d \<and> eq \<in> set (ledger_accounts d') \<and>
    la_financial_account eq \<noteq> Some (fa_id account) \<and> la_user eq = user \<and>
    (\<exists>new. chart_step d d' new) \<and> names_apart account d'"
proof -
  obtain new where s: "chart_step d d' new" "la_name_index eq = OPENING_BALANCE_EQUITY_BLIND_INDEX" "la_user eq = user"
    "eq \<in> set (ledger_accounts d')" and new: "new = [] \<or> new = [eq] \<and> la_financial_account eq = None"
    using get_or_create_step [OF assms(1) [unfolded ensure_opening_balance_equity_def]] assms(3) by blast
  note f = chart_step_fields [OF s(1)]
  have "la_financial_account eq \<noteq> Some (fa_id account)"
    using new
  proof
    assume "new = []"
    then show ?thesis using s(2,4) f(5) assms(2) by (auto simp: names_apart_def list_all_iff)
  qed simp
  moreover have "linked_account account d' = linked_account account d"
    unfolding linked_account_def by (rule first_account_append [OF _ f(5)]) (use new in auto)
  moreover have "names_apart account d'"
    using assms(2) new s(2) by (auto simp: names_apart_def f list_all_iff)
  ultimately show ?thesis using s by blast
qed

section \<open>What posting the pair does\<close>

lemma opposite_simps [simp]:
  "OPPOSITE_ENTRY_TYPE t \<noteq> t" "(OPPOSITE_ENTRY_TYPE t = DEBIT) = (t = CREDIT)"
  "(OPPOSITE_ENTRY_TYPE t = CREDIT) = (t = DEBIT)"
  by (cases t; simp)+

lemma chart_ok_transfer:
  "chart_ok d \<Longrightarrow> ledger_accounts d' = ledger_accounts d \<Longrightarrow> charts d' = charts d \<Longrightarrow>
     next_id d \<le> next_id d' \<Longrightarrow> chart_ok d'"
  using table_ok_mono [of la_id "ledger_accounts d" "next_id d" "next_id d'"]
    table_ok_mono [of ch_id "charts d" "next_id d" "next_id d'"]
  by (simp add: chart_ok_def chart_owner_def get_chart_def)

lemma names_apart_transfer:
  "names_apart account d \<Longrightarrow> ledger_accounts d' = ledger_accounts d \<Longrightarrow> names_apart account d'"
  by (simp add: names_apart_def)

lemma linked_transfer:
  "ledger_accounts d' = ledger_accounts d \<Longrightarrow> linked_account account d' = linked_account account d"
  by (simp add: linked_account_def first_account_def)

lemma sum_opening_same:
  assumes "\<And>e. e \<in> set es \<Longrightarrow> opening_entry d la e = opening_entry d' la e"
  shows "(\<Sum>e \<leftarrow> es. if opening_entry d' la e then f e else 0) = (\<Sum>e \<leftarrow> es. if opening_entry d la e then f e else (0::int))"
  using assms by (induction es) auto

text \<open>
  Adding a pair of entries for a new opening transaction, one of them on the account's own ledger
  account, moves the posted opening balance by that entry.
\<close>

lemma posted_after_pair:
  assumes "linked_account account d' = Some la" "entries d' = entries d @ [x, y]"
    and "linked_account account d = Some la \<or> linked_account account d = None \<and> next_id d \<le> la_id la"
    and "ledger_ok d" "chart_ok d" "\<And>k. get_tx d k \<noteq> None \<Longrightarrow> get_tx d' k = get_tx d k"
    and "opening_entry d' (la_id la) x" "en_account y \<noteq> la_id la"
  shows "posted_opening_balance_minor account d' =
     posted_opening_balance_minor account d + signed_for (la_normal_balance la) x"
proof -
  let ?f = "\<lambda>e. signed_for (la_normal_balance la) e"
  have known: "get_tx d (en_transaction e) \<noteq> None \<and> get_ledger_account d (en_account e) \<noteq> None"
    if "e \<in> set (entries d)" for e
    using that assms(4) by (auto simp: ledger_ok_def list_all_iff entry_ok_def split: option.splits)
  have "opening_entry d (la_id la) e = opening_entry d' (la_id la) e" if "e \<in> set (entries d)" for e
    using known [OF that] assms(6) [of "en_transaction e"] by (simp add: opening_entry_def)
  from sum_opening_same [OF this]
  have old: "(\<Sum>e \<leftarrow> entries d. if opening_entry d' (la_id la) e then ?f e else 0) =
      (\<Sum>e \<leftarrow> entries d. if opening_entry d (la_id la) e then ?f e else 0)" by simp
  have "(\<Sum>e \<leftarrow> entries d. if opening_entry d (la_id la) e then ?f e else 0) = posted_opening_balance_minor account d"
  proof (cases "linked_account account d")
    case None
    then have "next_id d \<le> la_id la" using assms(3) by simp
    then have "get_ledger_account d (la_id la) = None"
      using assms(5) table_ok_find_new by (auto simp: chart_ok_def get_ledger_account_def)
    then have "\<not> opening_entry d (la_id la) e" if "e \<in> set (entries d)" for e
      using known [OF that] by (auto simp: opening_entry_def)
    then have "map (\<lambda>e. if opening_entry d (la_id la) e then ?f e else 0) (entries d) = map (\<lambda>_. 0) (entries d)"
      by simp
    then have "(\<Sum>e \<leftarrow> entries d. if opening_entry d (la_id la) e then ?f e else 0) = 0"
      by (simp only:) simp
    then show ?thesis using None by (simp add: posted_opening_balance_minor_def)
  next
    case (Some a)
    then show ?thesis using assms(3) by (simp add: posted_opening_balance_minor_def)
  qed
  then show ?thesis
    using old assms(1,2,7,8) by (simp add: posted_opening_balance_minor_def) (simp add: opening_entry_def)
qed

text \<open>
  A posted pair: the new transaction, two entries of it, one of them on the account's own ledger
  account with the sign of the amount, and nothing else in the books.
\<close>

lemma post_pair_effect:
  assumes "post_pair account user minor day d = Inr (d', t)"
    and "books_ok d" "chart_ok d" "names_apart account d" "minor \<noteq> 0" "fa_user account = user"
  shows "books_ok d' \<and> chart_ok d' \<and> names_apart account d' \<and>
    posted_opening_balance_minor account d' = posted_opening_balance_minor account d + minor \<and>
    (\<exists>new. entries d' = entries d @ new \<and> length new = 2) \<and> accounts d' = accounts d \<and>
    get_tx d' (tx_id t) = Some t \<and> tx_status t = CONFIRMED \<and> tx_type t = T_OPENING_BALANCE \<and>
    get_tx d (tx_id t) = None"
proof -
  define side where "side la = (if 0 < minor then la_normal_balance la else OPPOSITE_ENTRY_TYPE (la_normal_balance la))" for la :: ledger_account
  obtain amount d1 la d2 equity t0 d3 t1 d4 es where
    amt: "Money \<bar>minor\<bar> (fa_currency account) = Inr amount"
    and e1: "ensure_ledger_account_for account d = Inr (d1, la)"
    and e2: "ensure_opening_balance_equity user d1 = Inr (d2, equity)"
    and cl: "tx_full_clean d2 (opening_tx account user amount day) = Inr t0"
    and sv: "save_tx t0 d2 = Inr (d3, t1)"
    and tr: "transition_transaction_status (tx_id t1) user ''confirmed'' d3 = Inr (d4, t)"
    and po: "post_balanced_transaction t
        [\<lparr>po_account = la, po_type = side la, po_amount = amount\<rparr>,
         \<lparr>po_account = equity, po_type = OPPOSITE_ENTRY_TYPE (side la), po_amount = amount\<rparr>] d4 = Inr (d', es)"
    using assms(1) unfolding post_pair_def Let_def side_def by (auto simp del: save_tx_Inr)
  obtain n1 where s1: "chart_step d d1 n1" and la: "la \<in> set (ledger_accounts d1)" "linked_account account d1 = Some la"
    and old: "linked_account account d = Some la \<or> linked_account account d = None \<and> next_id d \<le> la_id la"
    and na1: "names_apart account d1"
    using ensure_linked [OF e1 assms(4,3)] by blast
  note f1 = chart_step_fields [OF s1]
  have c1: "chart_ok d1" using f1(8) assms(3) by simp
  obtain n2 where s2: "chart_step d1 d2 n2" and eq: "equity \<in> set (ledger_accounts d2)" "la_user equity = user"
    "la_financial_account equity \<noteq> Some (fa_id account)" and linked: "linked_account account d2 = Some la"
    and na2: "names_apart account d2"
    using ensure_equity [OF e2 na1 c1] la(2) by auto
  note f2 = chart_step_fields [OF s2]
  have c2: "chart_ok d2" and b2: "books_ok d2"
    using f2(8) c1 chart_step_books_ok [OF s2 chart_step_books_ok [OF s1 assms(2)]] by simp_all
  have la2: "la \<in> set (ledger_accounts d2)" using la(1) f2(5) by simp
  have lf: "la_financial_account la = Some (fa_id account)"
    using linked by (auto simp: linked_account_def dest: first_account_SomeD)
  have got: "get_ledger_account d2 (la_id la) = Some la" "get_ledger_account d2 (la_id equity) = Some equity"
    using c2 la2 eq(1) table_ok_find by (auto simp: chart_ok_def get_ledger_account_def)
  then have ids: "la_id equity \<noteq> la_id la" using lf eq(3) by auto
  have am: "amount_minor amount = \<bar>minor\<bar>" "Currency (currency amount) = Inr (currency amount)"
    "normalize_code (currency amount) = currency amount"
    using amt Money_valid [OF amt] by (auto simp: valid_money_def Currency_Inr_iff)
  have t0: "t0 = opening_tx account user amount day"
    using cl am(3) by (simp add: full_clean_Inr opening_tx_def)
  define k where "k = next_id d2"
  define tc where "tc = t0\<lparr>tx_id := k, tx_status := CONFIRMED, tx_reviewed_by := Some user\<rparr>"
  have d3: "d3 = fst (insert_tx t0 d2)" "t1 = t0\<lparr>tx_id := k\<rparr>"
    using sv by (auto simp: save_tx_Inr insert_tx_def Let_def k_def)
  have b3: "books_ok d3" using insert_books_ok [OF b2, of t0] by (simp add: d3 t0 opening_tx_def blank_tx_def)
  have tab: "table_ok tx_id (transactions d2) (next_id d2)" using b2 by (simp add: books_ok_def)
  have g3: "get_tx d3 k = Some (t0\<lparr>tx_id := k\<rparr>)" unfolding d3 k_def by (rule get_tx_insert [OF tab])
  obtain a where d4: "d4 = (put_tx tc d3)\<lparr>audits := a\<rparr>" and v: "validate_transaction_invariants d3 tc = Inr t"
  proof -
    have "tx_id t1 = k" by (simp add: d3)
    then show thesis
      using tr that g3 parse_status_value [of CONFIRMED]
      by (auto simp: transition_transaction_status_def owned_tx_def record_audit_event_Inr tc_def split: if_splits)
  qed
  have t: "t = tc" using v am(3) by (simp add: validate_Inr full_clean_Inr tc_def t0 opening_tx_def)
  have b4: "books_ok d4" using good_transition [OF b3 tr] by (simp add: good_step_def)
  have k: "tx_id tc = k" by (simp add: tc_def)
  have g4: "get_tx d4 j = (if j = k then Some tc else get_tx d3 j)" for j
    using get_tx_put [of d3 tc] g3 by (simp add: d4 k)
  have l4: "ledger_accounts d4 = ledger_accounts d2" "charts d4 = charts d2" "next_id d2 \<le> next_id d4"
    "entries d4 = entries d2" "accounts d4 = accounts d2"
    by (simp_all add: d4 d3 insert_tx_def Let_def) (simp_all add: put_tx_def)
  let ?ps = "[\<lparr>po_account = la, po_type = side la, po_amount = amount\<rparr>,
         \<lparr>po_account = equity, po_type = OPPOSITE_ENTRY_TYPE (side la), po_amount = amount\<rparr>]"
  have "loaded d4 ?ps" using got by (simp add: loaded_def get_ledger_account_def l4)
  then have b': "books_ok d'" using good_post [OF b4 _ _ po] g4 by (simp add: t k good_step_def)
  have d': "d' = fst (bulk_create (map (posting_entry k) ?ps) d4)"
    using po by (auto simp: post_balanced_Inr t k) (metis fst_conv)
  then have en: "entries d' = entries d @ draw_keys (next_id d4) (map (posting_entry k) ?ps)"
    by (simp add: bulk_create_simps l4 f2 f1)
  have l': "ledger_accounts d' = ledger_accounts d2" "charts d' = charts d2" "next_id d2 \<le> next_id d'" "accounts d' = accounts d"
    using l4 f1(4) f2(4) by (simp_all add: d' bulk_create_simps)
  have gt: "get_tx d' = get_tx d4" unfolding d' by simp
  have fresh_k: "get_tx d k = None"
    using tab f1(2) f2(2) table_ok_find_new [OF tab] by (simp add: k_def get_tx_def)
  have keep: "get_tx d' j = get_tx d j" if "get_tx d j \<noteq> None" for j
  proof -
    have "j \<noteq> k" using that fresh_k by auto
    moreover have "get_tx d3 j = get_tx d j"
      using that by (auto simp: d3 insert_tx_def Let_def get_tx_def f1(2) f2(2) find_row_append)
    ultimately show ?thesis by (simp add: gt g4)
  qed
  have ty: "tx_type tc = T_OPENING_BALANCE" by (simp add: tc_def t0 opening_tx_def)
  obtain x y where xy: "draw_keys (next_id d4) (map (posting_entry k) ?ps) = [x, y]"
    and x: "en_account x = la_id la" "en_transaction x = k" "en_type x = side la" "en_amount x = amount"
    and y: "en_account y = la_id equity"
    by (simp add: posting_entry_def)
  have sx: "signed_for (la_normal_balance la) x = minor"
    using assms(5) by (cases "la_normal_balance la") (auto simp: signed_for_def x side_def am)
  have "posted_opening_balance_minor account d' = posted_opening_balance_minor account d + signed_for (la_normal_balance la) x"
  proof (rule posted_after_pair)
    show "linked_account account d' = Some la" using linked linked_transfer [OF l'(1)] by simp
    show "entries d' = entries d @ [x, y]" using en xy by simp
    show "opening_entry d' (la_id la) x" by (simp add: opening_entry_def x gt g4 ty)
  qed (use old assms(2,3) keep ids y in \<open>auto simp: books_ok_def\<close>)
  moreover have "chart_ok d'" "names_apart account d'"
    using chart_ok_transfer [OF c2 l'(1-3)] names_apart_transfer [OF na2 l'(1)] by simp_all
  moreover have "get_tx d' (tx_id t) = Some t" "tx_status t = CONFIRMED" by (simp_all add: t k gt g4) (simp add: tc_def)
  ultimately show ?thesis
    using b' sx en l'(4) ty fresh_k by (simp add: t k)
qed

definition succeeds :: "'a result \<Rightarrow> bool" where
  "succeeds r = (case r of Inr _ \<Rightarrow> True | Inl _ \<Rightarrow> False)"

lemma succeeds_iff: "succeeds r \<longleftrightarrow> (\<exists>x. r = Inr x)"
  by (auto simp: succeeds_def split: sum.splits)

lemma sample_facts:
  "normalize_code ''KRW'' = ''KRW''" "is_supported ''KRW''" "next_code sample_db 5 EQUITY = ''3000''"
  by code_simp+

definition sample_equity :: ledger_account where
  "sample_equity = \<lparr>la_id = 100, la_chart = 5, la_user = 1, la_code = ''3000'',
     la_name_index = ''system-opening-balances'', la_type = EQUITY, la_normal_balance = CREDIT,
     la_parent = None, la_financial_account = None, la_is_system = True\<rparr>"

lemma sample_ensure:
  "ensure_ledger_account_for sample_account sample_db = Inr (sample_db, sample_asset)"
  "ensure_opening_balance_equity 1 sample_db =
     Inr (sample_db\<lparr>ledger_accounts := [sample_asset, sample_expense, sample_equity], next_id := 101\<rparr>, sample_equity)"
proof -
  show "ensure_ledger_account_for sample_account sample_db = Inr (sample_db, sample_asset)"
    by (simp add: ensure_ledger_account_for_def first_account_def sample_eval)
  have c: "ensure_chart 1 sample_db = (sample_db, \<lparr>ch_id = 5, ch_user = 1, ch_name_index = ''default-chart''\<rparr>)"
    by (simp add: ensure_chart_def DEFAULT_CHART_BLIND_INDEX_def sample_db_def)
  have f: "first_account (\<lambda>a. la_chart a = 5 \<and> la_parent a = None \<and>
      la_name_index a = OPENING_BALANCE_EQUITY_BLIND_INDEX) sample_db = None"
    by (simp add: first_account_None OPENING_BALANCE_EQUITY_BLIND_INDEX_def sample_eval)
  have e: "\<lparr>la_id = next_id sample_db, la_chart = 5, la_user = 1, la_code = ''3000'',
     la_name_index = OPENING_BALANCE_EQUITY_BLIND_INDEX, la_type = EQUITY, la_normal_balance = CREDIT,
     la_parent = None, la_financial_account = None, la_is_system = True\<rparr> = sample_equity"
    by (simp add: sample_equity_def OPENING_BALANCE_EQUITY_BLIND_INDEX_def sample_db_def)
  have l: "ledger_account_clean sample_db sample_equity"
    by (simp add: ledger_account_clean_def sample_equity_def chart_owner_def get_chart_def sample_db_def)
  have i: "insert_ledger_account sample_equity sample_db =
      Inr (sample_db\<lparr>ledger_accounts := [sample_asset, sample_expense, sample_equity], next_id := 101\<rparr>)"
    by (simp add: insert_ledger_account_def sample_equity_def sample_eval)
  show "ensure_opening_balance_equity 1 sample_db =
     Inr (sample_db\<lparr>ledger_accounts := [sample_asset, sample_expense, sample_equity], next_id := 101\<rparr>, sample_equity)"
    by (simp add: ensure_opening_balance_equity_def get_or_create_account_def c f sample_facts(3) e l i
        del: One_nat_def)
qed

definition sample_opening :: canonical_transaction where
  "sample_opening = (blank_tx 1 \<lparr>amount_minor = 2400000, currency = ''KRW''\<rparr>)\<lparr>tx_id := 101, tx_occurred_at := 100,
     tx_type := T_OPENING_BALANCE, tx_financial_account := 10, tx_status := CONFIRMED, tx_reviewed_by := Some 1\<rparr>"

lemma sample_opening_runs: "\<exists>r. post_opening_balance sample_account 1 None sample_db = Inr r"
proof -
  define d2 where "d2 = sample_db\<lparr>ledger_accounts := [sample_asset, sample_expense, sample_equity], next_id := 101\<rparr>"
  define t0 where "t0 = sample_opening\<lparr>tx_id := 0, tx_status := DRAFT, tx_reviewed_by := None\<rparr>"
  define d3 where "d3 = fst (insert_tx t0 d2)"
  have m: "Money \<bar>2400000\<bar> (fa_currency sample_account) = Inr \<lparr>amount_minor = 2400000, currency = ''KRW''\<rparr>"
    by (simp add: Money_def sample_account_def)
  have o: "opening_tx sample_account 1 \<lparr>amount_minor = 2400000, currency = ''KRW''\<rparr> 100 = t0"
    by (simp add: opening_tx_def t0_def sample_opening_def blank_tx_def sample_account_def)
  have ok: "tx_fields_ok d (sample_opening\<lparr>tx_id := i, tx_status := s, tx_reviewed_by := r\<rparr>) \<and>
      tx_relations_ok d (sample_opening\<lparr>tx_id := i, tx_status := s, tx_reviewed_by := r\<rparr>)"
    if "users d = [1, 2]" "accounts d = [sample_account]" "r \<in> {None, Some 1}" for d i s r
    using that by (auto simp: tx_fields_ok_def tx_relations_ok_def sample_opening_def blank_tx_def owned_def
        get_account_def sample_account_def)
  have d2: "users d2 = [1, 2]" "accounts d2 = [sample_account]" by (simp_all add: d2_def sample_db_def)
  have cur: "tx_currency (sample_opening\<lparr>tx_id := i, tx_status := s, tx_reviewed_by := r\<rparr>) = ''KRW''" for i s r
    by (simp add: sample_opening_def blank_tx_def)
  have cl: "tx_full_clean d2 t0 = Inr t0"
    using ok [OF d2, of None DRAFT 0] sample_facts(1,2)
    by (simp add: full_clean_Inr t0_def cur)
  have sv: "save_tx t0 d2 = Inr (d3, t0\<lparr>tx_id := 101\<rparr>)"
    by (simp add: Let_def save_tx_def d3_def insert_tx_def t0_def sample_opening_def blank_tx_def d2_def)
  have d3: "users d3 = [1, 2]" "accounts d3 = [sample_account]" "entries d3 = []"
    by (simp_all add: Let_def d3_def insert_tx_def d2_def sample_db_def empty_db_def)
  have g3: "get_tx d3 101 = Some (t0\<lparr>tx_id := 101\<rparr>)"
    by (simp add: Let_def d3_def insert_tx_def d2_def get_tx_def sample_eval)
  have "sample_opening = sample_opening\<lparr>tx_id := 101, tx_status := CONFIRMED, tx_reviewed_by := Some 1\<rparr>"
    by (simp add: sample_opening_def)
  then have v: "validate_transaction_invariants d3 sample_opening = Inr sample_opening"
    using ok [OF d3(1,2), of "Some 1" CONFIRMED 101] sample_facts(1,2) cur [of "Some 1" CONFIRMED 101]
    by (simp add: validate_Inr full_clean_Inr) (simp add: sample_opening_def blank_tx_def)
  have t0: "t0\<lparr>tx_id := 101, tx_status := CONFIRMED, tx_reviewed_by := Some 1\<rparr> = sample_opening"
    "tx_user t0 = 1" "tx_status t0 = DRAFT"
    by (simp_all add: t0_def sample_opening_def blank_tx_def)
  define d4 where "d4 = (put_tx sample_opening d3)\<lparr>audits := audits d3 @ [\<lparr>au_user = 1, au_event = TRANSACTION_ACCEPTED,
     au_object = Some 101, au_metadata = [(''status'', MStr ''confirmed''), (''previous_status'', MStr ''draft'')]\<rparr>]\<rparr>"
  have tr: "transition_transaction_status 101 1 ''confirmed'' d3 = Inr (d4, sample_opening)"
    by (simp add: transition_transaction_status_def owned_tx_def g3 t0 v parse_status_def tx_allowed_def
        record_audit_event_def d3 d4_def del: One_nat_def)
  let ?ps = "[\<lparr>po_account = sample_asset, po_type = DEBIT, po_amount = \<lparr>amount_minor = 2400000, currency = ''KRW''\<rparr>\<rparr>,
      \<lparr>po_account = sample_equity, po_type = CREDIT, po_amount = \<lparr>amount_minor = 2400000, currency = ''KRW''\<rparr>\<rparr>]"
  have "get_tx d4 101 = Some sample_opening"
    using get_tx_put [of d3 sample_opening] g3 by (simp add: d4_def) (simp add: sample_opening_def)
  then have "postable d4 sample_opening ?ps"
    using d3(3) by (simp add: postable_def posting_ok_def posted_side_def is_posted_def d4_def)
      (simp add: sample_opening_def blank_tx_def sample_asset_def sample_equity_def)
  then obtain r where po: "post_balanced_transaction sample_opening ?ps d4 = Inr r" by (auto simp: post_balanced_Inr)
  have posted: "posted_opening_balance_minor sample_account sample_db = 0"
    by (simp add: posted_opening_balance_minor_def linked_account_def first_account_def sample_eval)
  have pp: "post_pair sample_account 1 2400000 100 sample_db = Inr (fst r, sample_opening)"
  proof -
    have "tx_id (t0\<lparr>tx_id := 101\<rparr>) = 101" "la_normal_balance sample_asset = DEBIT" by (simp_all add: sample_asset_def)
    then show ?thesis
      unfolding post_pair_def m
      by (simp add: sample_ensure o d2_def [symmetric] cl sv tr po split_beta Let_def del: One_nat_def)
  qed
  have u: "1 \<in> set (users (fst r))"
    using po d3(1) by (auto simp: post_balanced_Inr bulk_create_def Let_def d4_def)
  have acc: "fa_user sample_account = 1" "fa_opening_balance sample_account = Some \<lparr>amount_minor = 2400000, currency = ''KRW''\<rparr>"
    "fa_currency sample_account = ''KRW''" "fa_created_at sample_account = 100"
    by (simp_all add: sample_account_def)
  show ?thesis
    by (simp add: post_opening_balance_def acc posted pp record_audit_event_def u del: One_nat_def)
qed

lemma sample_opening_hyps: "chart_ok sample_db" "names_apart sample_account sample_db"
proof -
  show "chart_ok sample_db"
    by (simp add: sample_eval chart_ok_def table_ok_def keys_def la_key_def chart_owner_def get_chart_def)
  show "names_apart sample_account sample_db"
    by (simp add: names_apart_def OPENING_BALANCE_EQUITY_BLIND_INDEX_def sample_eval)
qed

lemma posted_frame:
  assumes "entries d' = entries d" "transactions d' = transactions d" "ledger_accounts d' = ledger_accounts d"
  shows "posted_opening_balance_minor x d' = posted_opening_balance_minor x d"
proof -
  have "opening_entry d' = opening_entry d"
    by (simp add: opening_entry_def get_tx_def assms(2) fun_eq_iff)
  then show ?thesis
    using assms by (simp add: posted_opening_balance_minor_def linked_account_def first_account_def cong: option.case_cong)
qed

section \<open>Properties\<close>

text \<open>
  C8. An opening balance is posted once: a successful \<open>post_opening_balance\<close> leaves the books and
  the chart correct. It posts nothing for an absent or zero balance; otherwise nothing had been
  posted before, it adds two entries after the existing ones, the ledger then shows exactly the
  recorded figure for the account, and a second attempt is refused.
\<close>

theorem opening_balance_posted_once:
  assumes "post_opening_balance account user day d = Inr (d', r)"
    and "books_ok d" "chart_ok d" "names_apart account d"
  shows "books_ok d' \<and> chart_ok d' \<and>
    (case op_transaction r of
       None \<Rightarrow> d' = d \<and> (fa_opening_balance account = None \<or> amount_minor (the (fa_opening_balance account)) = 0)
     | Some t \<Rightarrow>
         posted_opening_balance_minor account d = 0 \<and>
         posted_opening_balance_minor account d' = amount_minor (the (fa_opening_balance account)) \<and>
         (\<exists>new. entries d' = entries d @ new \<and> length new = 2) \<and> get_tx d' (tx_id t) = Some t \<and>
         post_opening_balance account user day2 d' = Inl InvalidRequestError)"
proof -
  have u: "fa_user account = user" using assms(1) by (simp add: post_opening_balance_def)
  consider "op_transaction r = None" "d' = d"
      "fa_opening_balance account = None \<or> amount_minor (the (fa_opening_balance account)) = 0"
    | m t d1 a cur where "fa_opening_balance account = Some m" "amount_minor m \<noteq> 0" "op_transaction r = Some t"
      "Currency (fa_currency account) = Inr cur" "currency m = cur"
      "posted_opening_balance_minor account d = 0"
      "post_pair account user (amount_minor m) (case day of Some x \<Rightarrow> x | None \<Rightarrow> fa_created_at account) d = Inr (d1, t)"
      "d' = d1\<lparr>audits := a\<rparr>"
    using assms(1) u
    by (auto simp: post_opening_balance_def record_audit_event_Inr split: option.splits if_splits)
  then show ?thesis
  proof cases
    case 1
    then show ?thesis using assms by simp
  next
    case (2 m t d1 a cur)
    from post_pair_effect [OF 2(7) assms(2-4) 2(2) u] obtain new where e: "books_ok d1" "chart_ok d1"
      "posted_opening_balance_minor account d1 = posted_opening_balance_minor account d + amount_minor m"
      "entries d1 = entries d @ new" "length new = 2" "accounts d1 = accounts d"
      "get_tx d1 (tx_id t) = Some t" by blast
    have p: "posted_opening_balance_minor account d' = posted_opening_balance_minor account d1"
      by (rule posted_frame) (simp_all add: 2(8))
    have c: "chart_ok d'" by (rule chart_ok_transfer [OF e(2)]) (simp_all add: 2(8))
    have posted: "posted_opening_balance_minor account d' = amount_minor m" using p e(3) 2(6) by simp
    then have "post_opening_balance account user day2 d' = Inl InvalidRequestError"
      using 2(1,2,4,5) u by (simp add: post_opening_balance_def)
    moreover have "books_ok d'" "\<exists>new. entries d' = entries d @ new \<and> length new = 2" "get_tx d' (tx_id t) = Some t"
      using e by (simp_all add: 2(8))
    ultimately show ?thesis
      unfolding 2(1,3) option.case option.sel using posted c 2(6) by blast
  qed
qed

theorem opening_balance_posted_once_witness:
  "\<exists>d' r. post_opening_balance sample_account 1 None sample_db = Inr (d', r) \<and> books_ok d' \<and>
     (op_transaction r \<noteq> None \<longrightarrow> posted_opening_balance_minor sample_account d' = 2400000)"
proof -
  obtain d' r where r: "post_opening_balance sample_account 1 None sample_db = Inr (d', r)"
    using sample_opening_runs by (metis surj_pair)
  show ?thesis
    using opening_balance_posted_once [OF r sample_books_ok sample_opening_hyps] r
    by (auto simp: sample_account_def)
qed

lemma posted_put_account:
  "posted_opening_balance_minor x (put_account a d) = posted_opening_balance_minor x d"
  by (rule posted_frame) (simp_all add: put_account_def)

lemma posted_same_account:
  "fa_id a = fa_id b \<Longrightarrow> posted_opening_balance_minor a d = posted_opening_balance_minor b d"
  by (simp add: posted_opening_balance_minor_def linked_account_def)

lemma put_account_ok:
  "books_ok (put_account a d) = books_ok d" "chart_ok d \<Longrightarrow> fa_user a = u \<Longrightarrow> chart_ok (put_account a d)"
  "names_apart b (put_account a d) = names_apart b d" "entries (put_account a d) = entries d"
  by (simp_all add: put_account_def books_ok_def ledger_ok_def origins_ok_def names_apart_def chart_ok_def
      chart_owner_def get_chart_def cong: list.pred_cong)
    (simp add: list_all_iff entry_ok_def get_tx_def get_ledger_account_def)

text \<open>
  Correcting an opening balance gets to the corrected figure by adding: a successful
  \<open>correct_opening_balance\<close> makes the posted total of the account the corrected amount, keeps every
  earlier entry where it was, records the new figure on the account, and leaves the books and the
  chart correct; it requires a reason, the account's owner and the account's currency.
\<close>

theorem opening_balance_corrected:
  assumes "correct_opening_balance account user corrected reason day d = Inr (d', r)"
    and "books_ok d" "chart_ok d" "names_apart account d" "get_account d (fa_id account) = Some account"
  shows "posted_opening_balance_minor account d' = amount_minor corrected \<and>
    (\<exists>new. entries d' = entries d @ new) \<and> books_ok d' \<and> chart_ok d' \<and>
    get_account d' (fa_id account) = Some (account\<lparr>fa_opening_balance := Some corrected\<rparr>) \<and>
    op_signed_minor r = amount_minor corrected - posted_opening_balance_minor account d \<and>
    fa_user account = user \<and> strip reason \<noteq> [] \<and> Currency (fa_currency account) = Inr (currency corrected)"
proof -
  define account' where "account' = account\<lparr>fa_opening_balance := Some corrected\<rparr>"
  define d1 where "d1 = put_account account' d"
  define diff where "diff = amount_minor corrected - posted_opening_balance_minor account d"
  have guards: "fa_user account = user" "strip reason \<noteq> []" "Currency (fa_currency account) = Inr (currency corrected)"
    using assms(1) by (auto simp: correct_opening_balance_def)
  have rest: "(if diff = 0 then Inr (d1, \<lparr>op_transaction = None, op_signed_minor = 0, op_is_adjustment = True\<rparr>)
      else rbind (post_pair account' user diff day d1) (\<lambda>(d2, t).
            rbind (record_audit_event user OPENING_BALANCE_ADJUSTED (Some (fa_id account))
                [(''currency'', MStr (fa_currency account)), (''transaction_id'', MId (tx_id t)),
                 (''reason'', MStr (take 200 (strip reason)))] d2) (\<lambda>d3.
            Inr (d3, \<lparr>op_transaction = Some t, op_signed_minor = diff, op_is_adjustment = True\<rparr>)))) = Inr (d', r)"
    using assms(1) guards unfolding correct_opening_balance_def Let_def d1_def account'_def diff_def by simp
  have ok1: "books_ok d1" "chart_ok d1" "names_apart account' d1" "entries d1 = entries d"
    using assms(2-4) put_account_ok by (auto simp: d1_def account'_def names_apart_def put_account_def)
  have same: "posted_opening_balance_minor account x = posted_opening_balance_minor account' x" for x
    by (rule posted_same_account) (simp add: account'_def)
  have p1: "posted_opening_balance_minor account' d1 = posted_opening_balance_minor account d"
    by (simp add: d1_def posted_put_account same)
  have acc: "get_account d1 (fa_id account) = Some account'"
    using find_row_put_same [of fa_id "accounts d" account'] assms(5)
    by (simp add: d1_def get_account_def put_account_def account'_def)
  show ?thesis
  proof (cases "diff = 0")
    case True
    then have "d' = d1" "op_signed_minor r = 0" using rest by auto
    then show ?thesis
      using True ok1 acc p1 guards same by (auto simp: diff_def account'_def)
  next
    case False
    then obtain d2 t a where pp: "post_pair account' user diff day d1 = Inr (d2, t)"
      and d': "d' = d2\<lparr>audits := a\<rparr>" and r: "op_signed_minor r = diff"
      using rest by (auto simp: record_audit_event_Inr)
    have "fa_user account' = user" using guards by (simp add: account'_def)
    from post_pair_effect [OF pp ok1(1-3) False this] obtain new where e: "books_ok d2" "chart_ok d2"
      "posted_opening_balance_minor account' d2 = posted_opening_balance_minor account' d1 + diff"
      "entries d2 = entries d1 @ new" "length new = 2" "accounts d2 = accounts d1"
      "get_tx d2 (tx_id t) = Some t" by blast
    have p: "posted_opening_balance_minor account' d' = posted_opening_balance_minor account' d2"
      by (rule posted_frame) (simp_all add: d')
    have "chart_ok d'" by (rule chart_ok_transfer [OF e(2)]) (simp_all add: d')
    moreover have "get_account d' (fa_id account) = Some account'"
      using e(6) acc by (simp add: d' get_account_def)
    moreover have "posted_opening_balance_minor account d' = amount_minor corrected"
      unfolding same p e(3) p1 diff_def by simp
    moreover have "\<exists>new. entries d' = entries d @ new" "books_ok d'"
      using e(1,4) ok1(4) by (auto simp: d')
    ultimately show ?thesis
      using r guards unfolding diff_def account'_def by blast
  qed
qed

theorem opening_balance_corrected_witness:
  "\<exists>d' r. correct_opening_balance sample_account 1 \<lparr>amount_minor = 0, currency = ''KRW''\<rparr> ''empty after all'' 120 sample_db
       = Inr (d', r) \<and> posted_opening_balance_minor sample_account d' = 0"
proof -
  have p: "posted_opening_balance_minor sample_account sample_db = 0"
    by (simp add: posted_opening_balance_minor_def linked_account_def first_account_def sample_eval)
  have "strip ''empty after all'' \<noteq> []" by code_simp
  then obtain d' r where r: "correct_opening_balance sample_account 1 \<lparr>amount_minor = 0, currency = ''KRW''\<rparr>
      ''empty after all'' 120 sample_db = Inr (d', r)"
    using p by (simp add: correct_opening_balance_def) (simp add: sample_account_def)
  have g: "get_account sample_db (fa_id sample_account) = Some sample_account"
    by (simp add: get_account_def sample_db_def sample_account_def)
  show ?thesis
    using opening_balance_corrected [OF r sample_books_ok sample_opening_hyps g] r by auto
qed

end
