(* ===== verification/Documents.thy ===== *)
theory Documents
  imports Lifecycle PyText
begin

text \<open>
  Uploaded screenshots: the error catalogue and retry policy (\<open>core/errors.py\<close>,
  \<open>processing/retry.py\<close>), the document state machine (\<open>processing/state.py\<close>), the private file
  storage and its cleanup (\<open>storage.py\<close>, \<open>cleanup.py\<close>), upload, retention and deletion
  (\<open>validation.py\<close>, \<open>upload_services.py\<close>, \<open>retention.py\<close>), and the reviewer's overrides
  (\<open>overrides.py\<close>). Times are microseconds.
\<close>

section \<open>Error codes and retries\<close>

text \<open>\<open>ERROR_CATALOGUE\<close>: code, \<open>retryable\<close>, HTTP status; the wording is left out.\<close>

definition ERROR_CATALOGUE :: "(string \<times> bool \<times> nat) list" where
  "ERROR_CATALOGUE =
     [(''APPLICATION_ERROR'', False, 400), (''UNKNOWN_ERROR'', False, 500),
      (''INVALID_REQUEST'', False, 400), (''RESOURCE_NOT_FOUND'', False, 404),
      (''FORBIDDEN'', False, 403), (''CONFLICT'', False, 409),
      (''INTERNAL_SERVER_ERROR'', False, 500), (''DUPLICATE_UPLOAD'', False, 400),
      (''FILE_TOO_LARGE'', False, 400), (''INVALID_FILE_TYPE'', False, 400),
      (''IMAGE_DECODE_FAILED'', False, 400), (''IMAGE_DIMENSIONS_TOO_LARGE'', False, 400),
      (''TEMP_STORAGE_FAILED'', True, 400), (''CLEANUP_FAILED'', False, 400),
      (''DOCUMENT_NOT_FOUND'', False, 404), (''DOCUMENT_PROCESSING_FAILED'', False, 400),
      (''TEMP_PATH_INVALID'', False, 400), (''TEMP_FILE_MISSING'', False, 400),
      (''UNSUPPORTED_TASK'', False, 400), (''UNHANDLED_ERROR'', True, 400),
      (''TASK_TIMEOUT'', True, 400), (''OCR_CONFIGURATION_INVALID'', False, 400),
      (''LANGUAGE_PACK_MISSING'', False, 400), (''OCR_ENGINE_FAILED'', True, 400),
      (''OCR_ENGINE_CRASHED'', True, 400), (''OCR_ENGINE_TIMEOUT'', True, 400),
      (''OCR_RESOURCE_EXHAUSTED'', True, 400), (''OCR_ALL_ENGINES_FAILED'', True, 400),
      (''OCR_PARSE_HANDOFF_FAILED'', False, 400), (''OCR_TIMEOUT'', True, 400),
      (''ENGINE_TIMEOUT'', True, 400), (''PADDLEOCR_FAILED'', True, 400),
      (''TESSERACT_FAILED'', True, 400), (''NO_TEXT_DETECTED'', False, 400),
      (''PARSER_FAILED'', False, 400), (''PARSER_NOT_FOUND'', False, 400),
      (''RETRYABLE_ERROR'', True, 400), (''PERMANENT_ERROR'', False, 400),
      (''DATABASE_CONNECTION_FAILED'', True, 503), (''DATABASE_POOL_EXHAUSTED'', True, 503),
      (''DATABASE_WRITE_FAILED'', True, 400), (''DECRYPTION_FAILED'', True, 400),
      (''ENCRYPTION_FAILED'', True, 400), (''OBSERVATION_IMPORT_FAILED'', False, 400),
      (''OBSERVATION_ACTION_INVALID'', False, 400), (''REPROCESS_NOT_ALLOWED'', False, 400),
      (''RECONCILIATION_INVALID'', False, 400), (''CURRENCY_MISMATCH'', False, 400),
      (''INVALID_CURRENCY'', False, 400), (''INVALID_MONEY'', False, 400),
      (''INVALID_DATE'', False, 400), (''INVALID_DATE_CONTEXT'', False, 400),
      (''BLIND_INDEX_FAILED'', False, 400), (''INVALID_CIPHERTEXT'', False, 400),
      (''MALFORMED_PAYLOAD'', False, 400), (''KEY_MANAGEMENT_FAILED'', False, 400),
      (''BACKUP_FAILED'', False, 400), (''EXPORT_FAILED'', False, 400)]"

definition RETRYABLE_ERROR_CODES :: "string list" where
  "RETRYABLE_ERROR_CODES = map fst (filter (\<lambda>(_, retryable, _). retryable) ERROR_CATALOGUE)"

definition TERMINAL_ERROR_CODES :: "string list" where
  "TERMINAL_ERROR_CODES = map fst (filter (\<lambda>(_, retryable, _). \<not> retryable) ERROR_CATALOGUE)"

definition normalized_code :: "string \<Rightarrow> string" where
  "normalized_code err = upper (strip err)"

definition is_retryable_error :: "string \<Rightarrow> bool" where
  "is_retryable_error err =
     (if normalized_code err \<in> set TERMINAL_ERROR_CODES then False
      else normalized_code err \<in> set RETRYABLE_ERROR_CODES)"

text \<open>
  \<open>timedelta(seconds=x)\<close> rounds to whole microseconds, half to even. The floats of
  \<open>retry_delay\<close> are rationals here: its base is a power of two, which a float holds exactly,
  and \<open>2 ** 1024\<close> is where \<open>1.0 * 2 ** n\<close> overflows.
\<close>

definition BACKOFF_INITIAL_SECONDS :: rat where "BACKOFF_INITIAL_SECONDS = 1"
definition BACKOFF_MAX_SECONDS :: rat where "BACKOFF_MAX_SECONDS = 300"
definition BACKOFF_JITTER_FRACTION :: rat where "BACKOFF_JITTER_FRACTION = 1 / 4"

definition round_half_even :: "rat \<Rightarrow> int" where
  "round_half_even x =
     (let f = \<lfloor>x\<rfloor>; r = x - of_int f in
      if r < 1 / 2 \<or> r = 1 / 2 \<and> even f then f else f + 1)"

definition timedelta_seconds :: "rat \<Rightarrow> int" where
  "timedelta_seconds x = round_half_even (x * 1000000)"

definition backoff_base :: "nat \<Rightarrow> rat" where
  "backoff_base n = min BACKOFF_MAX_SECONDS (BACKOFF_INITIAL_SECONDS * 2 ^ (n - 1))"

definition retry_delay :: "(rat \<Rightarrow> rat \<Rightarrow> rat) \<Rightarrow> nat \<Rightarrow> int result" where
  "retry_delay jitter n =
     raise_if (n < 1) ValueError
     (raise_if (1024 < n) OverflowError
     (let base = backoff_base n;
          jitter_limit = min (base * BACKOFF_JITTER_FRACTION) (max (BACKOFF_MAX_SECONDS - base) 0);
          jitter_seconds = min (max (jitter 0 jitter_limit) 0) jitter_limit
      in Inr (timedelta_seconds (min (base + jitter_seconds) BACKOFF_MAX_SECONDS))))"

section \<open>The state machine\<close>

fun ALLOWED_DOCUMENT_TRANSITIONS :: "document_status \<Rightarrow> document_status list" where
  "ALLOWED_DOCUMENT_TRANSITIONS PENDING = [VALIDATING, DELETED]"
| "ALLOWED_DOCUMENT_TRANSITIONS VALIDATING = [QUEUED, PREPROCESSING, FAILED, DELETED]"
| "ALLOWED_DOCUMENT_TRANSITIONS QUEUED = [VALIDATING, FAILED, DELETED]"
| "ALLOWED_DOCUMENT_TRANSITIONS PREPROCESSING = [OCR_RUNNING, FAILED, DELETED]"
| "ALLOWED_DOCUMENT_TRANSITIONS OCR_RUNNING = [PARSING, FAILED, DELETED]"
| "ALLOWED_DOCUMENT_TRANSITIONS PARSING = [READY_FOR_REVIEW, FAILED, DELETED]"
| "ALLOWED_DOCUMENT_TRANSITIONS READY_FOR_REVIEW = [DOC_CONFIRMED, FAILED, DELETED, QUEUED]"
| "ALLOWED_DOCUMENT_TRANSITIONS DOC_CONFIRMED = [DELETED, QUEUED]"
| "ALLOWED_DOCUMENT_TRANSITIONS FAILED = [QUEUED, DELETED]"
| "ALLOWED_DOCUMENT_TRANSITIONS DELETED = []"

definition doc_allowed :: "document_status \<Rightarrow> document_status \<Rightarrow> bool" where
  "doc_allowed s s' = (s' \<in> set (ALLOWED_DOCUMENT_TRANSITIONS s))"

definition owned_document :: "db \<Rightarrow> id \<Rightarrow> id \<Rightarrow> source_document option" where
  "owned_document d k user =
     (case get_document d k of None \<Rightarrow> None | Some r \<Rightarrow> if doc_user r = user then Some r else None)"

text \<open>What a move writes beside the status.\<close>

fun stamp_document :: "int \<Rightarrow> document_status \<Rightarrow> string \<Rightarrow> source_document \<Rightarrow> source_document" where
  "stamp_document now VALIDATING err r =
     r\<lparr>doc_attempt_count := Suc (doc_attempt_count r), doc_processing_started_at := Some now,
       doc_error_code := []\<rparr>"
| "stamp_document now QUEUED err r = r\<lparr>doc_next_attempt_at := Some now\<rparr>"
| "stamp_document now PREPROCESSING err r = r\<lparr>doc_next_attempt_at := None\<rparr>"
| "stamp_document now READY_FOR_REVIEW err r = r\<lparr>doc_processing_completed_at := Some now\<rparr>"
| "stamp_document now DOC_CONFIRMED err r = r\<lparr>doc_processing_completed_at := Some now\<rparr>"
| "stamp_document now DELETED err r =
     r\<lparr>doc_processing_completed_at := Some now, doc_original_deleted_at := Some now\<rparr>"
| "stamp_document now FAILED err r =
     r\<lparr>doc_error_code := take 64 (normalized_code err), doc_processing_completed_at := Some now,
       doc_next_attempt_at := None\<rparr>"
| "stamp_document now PENDING err r = r"
| "stamp_document now OCR_RUNNING err r = r"
| "stamp_document now PARSING err r = r"

definition transition_document ::
  "int \<Rightarrow> id \<Rightarrow> id \<Rightarrow> document_status \<Rightarrow> string \<Rightarrow> db \<Rightarrow> (db \<times> source_document) result" where
  "transition_document now k user status err d =
     (case owned_document d k user of
        None \<Rightarrow> Inl InvalidRequestError
      | Some r \<Rightarrow>
          raise_if (\<not> doc_allowed (doc_status r) status) ConflictError
          (let r' = stamp_document now status err (r\<lparr>doc_status := status\<rparr>)
           in Inr (put_document r' d, r')))"

section \<open>Files\<close>

text \<open>
  The world of a worker: the database and the temporary root, as the list of the documents and
  paths of the stored screenshots; a document's directory exists while it holds a file. What the
  operating system decides is a parameter: whether a path resolves inside the document's
  directory without a symbolic link (\<open>safe_document_path\<close>), and whether \<open>rmtree\<close> succeeds.
\<close>

record world =
  data :: db
  files :: "(id \<times> string) list"

record file_system =
  safe_path :: "id \<Rightarrow> string \<Rightarrow> bool"
  removable :: "id \<Rightarrow> bool"

definition directory_exists :: "world \<Rightarrow> id \<Rightarrow> bool" where
  "directory_exists w k = (k \<in> fst ` set (files w))"

definition set_cleanup_code :: "id \<Rightarrow> string \<Rightarrow> db \<Rightarrow> db" where
  "set_cleanup_code k err d =
     (case get_document d k of
        None \<Rightarrow> d | Some r \<Rightarrow> put_document (r\<lparr>doc_cleanup_error_code := err\<rparr>) d)"

definition cleanup_document_storage ::
  "file_system \<Rightarrow> id \<Rightarrow> string \<Rightarrow> world \<Rightarrow> world \<times> bool" where
  "cleanup_document_storage fs k path w =
     (if path = [] then (w, True)
      else if \<not> safe_path fs k path \<or> directory_exists w k \<and> \<not> removable fs k
      then (w\<lparr>data := set_cleanup_code k ''CLEANUP_FAILED'' (data w)\<rparr>, False)
      else (\<lparr>data = set_cleanup_code k [] (data w),
             files = filter (\<lambda>(j, _). j \<noteq> k) (files w)\<rparr>, True))"

section \<open>Retention and deletion\<close>

fun RETENTION_DAYS :: "retention_policy \<Rightarrow> int" where
  "RETENTION_DAYS IMMEDIATE = 0"
| "RETENTION_DAYS ONE_DAY = 1"
| "RETENTION_DAYS SEVEN_DAYS = 7"
| "RETENTION_DAYS THIRTY_DAYS = 30"

fun retention_value :: "retention_policy \<Rightarrow> string" where
  "retention_value IMMEDIATE = ''immediate''"
| "retention_value ONE_DAY = ''one_day''"
| "retention_value SEVEN_DAYS = ''seven_days''"
| "retention_value THIRTY_DAYS = ''thirty_days''"

definition parse_retention :: "string \<Rightarrow> retention_policy option" where
  "parse_retention p = find (\<lambda>r. retention_value r = p) [IMMEDIATE, ONE_DAY, SEVEN_DAYS, THIRTY_DAYS]"

definition microseconds_per_day :: int where
  "microseconds_per_day = 24 * 60 * 60 * 1000000"

definition retention_deadline :: "string \<Rightarrow> int option \<Rightarrow> int \<Rightarrow> int result" where
  "retention_deadline policy uploaded_at now =
     (case parse_retention policy of
        None \<Rightarrow> Inl InvalidRequestError
      | Some p \<Rightarrow>
          Inr ((case uploaded_at of None \<Rightarrow> now | Some t \<Rightarrow> t) + RETENTION_DAYS p * microseconds_per_day))"

text \<open>
  Services that touch files return the world also when they raise: the rollback restores the
  database, and what was removed from the disk stays removed.
\<close>

definition delete_document ::
  "file_system \<Rightarrow> int \<Rightarrow> id \<Rightarrow> id \<Rightarrow> world \<Rightarrow> world \<times> source_document result" where
  "delete_document fs now k user w =
     (case owned_document (data w) k user of
        None \<Rightarrow> (w, Inl InvalidRequestError)
      | Some r \<Rightarrow>
          if doc_status r = DELETED then (w, Inr r)
          else
            (let w1 = fst (cleanup_document_storage fs k (doc_temporary_path r) w) in
             case rbind (transition_document now k user DELETED [] (data w1)) (\<lambda>(d2, r2).
                  rbind (record_audit_event user SCREENSHOT_DELETED (Some k)
                           [(''retention_policy'', MStr (retention_value (doc_retention_policy r2)))] d2)
                    (\<lambda>d3. Inr (d3, r2))) of
               Inl e \<Rightarrow> (w1\<lparr>data := data w\<rparr>, Inl e)
             | Inr (d3, r2) \<Rightarrow> (w1\<lparr>data := d3\<rparr>, Inr r2)))"

definition expirable :: "int \<Rightarrow> source_document \<Rightarrow> bool" where
  "expirable cutoff r =
     ((case doc_retention_deadline r of None \<Rightarrow> False | Some t \<Rightarrow> t \<le> cutoff) \<and>
      doc_status r \<in> {READY_FOR_REVIEW, DOC_CONFIRMED, FAILED})"

fun delete_all ::
  "file_system \<Rightarrow> int \<Rightarrow> source_document list \<Rightarrow> nat \<Rightarrow> world \<Rightarrow> world \<times> nat result" where
  "delete_all fs now [] n w = (w, Inr n)"
| "delete_all fs now (r # rs) n w =
     (case delete_document fs now (doc_id r) (doc_user r) w of
        (w1, Inl e) \<Rightarrow> (w1, Inl e)
      | (w1, Inr _) \<Rightarrow> delete_all fs now rs (Suc n) w1)"

definition expire_documents :: "file_system \<Rightarrow> int \<Rightarrow> int \<Rightarrow> world \<Rightarrow> world \<times> nat result" where
  "expire_documents fs now cutoff w =
     (case delete_all fs now (filter (expirable cutoff) (documents (data w))) 0 w of
        (w1, Inl e) \<Rightarrow> (w1\<lparr>data := data w\<rparr>, Inl e)
      | ok \<Rightarrow> ok)"

section \<open>Overrides\<close>

fun source_type_value :: "source_type \<Rightarrow> string" where
  "source_type_value BANK_TRANSACTION_LIST = ''bank_transaction_list''"
| "source_type_value BANK_TRANSACTION_DETAIL = ''bank_transaction_detail''"
| "source_type_value BANK_TRANSFER_CONFIRMATION = ''bank_transfer_confirmation''"
| "source_type_value CARD_TRANSACTION_LIST = ''card_transaction_list''"
| "source_type_value CARD_TRANSACTION_DETAIL = ''card_transaction_detail''"
| "source_type_value CREDIT_CARD_STATEMENT = ''credit_card_statement''"
| "source_type_value CREDIT_CARD_PAYMENT_SCREEN = ''credit_card_payment''"
| "source_type_value UNKNOWN_SOURCE = ''unknown''"

definition source_types :: "source_type list" where
  "source_types =
     [BANK_TRANSACTION_LIST, BANK_TRANSACTION_DETAIL, BANK_TRANSFER_CONFIRMATION,
      CARD_TRANSACTION_LIST, CARD_TRANSACTION_DETAIL, CREDIT_CARD_STATEMENT,
      CREDIT_CARD_PAYMENT_SCREEN, UNKNOWN_SOURCE]"

definition institution_names :: "string list" where
  "institution_names =
     [''hyundai_card'', ''kakao_bank'', ''kb_bank'', ''samsung_card'', ''shinhan_bank'', ''toss_bank'']"

definition effective_source_type :: "source_document \<Rightarrow> source_type" where
  "effective_source_type r =
     (case doc_source_type_override r of Some t \<Rightarrow> t | None \<Rightarrow> doc_source_type r)"

definition has_overrides :: "source_document \<Rightarrow> bool" where
  "has_overrides r = (doc_source_type_override r \<noteq> None \<or> doc_institution_override r \<noteq> [])"

definition validated_source_type :: "string \<Rightarrow> source_type option result" where
  "validated_source_type v =
     (if strip v = [] then Inr None
      else case find (\<lambda>t. source_type_value t = strip v) source_types of
             None \<Rightarrow> Inl OverrideError | Some t \<Rightarrow> Inr (Some t))"

definition validated_institution :: "string \<Rightarrow> string result" where
  "validated_institution v =
     (if strip v = [] then Inr []
      else raise_if (strip v \<notin> set institution_names) OverrideError (Inr (strip v)))"

record override_change =
  oc_document :: source_document
  oc_previous_source_type :: "source_type option"
  oc_previous_institution :: string

definition cleared :: "override_change \<Rightarrow> bool" where
  "cleared c =
     (\<not> has_overrides (oc_document c) \<and>
      (oc_previous_source_type c \<noteq> None \<or> oc_previous_institution c \<noteq> []))"

definition changed :: "override_change \<Rightarrow> bool" where
  "changed c =
     (oc_previous_source_type c \<noteq> doc_source_type_override (oc_document c) \<or>
      oc_previous_institution c \<noteq> doc_institution_override (oc_document c))"

definition override_text :: "source_type option \<Rightarrow> string" where
  "override_text t = (case t of None \<Rightarrow> [] | Some t \<Rightarrow> source_type_value t)"

definition set_document_overrides ::
  "id \<Rightarrow> id \<Rightarrow> string \<Rightarrow> string \<Rightarrow> db \<Rightarrow> (db \<times> override_change) result" where
  "set_document_overrides k user source_type institution d =
     rbind (validated_source_type source_type) (\<lambda>st.
     rbind (validated_institution institution) (\<lambda>inst.
     case owned_document d k user of
       None \<Rightarrow> Inl ForbiddenError
     | Some r \<Rightarrow>
         (let before_st = doc_source_type_override r; before_inst = doc_institution_override r in
          if (before_st, before_inst) = (st, inst)
          then Inr (d, \<lparr>oc_document = r, oc_previous_source_type = before_st,
                        oc_previous_institution = before_inst\<rparr>)
          else
            (let r' = r\<lparr>doc_source_type_override := st, doc_institution_override := inst\<rparr>;
                 change = \<lparr>oc_document = r', oc_previous_source_type = before_st,
                           oc_previous_institution = before_inst\<rparr>
             in rbind (record_audit_event user
                         (if cleared change then DOCUMENT_OVERRIDE_CLEARED else DOCUMENT_OVERRIDE_SET)
                         (Some k)
                         [(''source_type_override'', MStr (override_text st)),
                          (''institution_override'', MStr inst),
                          (''previous_source_type_override'', MStr (override_text before_st)),
                          (''previous_institution_override'', MStr before_inst),
                          (''detected_source_type'', MStr (source_type_value (doc_source_type r)))]
                         (put_document r' d))
                  (\<lambda>d'. Inr (d', change))))))"

section \<open>Laws\<close>

lemmas get_document_id = document_table.get_pk
lemmas get_put_document = document_table.get_put

lemma owned_document_Some:
  "owned_document d k u = Some r \<longleftrightarrow> get_document d k = Some r \<and> doc_user r = u"
  by (auto simp: owned_document_def split: option.splits)

lemma stamp_document_fields [simp]:
  "doc_id (stamp_document now s err r) = doc_id r"
  "doc_user (stamp_document now s err r) = doc_user r"
  "doc_status (stamp_document now s err r) = doc_status r"
  "doc_temporary_path (stamp_document now s err r) = doc_temporary_path r"
  "doc_sha256 (stamp_document now s err r) = doc_sha256 r"
  by (cases s; simp)+

lemma transition_document_Inr:
  "transition_document now k u s err d = Inr (d', r') \<longleftrightarrow>
     (\<exists>r. get_document d k = Some r \<and> doc_user r = u \<and> doc_allowed (doc_status r) s \<and>
          r' = stamp_document now s err (r\<lparr>doc_status := s\<rparr>) \<and> d' = put_document r' d)"
  by (auto simp: transition_document_def owned_document_Some Let_def split: option.splits)
     (auto simp: owned_document_def split: option.splits if_splits)

lemma transition_document_get:
  assumes "transition_document now k u s err d = Inr (d', r')"
  shows "get_document d' j = (if j = k then Some r' else get_document d j)"
proof -
  obtain r where r: "get_document d k = Some r" "d' = put_document r' d"
      "r' = stamp_document now s err (r\<lparr>doc_status := s\<rparr>)"
    using assms unfolding transition_document_Inr by blast
  then have "doc_id r' = k" using get_document_id by fastforce
  then show ?thesis using get_put_document [of d r' r j] r by simp
qed

text \<open>The lifecycle interface on documents.\<close>

definition doc_move :: "int \<times> id \<Rightarrow> id \<Rightarrow> document_status \<Rightarrow> db \<Rightarrow> db result" where
  "doc_move a k s d =
     rbind (transition_document (fst a) k (snd a) s [] d) (\<lambda>(d', _). Inr d')"

interpretation doc_life: guarded_lifecycle get_document put_document doc_id doc_status doc_allowed doc_move
proof unfold_locales
  fix a k x d d'
  assume "doc_move a k x d = Inr d'"
  then obtain r' where t: "transition_document (fst a) k (snd a) x [] d = Inr (d', r')"
    by (auto simp: doc_move_def)
  then obtain r where "get_document d k = Some r" "doc_allowed (doc_status r) x" "doc_status r' = x"
    by (auto simp: transition_document_Inr)
  then show "\<exists>r r'. get_document d k = Some r \<and> doc_allowed (doc_status r) x \<and>
      get_document d' k = Some r' \<and> doc_status r' = x \<and>
      (\<forall>j. j \<noteq> k \<longrightarrow> get_document d' j = get_document d j)"
    using transition_document_get [OF t] by auto
qed

text \<open>What reaching a status takes: from \<open>doc_allowed\<close>, read off the table.\<close>

lemma doc_allowed_DELETED [simp]: "\<not> doc_allowed DELETED s"
  by (simp add: doc_allowed_def)

lemma doc_allowed_to_DELETED: "s \<noteq> DELETED \<Longrightarrow> doc_allowed s DELETED"
  by (cases s) (simp_all add: doc_allowed_def)

subsection \<open>Files\<close>

definition files_of :: "world \<Rightarrow> id \<Rightarrow> string list" where
  "files_of w k = map snd (filter (\<lambda>(j, _). j = k) (files w))"

lemma directory_exists_iff: "directory_exists w k \<longleftrightarrow> files_of w k \<noteq> []"
  by (force simp: directory_exists_def files_of_def filter_empty_conv)

lemma in_files_of: "(k, p) \<in> set (files w) \<longleftrightarrow> p \<in> set (files_of w k)"
  by (force simp: files_of_def)

lemma set_cleanup_code_get:
  "get_document (set_cleanup_code k c d) j =
     (if j = k then map_option (\<lambda>r. r\<lparr>doc_cleanup_error_code := c\<rparr>) (get_document d k)
      else get_document d j)"
proof (cases "get_document d k")
  case (Some r)
  then show ?thesis
    using get_put_document [of d "r\<lparr>doc_cleanup_error_code := c\<rparr>" r j]
    by (simp add: set_cleanup_code_def get_document_id)
qed (auto simp: set_cleanup_code_def)

lemma set_cleanup_code_other [simp]:
  "users (set_cleanup_code k c d) = users d" "jobs (set_cleanup_code k c d) = jobs d"
  "audits (set_cleanup_code k c d) = audits d"
  by (simp_all add: set_cleanup_code_def put_document_def split: option.splits)

lemma cleanup_files:
  assumes "cleanup_document_storage fs k path w = (w', ok)"
  shows "files_of w' j = (if ok \<and> j = k \<and> path \<noteq> [] then [] else files_of w j)"
proof -
  have "files_of \<lparr>data = d, files = filter (\<lambda>(i, _). i \<noteq> k) (files w)\<rparr> j =
      (if j = k then [] else files_of w j)" for d
    by (simp add: files_of_def case_prod_unfold)
       (metis (mono_tags, lifting) filter_cong)
  then show ?thesis
    using assms by (auto simp: cleanup_document_storage_def files_of_def Let_def split: if_splits)
qed

lemma cleanup_data:
  assumes "cleanup_document_storage fs k path w = (w', ok)"
  shows "data w' = data w \<or> (\<exists>c. data w' = set_cleanup_code k c (data w))"
  using assms by (auto simp: cleanup_document_storage_def split: if_splits)

subsection \<open>The delay before a retry\<close>

lemma round_half_even_mono: "x \<le> y \<Longrightarrow> round_half_even x \<le> round_half_even y"
proof -
  assume le: "x \<le> y"
  have up: "round_half_even z \<in> {\<lfloor>z\<rfloor>, \<lfloor>z\<rfloor> + 1}" for z :: rat
    by (simp add: round_half_even_def Let_def)
  show ?thesis
  proof (cases "\<lfloor>x\<rfloor> = \<lfloor>y\<rfloor>")
    case True
    then show ?thesis using le by (auto simp: round_half_even_def Let_def)
  next
    case False
    then have "\<lfloor>x\<rfloor> < \<lfloor>y\<rfloor>" using le floor_mono [OF le] by simp
    then show ?thesis using up [of x] up [of y] by auto
  qed
qed

lemma round_half_even_int [simp]: "round_half_even (of_int n) = n"
  by (simp add: round_half_even_def)

lemma timedelta_mono: "x \<le> y \<Longrightarrow> timedelta_seconds x \<le> timedelta_seconds y"
  by (auto simp: timedelta_seconds_def intro!: round_half_even_mono)

lemma timedelta_300: "timedelta_seconds BACKOFF_MAX_SECONDS = 300 * 1000000"
  using round_half_even_int [of 300000000]
  by (simp add: timedelta_seconds_def BACKOFF_MAX_SECONDS_def)

lemma retry_delay_within:
  assumes "1 \<le> n" "n \<le> 1024"
  shows "\<exists>t. retry_delay jitter n = Inr t \<and> timedelta_seconds (backoff_base n) \<le> t \<and>
    t \<le> timedelta_seconds (backoff_base n * (1 + BACKOFF_JITTER_FRACTION)) \<and> t \<le> 300 * 1000000"
proof -
  define base where "base = backoff_base n"
  define lim where "lim = min (base * BACKOFF_JITTER_FRACTION) (max (BACKOFF_MAX_SECONDS - base) 0)"
  define js where "js = min (max (jitter 0 lim) 0) lim"
  have base: "0 < base" "base \<le> BACKOFF_MAX_SECONDS"
    by (simp_all add: base_def backoff_base_def BACKOFF_MAX_SECONDS_def BACKOFF_INITIAL_SECONDS_def min_def)
  have "0 \<le> lim" "lim \<le> base * BACKOFF_JITTER_FRACTION"
    using base by (simp add: lim_def BACKOFF_JITTER_FRACTION_def, simp only: lim_def min.cobounded1)
  then have js: "0 \<le> js" "js \<le> base * BACKOFF_JITTER_FRACTION" by (simp_all add: js_def)
  let ?x = "min (base + js) BACKOFF_MAX_SECONDS"
  have "retry_delay jitter n = Inr (timedelta_seconds ?x)"
    using assms by (simp add: retry_delay_def Let_def base_def lim_def js_def)
  moreover have "base \<le> ?x" "?x \<le> base * (1 + BACKOFF_JITTER_FRACTION)" "?x \<le> BACKOFF_MAX_SECONDS"
    using base js by (auto simp: algebra_simps min_def)
  ultimately show ?thesis using timedelta_mono timedelta_300 by (metis base_def)
qed

text \<open>
  The delay before attempt \<open>n + 1\<close> is at least the exponential base, at most a quarter more,
  never above five minutes, and from the tenth attempt on exactly five minutes, whatever the
  jitter.
\<close>

theorem retry_delay_bounds:
  assumes "1 \<le> n" "n \<le> 1024"
  shows "\<exists>t. retry_delay jitter n = Inr t \<and> timedelta_seconds (backoff_base n) \<le> t \<and>
    t \<le> timedelta_seconds (backoff_base n * (1 + BACKOFF_JITTER_FRACTION)) \<and> t \<le> 300 * 1000000 \<and>
    (10 \<le> n \<longrightarrow> t = 300 * 1000000)"
proof -
  obtain t where t: "retry_delay jitter n = Inr t" "timedelta_seconds (backoff_base n) \<le> t"
    "t \<le> timedelta_seconds (backoff_base n * (1 + BACKOFF_JITTER_FRACTION))" "t \<le> 300 * 1000000"
    using retry_delay_within [OF assms] by blast
  have "t = 300 * 1000000" if "10 \<le> n"
  proof -
    have "(2::rat) ^ 9 \<le> 2 ^ (n - 1)" using that by (intro power_increasing) auto
    then have "backoff_base n = BACKOFF_MAX_SECONDS"
      by (simp add: backoff_base_def BACKOFF_MAX_SECONDS_def BACKOFF_INITIAL_SECONDS_def)
    then show ?thesis using t(2,4) timedelta_300 by simp
  qed
  then show ?thesis using t by blast
qed

theorem retry_delay_bounds_witness:
  "\<exists>t. retry_delay (\<lambda>lo hi. hi) 12 = Inr t \<and> t = 300 * 1000000"
  using retry_delay_bounds [of 12 "\<lambda>lo hi. hi"] by force


text \<open>A document waiting for review, with its file.\<close>

definition stored_document :: "id \<Rightarrow> document_status \<Rightarrow> source_document" where
  "stored_document k s =
     \<lparr>doc_id = k, doc_user = 1, doc_sha256 = ''aa'', doc_mime_type = ''image/png'',
      doc_file_size = 10, doc_source_type = UNKNOWN_SOURCE,
      doc_source_type_override = None, doc_institution_override = [], doc_status = s,
      doc_error_code = [], doc_cleanup_error_code = [], doc_temporary_path = ''/tmp/original.png'',
      doc_processing_started_at = None, doc_processing_completed_at = None,
      doc_attempt_count = 0, doc_next_attempt_at = None, doc_original_deleted_at = None,
      doc_retention_policy = IMMEDIATE, doc_retention_deadline = Some 9\<rparr>"

definition stored_db :: db where
  "stored_db = empty_db\<lparr>users := [1], documents := [stored_document 2 FAILED, stored_document 3 DELETED],
     next_id := 4\<rparr>"

lemmas stored_defs = stored_db_def stored_document_def empty_db_def get_document_def

lemma stored_moves:
  "\<exists>d'. doc_life.moves [((7, 1), 2, QUEUED), ((8, 1), 2, VALIDATING)] stored_db = Inr d'"
  by (simp add: doc_move_def transition_document_def owned_document_def stored_defs doc_allowed_def
      Let_def put_document_def put_row_def)


text \<open>
  Deleting an own document that has a stored file, for a known user, succeeds: the row is
  \<open>DELETED\<close>, stamped and audited; the file is gone, or the row says that the clean-up failed; every
  other document and file is untouched; and a second deletion changes nothing.
\<close>

theorem delete_document_effect:
  assumes "get_document (data w) k = Some r" "doc_user r = u" "doc_status r \<noteq> DELETED"
    and "u \<in> set (users (data w))" "doc_temporary_path r \<noteq> []"
  shows "\<exists>w' r'. delete_document fs now k u w = (w', Inr r') \<and>
    get_document (data w') k = Some r' \<and> doc_status r' = DELETED \<and>
    doc_original_deleted_at r' = Some now \<and>
    (files_of w' k = [] \<and> doc_cleanup_error_code r' = [] \<or>
     files_of w' k = files_of w k \<and> doc_cleanup_error_code r' = ''CLEANUP_FAILED'') \<and>
    (\<forall>j. j \<noteq> k \<longrightarrow> get_document (data w') j = get_document (data w) j \<and> files_of w' j = files_of w j) \<and>
    audits (data w') = audits (data w) @
      [\<lparr>au_user = u, au_event = SCREENSHOT_DELETED, au_object = Some k,
        au_metadata = [(''retention_policy'', MStr (retention_value (doc_retention_policy r)))]\<rparr>] \<and>
    delete_document fs later k u w' = (w', Inr r')"
proof -
  obtain w1 ok where c: "cleanup_document_storage fs k (doc_temporary_path r) w = (w1, ok)" by fastforce
  define r1 where "r1 = r\<lparr>doc_cleanup_error_code := if ok then [] else ''CLEANUP_FAILED''\<rparr>"
  have d1: "data w1 = set_cleanup_code k (if ok then [] else ''CLEANUP_FAILED'') (data w)"
    using c assms(5) by (auto simp: cleanup_document_storage_def split: if_splits)
  have g1: "get_document (data w1) j = (if j = k then Some r1 else get_document (data w) j)" for j
    using assms(1) by (simp add: d1 set_cleanup_code_get r1_def)
  define r2 where "r2 = stamp_document now DELETED [] (r1\<lparr>doc_status := DELETED\<rparr>)"
  have t: "transition_document now k u DELETED [] (data w1) = Inr (put_document r2 (data w1), r2)"
    using assms(2,3) doc_allowed_to_DELETED by (simp add: transition_document_Inr g1 r2_def r1_def)
  have users: "users (put_document r2 (data w1)) = users (data w)"
    by (simp add: put_document_def d1)
  define d3 where "d3 = (put_document r2 (data w1))\<lparr>audits := audits (data w) @
      [\<lparr>au_user = u, au_event = SCREENSHOT_DELETED, au_object = Some k,
        au_metadata = [(''retention_policy'', MStr (retention_value (doc_retention_policy r)))]\<rparr>]\<rparr>"
  have a: "record_audit_event u SCREENSHOT_DELETED (Some k)
      [(''retention_policy'', MStr (retention_value (doc_retention_policy r2)))] (put_document r2 (data w1)) = Inr d3"
    using assms(4) users by (simp add: record_audit_event_Inr d3_def r2_def r1_def put_document_def d1)
  have del: "delete_document fs now k u w = (w1\<lparr>data := d3\<rparr>, Inr r2)"
    using assms(1-3) c t a by (simp add: delete_document_def owned_document_def)
  have get: "get_document d3 j = (if j = k then Some r2 else get_document (data w) j)" for j
    using transition_document_get [OF t, of j] g1 by (simp add: d3_def get_document_def)
  have "delete_document fs later k u (w1\<lparr>data := d3\<rparr>) = (w1\<lparr>data := d3\<rparr>, Inr r2)"
    using get [of k] assms(2) by (simp add: delete_document_def owned_document_def r2_def r1_def)
  moreover have "files_of (w1\<lparr>data := d3\<rparr>) j = files_of w1 j" for j by (simp add: files_of_def)
  ultimately show ?thesis
    using del get cleanup_files [OF c] assms(5)
    by (intro exI [of _ "w1\<lparr>data := d3\<rparr>"] exI [of _ r2]) (auto simp: d3_def r2_def r1_def)
qed

definition stored_world :: world where
  "stored_world = \<lparr>data = stored_db, files = [(2, ''/tmp/original.png'')]\<rparr>"

definition plain_storage :: file_system where
  "plain_storage = \<lparr>safe_path = \<lambda>_ _. True, removable = \<lambda>_. True\<rparr>"

theorem delete_document_witness:
  "\<exists>w' r'. delete_document plain_storage 7 2 1 stored_world = (w', Inr r') \<and> doc_status r' = DELETED \<and>
     get_document (data w') 3 = Some (stored_document 3 DELETED)"
proof -
  have "get_document (data stored_world) 2 = Some (stored_document 2 FAILED)"
    "get_document (data stored_world) 3 = Some (stored_document 3 DELETED)"
    by (simp_all add: stored_world_def stored_defs)
  with delete_document_effect [of stored_world 2 "stored_document 2 FAILED" 1 plain_storage 7 8]
  show ?thesis by (fastforce simp: stored_world_def stored_db_def stored_document_def)
qed

end
