(* ===== verification/Jobs.thy ===== *)
theory Jobs
  imports Documents
begin

text \<open>
  The durable queue: uploads and the jobs they create (\<open>upload_services.py\<close>,
  \<open>validation.py\<close>), claiming, success, failure and recovery of jobs (\<open>processing/models.py\<close>),
  retries and reprocessing (\<open>state.py\<close>, \<open>observations/reprocessing.py\<close>).
\<close>

section \<open>Creating jobs\<close>

text \<open>\<open>ProcessingJob.objects.create\<close> under the partial unique constraint.\<close>

definition PROCESS_DOCUMENT :: string where "PROCESS_DOCUMENT = ''process_document''"

definition active_job :: "id \<Rightarrow> processing_job \<Rightarrow> bool" where
  "active_job k j =
     (job_document j = k \<and> job_task_name j = PROCESS_DOCUMENT \<and>
      (job_status j = JOB_QUEUED \<or> job_status j = JOB_RUNNING))"

definition create_job :: "int \<Rightarrow> id \<Rightarrow> id \<Rightarrow> db \<Rightarrow> (db \<times> processing_job) result" where
  "create_job now user k d =
     raise_if (\<exists>j \<in> set (jobs d). active_job k j) IntegrityError
     (let j = \<lparr>job_id = next_id d, job_user = user, job_document = k,
               job_task_name = PROCESS_DOCUMENT, job_payload_document = Some k,
               job_status = JOB_QUEUED, job_attempt_count = 0, job_max_attempts = 3,
               job_available_at = now, job_locked_at = None, job_started_at = None,
               job_completed_at = None, job_error_code = []\<rparr>
      in Inr (d\<lparr>jobs := jobs d @ [j], next_id := Suc (next_id d)\<rparr>, j))"

definition has_queued_job :: "db \<Rightarrow> id \<Rightarrow> id \<Rightarrow> bool" where
  "has_queued_job d user k =
     (\<exists>j \<in> set (jobs d). job_user j = user \<and> job_document j = k \<and> job_status j = JOB_QUEUED)"

definition enqueue_unless_queued :: "int \<Rightarrow> id \<Rightarrow> id \<Rightarrow> db \<Rightarrow> db result" where
  "enqueue_unless_queued now user k d =
     (if has_queued_job d user k then Inr d
      else rbind (create_job now user k d) (\<lambda>(d', _). Inr d'))"

text \<open>
  \<open>retry_failed_document\<close> is not atomic: a job the database refuses leaves the document
  \<open>QUEUED\<close>. The state is therefore returned with the error.
\<close>

definition retry_failed_document ::
  "int \<Rightarrow> id \<Rightarrow> id \<Rightarrow> db \<Rightarrow> db \<times> source_document result" where
  "retry_failed_document now k user d =
     (case transition_document now k user QUEUED [] d of
        Inl e \<Rightarrow> (d, Inl e)
      | Inr (d1, r) \<Rightarrow>
          (case enqueue_unless_queued now user k d1 of
             Inl e \<Rightarrow> (d1, Inl e)
           | Inr d2 \<Rightarrow> (d2, Inr r)))"

definition REPROCESSABLE_STATUSES :: "document_status list" where
  "REPROCESSABLE_STATUSES = [READY_FOR_REVIEW, FAILED, DOC_CONFIRMED]"

definition IN_FLIGHT_STATUSES :: "document_status list" where
  "IN_FLIGHT_STATUSES = [QUEUED, VALIDATING, PREPROCESSING, OCR_RUNNING, PARSING]"

record reprocess_request =
  rq_document :: source_document
  rq_previous_status :: document_status
  rq_runs :: nat
  rq_observations :: nat

fun document_status_value :: "document_status \<Rightarrow> string" where
  "document_status_value PENDING = ''pending''"
| "document_status_value VALIDATING = ''validating''"
| "document_status_value QUEUED = ''queued''"
| "document_status_value PREPROCESSING = ''preprocessing''"
| "document_status_value OCR_RUNNING = ''ocr_running''"
| "document_status_value PARSING = ''parsing''"
| "document_status_value READY_FOR_REVIEW = ''ready_for_review''"
| "document_status_value DOC_CONFIRMED = ''confirmed''"
| "document_status_value FAILED = ''failed''"
| "document_status_value DELETED = ''deleted''"

text \<open>The OCR runs are rows of another app: their number is an argument.\<close>

definition request_reprocess ::
  "(id \<Rightarrow> nat) \<Rightarrow> int \<Rightarrow> id \<Rightarrow> id \<Rightarrow> db \<Rightarrow> (db \<times> reprocess_request) result" where
  "request_reprocess run_count now k user d =
     (case owned_document d k user of
        None \<Rightarrow> Inl ForbiddenError
      | Some r \<Rightarrow>
          raise_if (doc_status r \<in> set IN_FLIGHT_STATUSES) ConflictError
          (raise_if (doc_status r \<notin> set REPROCESSABLE_STATUSES) ReprocessError
          (raise_if (doc_original_deleted_at r \<noteq> None) ReprocessError
          (let previous = doc_status r;
               runs = run_count k;
               obs = length (filter (\<lambda>ob. ob_source_document ob = k) (observations d))
           in rbind (transition_document now k user QUEUED [] d) (\<lambda>(d1, r1).
              rbind (enqueue_unless_queued now user k d1) (\<lambda>d2.
              rbind (record_audit_event user DOCUMENT_REPROCESS_REQUESTED (Some k)
                       [(''previous_status'', MStr (document_status_value previous)),
                        (''preserved_run_count'', MInt (int runs)),
                        (''preserved_observation_count'', MInt (int obs))] d2) (\<lambda>d3.
              Inr (d3, \<lparr>rq_document = r1, rq_previous_status = previous, rq_runs = runs,
                        rq_observations = obs\<rparr>))))))))"

section \<open>Uploads\<close>

text \<open>
  What Pillow reports of the bytes: not an image, an image over the decompression limit, or an
  image with its format and size, whose \<open>verify\<close> may still fail.
\<close>

datatype probe = Unreadable | Bomb | Image_of string nat nat bool

record upload =
  up_name :: string
  up_declared_size :: int
  up_content_type :: string
  up_probe :: probe
  up_bytes :: nat
  up_digest :: string

record limits =
  MAX_UPLOAD_SIZE :: nat
  MAX_IMAGE_PIXELS :: nat

record validated_upload =
  vu_mime_type :: string
  vu_suffix :: string
  vu_width :: nat
  vu_height :: nat

definition FORMAT_MIME_TYPES :: "(string \<times> string) list" where
  "FORMAT_MIME_TYPES =
     [(''PNG'', ''image/png''), (''JPEG'', ''image/jpeg''), (''WEBP'', ''image/webp'')]"

definition ALLOWED_UPLOAD_TYPES :: "(string \<times> string) list" where
  "ALLOWED_UPLOAD_TYPES =
     [(''image/png'', ''.png''), (''image/jpeg'', ''.jpg''), (''image/webp'', ''.webp'')]"

definition validate_uploaded_file :: "limits \<Rightarrow> upload \<Rightarrow> validated_upload result" where
  "validate_uploaded_file bounds up =
     raise_if (up_declared_size up \<le> 0 \<or> int (MAX_UPLOAD_SIZE bounds) < up_declared_size up)
       FileTooLargeError
     (case up_probe up of
        Unreadable \<Rightarrow> Inl ImageDecodeError
      | Bomb \<Rightarrow> Inl ImageDimensionsTooLargeError
      | Image_of form width height verifies \<Rightarrow>
          (case Option.bind (map_of FORMAT_MIME_TYPES form)
                  (\<lambda>m. map_option (\<lambda>s. (m, s)) (map_of ALLOWED_UPLOAD_TYPES m)) of
             None \<Rightarrow> Inl InvalidFileTypeError
           | Some (mime, suffix) \<Rightarrow>
               raise_if (up_content_type up \<noteq> [] \<and> up_content_type up \<noteq> mime) InvalidFileTypeError
               (raise_if (MAX_IMAGE_PIXELS bounds < width * height) ImageDimensionsTooLargeError
               (raise_if (\<not> verifies) ImageDecodeError
               (Inr \<lparr>vu_mime_type = mime, vu_suffix = suffix, vu_width = width,
                     vu_height = height\<rparr>)))))"

text \<open>\<open>store_uploaded_file\<close>: what is written before the limit is passed is removed again.\<close>

definition store_uploaded_file ::
  "limits \<Rightarrow> (id \<Rightarrow> string \<Rightarrow> string) \<Rightarrow> id \<Rightarrow> upload \<Rightarrow> string \<Rightarrow> world \<Rightarrow> (world \<times> string) result" where
  "store_uploaded_file bounds path_of k up suffix w =
     raise_if (MAX_UPLOAD_SIZE bounds < up_bytes up) InvalidRequestError
     (let path = path_of k suffix in Inr (w\<lparr>files := files w @ [(k, path)]\<rparr>, path))"

definition uploaded_before :: "db \<Rightarrow> id \<Rightarrow> string \<Rightarrow> bool" where
  "uploaded_before d user digest =
     (\<exists>r \<in> set (documents d). doc_user r = user \<and> doc_sha256 r = digest)"

text \<open>The insert, under the constraint that one user has a digest once.\<close>

definition insert_document :: "source_document \<Rightarrow> db \<Rightarrow> db result" where
  "insert_document r d =
     raise_if (uploaded_before d (doc_user r) (doc_sha256 r)) IntegrityError
     (Inr (d\<lparr>documents := documents d @ [r], next_id := Suc (next_id d)\<rparr>))"

definition uploaded_row ::
  "id \<Rightarrow> id \<Rightarrow> upload \<Rightarrow> validated_upload \<Rightarrow> string \<Rightarrow> retention_policy \<Rightarrow> int \<Rightarrow> source_document" where
  "uploaded_row k user up v path policy deadline =
     \<lparr>doc_id = k, doc_user = user, doc_sha256 = up_digest up, doc_mime_type = vu_mime_type v,
      doc_file_size = up_bytes up, doc_source_type = UNKNOWN_SOURCE,
      doc_source_type_override = None, doc_institution_override = [], doc_status = QUEUED,
      doc_error_code = [], doc_cleanup_error_code = [], doc_temporary_path = path,
      doc_processing_started_at = None, doc_processing_completed_at = None,
      doc_attempt_count = 0, doc_next_attempt_at = None, doc_original_deleted_at = None,
      doc_retention_policy = policy, doc_retention_deadline = Some deadline\<rparr>"

text \<open>
  \<open>create_uploaded_document\<close>: an error after the file was written removes the file again, and
  the transaction takes back the rows.
\<close>

definition create_uploaded_document ::
  "limits \<Rightarrow> (id \<Rightarrow> string \<Rightarrow> string) \<Rightarrow> int \<Rightarrow> id \<Rightarrow> upload \<Rightarrow> string \<Rightarrow> world \<Rightarrow> world \<times> source_document result" where
  "create_uploaded_document bounds path_of now user up policy w =
     (case rbind (validate_uploaded_file bounds up) (\<lambda>v.
           rbind (retention_deadline policy None now) (\<lambda>deadline.
           raise_if (uploaded_before (data w) user (up_digest up)) DuplicateUploadError
             (Inr (v, deadline)))) of
        Inl e \<Rightarrow> (w, Inl e)
      | Inr (v, deadline) \<Rightarrow>
          (let k = next_id (data w) in
           case store_uploaded_file bounds path_of k up (vu_suffix v) w of
             Inl e \<Rightarrow> (w, Inl e)
           | Inr (w1, path) \<Rightarrow>
               (let r = uploaded_row k user up v path (the (parse_retention policy)) deadline in
                case rbind (insert_document r (data w1)) (\<lambda>d1.
                     rbind (create_job now user k d1) (\<lambda>(d2, _).
                     record_audit_event user SCREENSHOT_UPLOADED (Some k)
                       [(''mime_type'', MStr (vu_mime_type v)),
                        (''file_size'', MInt (int (up_bytes up)))] d2)) of
                  Inl e \<Rightarrow>
                    (w, Inl (if e = IntegrityError \<and> uploaded_before (data w) user (up_digest up)
                             then DuplicateUploadError else e))
                | Inr d3 \<Rightarrow> (w1\<lparr>data := d3\<rparr>, Inr r))))"

section \<open>The queue\<close>

definition available :: "int \<Rightarrow> processing_job \<Rightarrow> bool" where
  "available now j = (job_status j = JOB_QUEUED \<and> job_available_at j \<le> now)"

text \<open>
  \<open>order_by("available_at", "created_at").first()\<close>: rows are in creation order and the sort is
  stable.
\<close>

definition first_available :: "int \<Rightarrow> db \<Rightarrow> processing_job option" where
  "first_available now d =
     (case sort_key job_available_at (filter (available now) (jobs d)) of
        [] \<Rightarrow> None | j # _ \<Rightarrow> Some j)"

definition refuse_job :: "int \<Rightarrow> processing_job \<Rightarrow> processing_job" where
  "refuse_job now j =
     j\<lparr>job_status := JOB_FAILED, job_completed_at := Some now,
       job_error_code := ''DOCUMENT_ALREADY_IN_PROGRESS''\<rparr>"

definition start_job :: "int \<Rightarrow> processing_job \<Rightarrow> processing_job" where
  "start_job now j =
     j\<lparr>job_status := JOB_RUNNING, job_attempt_count := Suc (job_attempt_count j),
       job_locked_at := Some now, job_started_at := Some now, job_completed_at := None,
       job_error_code := []\<rparr>"

text \<open>
  What the claim decides about the document of a job: nothing to do, already being processed, or
  the moves to \<open>VALIDATING\<close>.
\<close>

definition claim_document :: "int \<Rightarrow> processing_job \<Rightarrow> db \<Rightarrow> db option result" where
  "claim_document now j d =
     (if job_task_name j \<noteq> PROCESS_DOCUMENT then Inr (Some d)
      else case get_document d (job_document j) of
        None \<Rightarrow> Inr (Some d)
      | Some r \<Rightarrow>
          if doc_status r = DELETED then Inr (Some d)
          else if doc_status r \<notin> {QUEUED, FAILED} then Inr None
          else rbind (if doc_status r = FAILED
                      then rbind (transition_document now (doc_id r) (job_user j) QUEUED [] d)
                             (\<lambda>(d', _). Inr d')
                      else Inr d) (\<lambda>d1.
               rbind (transition_document now (doc_id r) (job_user j) VALIDATING [] d1) (\<lambda>(d2, _).
               Inr (Some d2))))"

lemma first_available_SomeD:
  assumes "first_available now d = Some j"
  shows "j \<in> set (jobs d)" "available now j"
    "\<And>i. i \<in> set (jobs d) \<Longrightarrow> available now i \<Longrightarrow> job_available_at j \<le> job_available_at i"
proof -
  let ?q = "sort_key job_available_at (filter (available now) (jobs d))"
  obtain js where q: "?q = j # js"
    using assms by (auto simp: first_available_def split: list.splits)
  have s: "set (j # js) = {i \<in> set (jobs d). available now i}" by (simp flip: q)
  have "sorted (map job_available_at (j # js))" using sorted_sort_key [of job_available_at] q by metis
  moreover have "i = j \<or> i \<in> set js" if "i \<in> set (jobs d)" "available now i" for i
    using s that by auto
  ultimately show "\<And>i. i \<in> set (jobs d) \<Longrightarrow> available now i \<Longrightarrow> job_available_at j \<le> job_available_at i"
    by auto
  show "j \<in> set (jobs d)" "available now j" using s by auto
qed

lemma first_available_None:
  "first_available now d = None \<longleftrightarrow> (\<forall>j \<in> set (jobs d). \<not> available now j)"
proof -
  have "first_available now d = None \<longleftrightarrow> sort_key job_available_at (filter (available now) (jobs d)) = []"
    by (simp add: first_available_def split: list.splits del: sort_key_Nil)
  also have "\<dots> \<longleftrightarrow> filter (available now) (jobs d) = []"
    by (metis set_empty set_sort)
  finally show ?thesis by (simp add: filter_empty_conv)
qed

definition queue_length :: "db \<Rightarrow> nat" where
  "queue_length d = length (filter (\<lambda>j. job_status j = JOB_QUEUED) (jobs d))"

lemma put_row_shrinks:
  assumes "r \<in> set rows" "P r" "pk r' = pk r" "\<not> P r'"
  shows "length (filter P (put_row pk r' rows)) < length (filter P rows)"
proof -
  have le: "length (filter P (put_row pk r' xs)) \<le> length (filter P xs)" for xs
    using assms(4) by (induction xs) (auto simp: put_row_def)
  show ?thesis using assms(1)
  proof (induction rows)
    case (Cons x xs)
    then show ?case using le [of xs] assms(2-4) by (auto simp: put_row_def)
  qed simp
qed

text \<open>The \<open>while\<close> loop of \<open>claim_next\<close>: each refused job leaves the queue.\<close>

function claim_next :: "int \<Rightarrow> db \<Rightarrow> (db \<times> processing_job option) result" where
  "claim_next now d =
     (case first_available now d of
        None \<Rightarrow> Inr (d, None)
      | Some j \<Rightarrow>
          (case claim_document now j d of
             Inl e \<Rightarrow> Inl e
           | Inr None \<Rightarrow> claim_next now (put_job (refuse_job now j) d)
           | Inr (Some d1) \<Rightarrow> Inr (put_job (start_job now j) d1, Some (start_job now j))))"
  by pat_completeness auto
termination
proof (relation "measure (\<lambda>(now, d). queue_length d)", goal_cases)
  case (2 now d j)
  then show ?case
    using first_available_SomeD [of now d j]
    by (auto simp: queue_length_def put_job_def available_def refuse_job_def intro!: put_row_shrinks)
qed simp

text \<open>
  A save with \<open>update_fields\<close> writes only those fields of the stored row. It raises when the
  row is gone, and when the row would be a second active job of its document.
\<close>

definition update_job :: "id \<Rightarrow> (processing_job \<Rightarrow> processing_job) \<Rightarrow> db \<Rightarrow> db result" where
  "update_job k f d =
     (case get_job d k of
        None \<Rightarrow> Inl DatabaseError
      | Some j \<Rightarrow>
          raise_if (\<exists>i \<in> set (jobs d). job_id i \<noteq> k \<and>
                      active_job (job_document (f j)) i \<and> active_job (job_document (f j)) (f j))
            IntegrityError (Inr (put_job (f j) d)))"

definition mark_succeeded :: "int \<Rightarrow> processing_job \<Rightarrow> db \<Rightarrow> db result" where
  "mark_succeeded now j d =
     update_job (job_id j) (\<lambda>row. row\<lparr>job_status := JOB_SUCCEEDED, job_locked_at := None,
                                  job_completed_at := Some now\<rparr>) d"

text \<open>The document of a requeued job waits with it.\<close>

definition requeue_document :: "id \<Rightarrow> id \<Rightarrow> int \<Rightarrow> db \<Rightarrow> db" where
  "requeue_document k user moment d =
     d\<lparr>documents := map (\<lambda>r. if doc_id r = k \<and> doc_user r = user \<and> doc_status r = FAILED
                            then r\<lparr>doc_status := QUEUED, doc_processing_completed_at := None,
                                   doc_next_attempt_at := Some moment\<rparr>
                            else r) (documents d)\<rparr>"

text \<open>
  \<open>mark_failed\<close> decides from the job in memory. The flag says whether the job was requeued.
\<close>

definition mark_failed ::
  "(rat \<Rightarrow> rat \<Rightarrow> rat) \<Rightarrow> int \<Rightarrow> processing_job \<Rightarrow> string \<Rightarrow> db \<Rightarrow> (db \<times> bool) result" where
  "mark_failed jitter now j err d =
     (let c = normalized_code err in
      if is_retryable_error c \<and> job_attempt_count j < job_max_attempts j
      then rbind (retry_delay jitter (job_attempt_count j)) (\<lambda>delay.
           rbind (update_job (job_id j) (\<lambda>row. row\<lparr>job_status := JOB_QUEUED,
                    job_available_at := now + delay, job_locked_at := None,
                    job_completed_at := None, job_error_code := take 64 c\<rparr>) d) (\<lambda>d1.
           Inr (requeue_document (job_document j) (job_user j) (now + delay) d1, True)))
      else rbind (update_job (job_id j) (\<lambda>row. row\<lparr>job_status := JOB_FAILED,
                    job_locked_at := None, job_completed_at := Some now,
                    job_error_code := take 64 c\<rparr>) d) (\<lambda>d1. Inr (d1, False)))"

definition stale :: "int \<Rightarrow> processing_job \<Rightarrow> bool" where
  "stale cutoff j =
     (job_status j = JOB_RUNNING \<and> (case job_locked_at j of None \<Rightarrow> False | Some t \<Rightarrow> t < cutoff))"

definition recover_stale :: "int \<Rightarrow> int \<Rightarrow> db \<Rightarrow> db \<times> nat" where
  "recover_stale now cutoff d =
     (let found = filter (stale cutoff) (jobs d) in
      (d\<lparr>jobs := map (\<lambda>j. if stale cutoff j
                       then j\<lparr>job_status := JOB_QUEUED, job_available_at := now,
                              job_locked_at := None, job_started_at := None\<rparr>
                       else j) (jobs d),
         documents := map (\<lambda>r. if doc_id r \<in> set (map job_document found) \<and>
                                 doc_status r \<in> {VALIDATING, PREPROCESSING, OCR_RUNNING, PARSING}
                              then r\<lparr>doc_status := QUEUED, doc_next_attempt_at := Some now\<rparr>
                              else r) (documents d)\<rparr>,
       length found))"

declare claim_next.simps [simp del]

section \<open>Claiming\<close>

text \<open>One round of the claim loop that refuses a job.\<close>

inductive refusal :: "int \<Rightarrow> db \<Rightarrow> db \<Rightarrow> bool" for now where
  refusal: "first_available now d = Some i \<Longrightarrow> claim_document now i d = Inr None \<Longrightarrow>
    refusal now d (put_job (refuse_job now i) d)"

inductive_cases refusalE: "refusal now d d'"

lemma claim_next_run:
  assumes "claim_next now d = Inr (d', claimed)"
  shows "\<exists>d1. (refusal now)\<^sup>*\<^sup>* d d1 \<and>
     (case claimed of
        None \<Rightarrow> first_available now d1 = None \<and> d' = d1
      | Some j \<Rightarrow> \<exists>i d2. first_available now d1 = Some i \<and> claim_document now i d1 = Inr (Some d2) \<and>
                       j = start_job now i \<and> d' = put_job j d2)"
  using assms
proof (induction now d rule: claim_next.induct)
  case (1 now d)
  show ?case
  proof (cases "first_available now d")
    case None
    then have "claimed = None \<and> d' = d" using 1(2) by (subst (asm) claim_next.simps) simp
    then show ?thesis using None by auto
  next
    case (Some i)
    show ?thesis
    proof (cases "claim_document now i d")
      case (Inl e)
      then show ?thesis using 1(2) Some by (subst (asm) claim_next.simps) simp
    next
      case (Inr r)
      show ?thesis
      proof (cases r)
        case None
        have r: "refusal now d (put_job (refuse_job now i) d)"
          using Some Inr None by (auto intro: refusal.intros)
        have "claim_next now (put_job (refuse_job now i) d) = Inr (d', claimed)"
          using 1(2) Some Inr None by (subst (asm) claim_next.simps) simp
        from 1(1) [OF Some Inr None this] obtain d1 where "(refusal now)\<^sup>*\<^sup>* (put_job (refuse_job now i) d) d1"
          and "case claimed of None \<Rightarrow> first_available now d1 = None \<and> d' = d1
             | Some j \<Rightarrow> \<exists>i d2. first_available now d1 = Some i \<and> claim_document now i d1 = Inr (Some d2) \<and>
                       j = start_job now i \<and> d' = put_job j d2"
          by blast
        then show ?thesis using converse_rtranclp_into_rtranclp [of "refusal now", OF r] by blast
      next
        case (Some d2)
        then have "claimed = Some (start_job now i) \<and> d' = put_job (start_job now i) d2"
          using 1(2) Inr \<open>first_available now d = Some i\<close> by (subst (asm) claim_next.simps) auto
        then show ?thesis using \<open>first_available now d = Some i\<close> Inr Some by auto
      qed
    qed
  qed
qed

text \<open>What refusals do to the tables.\<close>

lemma refuse_job_fields [simp]:
  "job_id (refuse_job now i) = job_id i" "job_document (refuse_job now i) = job_document i"
  "\<not> available t (refuse_job now i)" "\<not> active_job k (refuse_job now i)"
  by (simp_all add: refuse_job_def available_def active_job_def)

lemma start_job_fields [simp]:
  "job_id (start_job now i) = job_id i" "job_document (start_job now i) = job_document i"
  "job_task_name (start_job now i) = job_task_name i" "job_user (start_job now i) = job_user i"
  "job_status (start_job now i) = JOB_RUNNING" "job_max_attempts (start_job now i) = job_max_attempts i"
  "job_attempt_count (start_job now i) = Suc (job_attempt_count i)"
  by (simp_all add: start_job_def)

lemma put_job_other [simp]:
  "documents (put_job j d) = documents d" "get_document (put_job j d) = get_document d"
  "users (put_job j d) = users d" "next_id (put_job j d) = next_id d"
  by (simp_all add: put_job_def get_document_def fun_eq_iff)

lemma jobs_put_job [simp]: "jobs (put_job j d) = put_row job_id j (jobs d)"
  by (simp add: put_job_def)

lemma put_document_jobs [simp]: "jobs (put_document r d) = jobs d"
  by (simp add: put_document_def)

lemma transition_document_jobs:
  "transition_document now k u s err d = Inr (d', r') \<Longrightarrow> jobs d' = jobs d \<and> next_id d' = next_id d"
  by (auto simp: transition_document_Inr put_document_def)

lemma claim_document_jobs: "claim_document now i d = Inr (Some d2) \<Longrightarrow> jobs d2 = jobs d \<and> next_id d2 = next_id d"
  by (auto simp: claim_document_def dest!: transition_document_jobs split: if_splits option.splits)

lemma refusals_data:
  assumes "(refusal now)\<^sup>*\<^sup>* d d1"
  shows "get_document d1 = get_document d \<and> next_id d1 = next_id d \<and> keys job_id (jobs d1) = keys job_id (jobs d) \<and>
    (\<forall>i \<in> set (jobs d1). i \<in> set (jobs d) \<or> (\<exists>i0 \<in> set (jobs d). available now i0 \<and> i = refuse_job now i0))"
  using assms
proof (induction rule: rtranclp_induct)
  case (step d1 d2)
  from step(2) obtain i where i: "first_available now d1 = Some i" "d2 = put_job (refuse_job now i) d1"
    by (auto elim: refusalE)
  have "i \<in> set (jobs d1)" "available now i" using first_available_SomeD [OF i(1)] by auto
  then have "i \<in> set (jobs d)" using step(3) by auto
  then show ?case using step(3) i(2) \<open>available now i\<close> set_put_row [of job_id "refuse_job now i" "jobs d1"]
    by auto
qed auto

text \<open>With distinct keys a row keeps its place: it is the same or refused.\<close>

lemma get_job_distinct: "distinct (keys job_id (jobs d)) \<Longrightarrow> i \<in> set (jobs d) \<Longrightarrow> get_job d (job_id i) = Some i"
  by (simp add: get_job_def find_row_distinct)

lemma get_job_in: "get_job d k = Some i \<Longrightarrow> i \<in> set (jobs d) \<and> job_id i = k"
  by (simp add: get_job_def find_row_SomeD)

lemma refusals_get:
  assumes "(refusal now)\<^sup>*\<^sup>* d d1" "distinct (keys job_id (jobs d))" "i \<in> set (jobs d)"
  shows "get_job d1 (job_id i) = Some i \<or> available now i \<and> get_job d1 (job_id i) = Some (refuse_job now i)"
proof -
  have k: "keys job_id (jobs d1) = keys job_id (jobs d)" using refusals_data [OF assms(1)] by simp
  then have "job_id i \<in> set (keys job_id (jobs d1))" using assms(3) by (auto simp: keys_def)
  then obtain i1 where i1: "i1 \<in> set (jobs d1)" "job_id i1 = job_id i" by (auto simp: keys_def)
  have g: "get_job d1 (job_id i) = Some i1" using get_job_distinct [of d1 i1] k assms(2) i1 by simp
  have same: "i0 = i" if "i0 \<in> set (jobs d)" "job_id i0 = job_id i" for i0
    using get_job_distinct [OF assms(2)] that assms(3) by (metis option.inject)
  have "i1 \<in> set (jobs d) \<or> (\<exists>i0 \<in> set (jobs d). available now i0 \<and> i1 = refuse_job now i0)"
    using refusals_data [OF assms(1)] i1(1) by blast
  then consider "i1 \<in> set (jobs d)" | i0 where "i0 \<in> set (jobs d)" "available now i0" "i1 = refuse_job now i0"
    by blast
  then show ?thesis
  proof cases
    case 1
    then show ?thesis using g same i1(2) by simp
  next
    case 2
    then have "i0 = i" using same [of i0] i1(2) by simp
    then show ?thesis using 2 g by simp
  qed
qed

lemma keys_jobs_put [simp]: "keys job_id (jobs (put_job j d)) = keys job_id (jobs d)"
  by simp

lemma put_job_get: "get_job d (job_id j) = Some j0 \<Longrightarrow> get_job (put_job j d) k = (if k = job_id j then Some j else get_job d k)"
  using job_table.get_put by simp

text \<open>The documents of the claim: one that is waiting is moved to \<open>VALIDATING\<close>.\<close>

lemma claim_document_moves:
  assumes "claim_document now i d = Inr (Some d2)" "job_task_name i = PROCESS_DOCUMENT"
    "get_document d (job_document i) = Some r" "doc_status r \<noteq> DELETED"
  shows "\<exists>r'. get_document d2 (job_document i) = Some r' \<and> doc_status r' = VALIDATING \<and>
    doc_attempt_count r' = Suc (doc_attempt_count r) \<and> doc_user r' = job_user i"
proof -
  have k: "doc_id r = job_document i" using assms(3) by (rule get_document_id)
  have st: "doc_status r \<in> {QUEUED, FAILED}" using assms by (auto simp: claim_document_def split: if_splits)
  define d1 r1 where "d1 = (if doc_status r = FAILED then put_document (stamp_document now QUEUED [] (r\<lparr>doc_status := QUEUED\<rparr>)) d else d)"
    and "r1 = (if doc_status r = FAILED then stamp_document now QUEUED [] (r\<lparr>doc_status := QUEUED\<rparr>) else r)"
  obtain x where x: "transition_document now (doc_id r) (job_user i) VALIDATING [] d1 = Inr (d2, x)"
  proof (cases "doc_status r = FAILED")
    case True
    then obtain d3 y where "transition_document now (doc_id r) (job_user i) QUEUED [] d = Inr (d3, y)"
        "\<exists>x. transition_document now (doc_id r) (job_user i) VALIDATING [] d3 = Inr (d2, x)"
      using assms by (auto simp: claim_document_def simp del: stamp_document.simps)
    moreover from this(1) have "d3 = d1"
      using assms(3) True by (auto simp: transition_document_Inr d1_def k)
    ultimately show thesis using that by blast
  next
    case False
    then show thesis using that assms st by (auto simp: claim_document_def d1_def)
  qed
  have "get_document d1 (doc_id r) = Some r1"
    using assms(3) get_put_document [of d "stamp_document now QUEUED [] (r\<lparr>doc_status := QUEUED\<rparr>)" r]
    by (simp add: d1_def r1_def k)
  then have "x = stamp_document now VALIDATING [] (r1\<lparr>doc_status := VALIDATING\<rparr>) \<and> doc_user r1 = job_user i"
    using x by (auto simp: transition_document_Inr)
  moreover have "get_document d2 (doc_id r) = Some x" using transition_document_get [OF x] by simp
  ultimately show ?thesis by (auto simp: k r1_def)
qed


text \<open>A queue with a document that waits and one that is being processed.\<close>

definition sample_job :: "id \<Rightarrow> id \<Rightarrow> int \<Rightarrow> processing_job" where
  "sample_job n k t =
     \<lparr>job_id = n, job_user = 1, job_document = k, job_task_name = PROCESS_DOCUMENT,
      job_payload_document = Some k, job_status = JOB_QUEUED, job_attempt_count = 0,
      job_max_attempts = 3, job_available_at = t, job_locked_at = None, job_started_at = None,
      job_completed_at = None, job_error_code = []\<rparr>"

definition sample_queue :: db where
  "sample_queue = empty_db\<lparr>users := [1], documents := [stored_document 2 QUEUED, stored_document 3 PARSING],
     jobs := [sample_job 4 2 3, sample_job 5 3 1], next_id := 6\<rparr>"

lemmas sample_queue_defs =
  sample_queue_def sample_job_def stored_document_def empty_db_def claim_document_def
  first_available_def available_def get_document_def transition_document_def
  owned_document_def doc_allowed_def put_document_def put_row_def refuse_job_def PROCESS_DOCUMENT_def

lemma sample_claim:
  "\<exists>d'. claim_next 7 sample_queue = Inr (d', Some (start_job 7 (sample_job 4 2 3)))"
proof -
  have "first_available 7 sample_queue = Some (sample_job 5 3 1)"
    "claim_document 7 (sample_job 5 3 1) sample_queue = Inr None"
    by (simp_all add: sample_queue_defs)
  moreover have "first_available 7 (put_job (refuse_job 7 (sample_job 5 3 1)) sample_queue) = Some (sample_job 4 2 3)"
    "\<exists>d2. claim_document 7 (sample_job 4 2 3) (put_job (refuse_job 7 (sample_job 5 3 1)) sample_queue) = Inr (Some d2)"
    by (simp_all add: sample_queue_defs put_job_def Let_def)
  ultimately show ?thesis
    by (subst claim_next.simps) (auto simp: claim_next.simps [of 7 "put_job (refuse_job 7 (sample_job 5 3 1)) sample_queue"])
qed


section \<open>The queue's invariants\<close>

text \<open>
  One active job per document, and jobs never run more often than they may. Every job operation
  is a step; \<open>other\<close> is any step of the rest of the program, which leaves the jobs alone. The flag
  says whether stale jobs are recovered.
\<close>

definition one_active :: "db \<Rightarrow> bool" where
  "one_active d =
     (\<forall>i \<in> set (jobs d). \<forall>j \<in> set (jobs d). \<forall>k. active_job k i \<and> active_job k j \<longrightarrow> i = j)"

definition queue_ok :: "db \<Rightarrow> bool" where
  "queue_ok d = (table_ok job_id (jobs d) (next_id d) \<and> one_active d)"

definition attempts_ok :: "db \<Rightarrow> bool" where
  "attempts_ok d =
     (\<forall>j \<in> set (jobs d). job_attempt_count j \<le> job_max_attempts j \<and>
        (job_status j = JOB_QUEUED \<longrightarrow> job_attempt_count j < job_max_attempts j))"

inductive queue_step :: "bool \<Rightarrow> db \<Rightarrow> db \<Rightarrow> bool" for recovery where
  create: "create_job now u k d = Inr (d', j) \<Longrightarrow> queue_step recovery d d'"
| retry: "retry_failed_document now k u d = (d', r) \<Longrightarrow> queue_step recovery d d'"
| reprocess: "request_reprocess n now k u d = Inr (d', q) \<Longrightarrow> queue_step recovery d d'"
| claim: "claim_next now d = Inr (d', c) \<Longrightarrow> queue_step recovery d d'"
| succeed: "mark_succeeded now j d = Inr d' \<Longrightarrow> queue_step recovery d d'"
| fail: "mark_failed jitter now j err d = Inr (d', b) \<Longrightarrow> get_job d (job_id j) = Some i \<Longrightarrow>
    job_attempt_count i = job_attempt_count j \<Longrightarrow> job_max_attempts i = job_max_attempts j \<Longrightarrow>
    job_document i = job_document j \<Longrightarrow> queue_step recovery d d'"
| recover: "recovery \<Longrightarrow> recover_stale now cutoff d = (d', n) \<Longrightarrow> queue_step recovery d d'"
| other: "jobs d' = jobs d \<Longrightarrow> next_id d \<le> next_id d' \<Longrightarrow> queue_step recovery d d'"

inductive_cases queue_stepE: "queue_step recovery d d'"

text \<open>Replacing one row by one with the same key and document.\<close>

lemma put_job_queue_ok:
  assumes "queue_ok d" "get_job d (job_id j) = Some i" "job_document j = job_document i"
    and "\<And>k. active_job k j \<Longrightarrow> \<forall>x \<in> set (jobs d). job_id x \<noteq> job_id j \<longrightarrow> \<not> active_job k x"
  shows "queue_ok (put_job j d)"
proof -
  have "x = y" if "x \<in> set (put_row job_id j (jobs d))" "y \<in> set (put_row job_id j (jobs d))"
      "active_job k x" "active_job k y" for k x y
  proof -
    have row: "z = j \<or> z \<in> set (jobs d) \<and> job_id z \<noteq> job_id j" if "z \<in> set (put_row job_id j (jobs d))" for z
      using that by (auto simp: put_row_def split: if_splits)
    have "\<And>a b. a \<in> set (jobs d) \<Longrightarrow> b \<in> set (jobs d) \<Longrightarrow> active_job k a \<Longrightarrow> active_job k b \<Longrightarrow> a = b"
      using assms(1) by (auto simp: queue_ok_def one_active_def)
    then show ?thesis using row [OF that(1)] row [OF that(2)] that(3,4) assms(4) [of k] by blast
  qed
  then show ?thesis using assms(1) by (simp add: queue_ok_def one_active_def) blast
qed

lemma inactive_queue_ok:
  assumes "queue_ok d" "get_job d (job_id j) = Some i" "job_document j = job_document i"
    "\<And>k. active_job k j \<Longrightarrow> active_job k i"
  shows "queue_ok (put_job j d)"
proof (rule put_job_queue_ok [OF assms(1-3)])
  fix k
  assume "active_job k j"
  then have i: "active_job k i" "i \<in> set (jobs d)" "job_id i = job_id j"
    using assms(4) get_job_in [OF assms(2)] by auto
  then show "\<forall>x \<in> set (jobs d). job_id x \<noteq> job_id j \<longrightarrow> \<not> active_job k x"
    using assms(1) unfolding queue_ok_def one_active_def by metis
qed

lemma put_job_attempts_ok:
  assumes "attempts_ok d"
    "job_attempt_count j \<le> job_max_attempts j \<and> (job_status j = JOB_QUEUED \<longrightarrow> job_attempt_count j < job_max_attempts j)"
  shows "attempts_ok (put_job j d)"
  using assms set_put_row [of job_id j "jobs d"] by (auto simp: attempts_ok_def)

lemma queue_ok_frame: "jobs d' = jobs d \<Longrightarrow> next_id d \<le> next_id d' \<Longrightarrow> queue_ok d \<Longrightarrow> queue_ok d'"
  by (auto simp: queue_ok_def one_active_def intro: table_ok_mono)

lemma attempts_ok_frame: "jobs d' = jobs d \<Longrightarrow> attempts_ok d \<Longrightarrow> attempts_ok d'"
  by (simp add: attempts_ok_def)

text \<open>Each operation.\<close>

lemma create_job_Inr:
  "create_job now u k d = Inr (d', j) \<longleftrightarrow>
     (\<forall>i \<in> set (jobs d). \<not> active_job k i) \<and>
     j = \<lparr>job_id = next_id d, job_user = u, job_document = k, job_task_name = PROCESS_DOCUMENT,
          job_payload_document = Some k, job_status = JOB_QUEUED, job_attempt_count = 0,
          job_max_attempts = 3, job_available_at = now, job_locked_at = None,
          job_started_at = None, job_completed_at = None, job_error_code = []\<rparr> \<and>
     d' = d\<lparr>jobs := jobs d @ [j], next_id := Suc (next_id d)\<rparr>"
  by (auto simp: create_job_def Let_def)

lemma create_job_ok:
  assumes "create_job now u k d = Inr (d', j)" "queue_ok d"
  shows "queue_ok d'"
proof -
  note c = assms(1) [unfolded create_job_Inr]
  have "active_job k' j \<longleftrightarrow> k' = k" for k' using c by (auto simp: active_job_def)
  then have "one_active d'" using c assms(2) by (auto simp: queue_ok_def one_active_def)
  moreover have "table_ok job_id (jobs d') (next_id d')"
    using c assms(2) table_ok_append [of job_id "jobs d" "next_id d" j "Suc (next_id d)"]
    by (auto simp: queue_ok_def)
  ultimately show ?thesis by (simp add: queue_ok_def)
qed

lemma create_job_attempts: "create_job now u k d = Inr (d', j) \<Longrightarrow> attempts_ok d \<Longrightarrow> attempts_ok d'"
  by (auto simp: create_job_Inr attempts_ok_def)

lemma enqueue_ok:
  assumes "enqueue_unless_queued now u k d = Inr d'"
  shows "queue_ok d \<Longrightarrow> queue_ok d'" "attempts_ok d \<Longrightarrow> attempts_ok d'"
  using assms create_job_ok create_job_attempts
  by (auto simp: enqueue_unless_queued_def split: if_splits)

lemma retry_ok:
  assumes "retry_failed_document now k u d = (d', r)"
  shows "queue_ok d \<Longrightarrow> queue_ok d'" "attempts_ok d \<Longrightarrow> attempts_ok d'"
proof -
  consider "d' = d"
    | d1 x where "transition_document now k u QUEUED [] d = Inr (d1, x)" "d' = d1 \<or> enqueue_unless_queued now u k d1 = Inr d'"
    using assms by (auto simp: retry_failed_document_def split: sum.splits)
  then show "queue_ok d \<Longrightarrow> queue_ok d'" "attempts_ok d \<Longrightarrow> attempts_ok d'"
    by (cases; auto dest!: transition_document_jobs dest: enqueue_ok queue_ok_frame attempts_ok_frame)+
qed

lemma record_audit_event_jobs:
  "record_audit_event u e obj m d = Inr d' \<Longrightarrow> jobs d' = jobs d \<and> next_id d' = next_id d"
  by (auto simp: record_audit_event_Inr)

lemma reprocess_ok:
  assumes "request_reprocess n now k u d = Inr (d', q)"
  shows "queue_ok d \<Longrightarrow> queue_ok d'" "attempts_ok d \<Longrightarrow> attempts_ok d'"
proof -
  obtain d1 x d2 m where t: "transition_document now k u QUEUED [] d = Inr (d1, x)"
      "enqueue_unless_queued now u k d1 = Inr d2"
      "record_audit_event u DOCUMENT_REPROCESS_REQUESTED (Some k) m d2 = Inr d'"
    using assms by (auto simp: request_reprocess_def Let_def split: option.splits)
  have "jobs d1 = jobs d \<and> next_id d1 = next_id d" "jobs d' = jobs d2 \<and> next_id d' = next_id d2"
    using t transition_document_jobs record_audit_event_jobs by blast+
  then show "queue_ok d \<Longrightarrow> queue_ok d'" "attempts_ok d \<Longrightarrow> attempts_ok d'"
    using enqueue_ok [OF t(2)] queue_ok_frame attempts_ok_frame by (metis order_refl)+
qed

lemma refusals_ok:
  assumes "(refusal now)\<^sup>*\<^sup>* d d1"
  shows "(queue_ok d \<longrightarrow> queue_ok d1) \<and> (queue_ok d \<and> attempts_ok d \<longrightarrow> attempts_ok d1)"
  using assms
proof (induction rule: rtranclp_induct)
  case (step d1 d2)
  from step(2) obtain i where i: "first_available now d1 = Some i" "d2 = put_job (refuse_job now i) d1"
    by (auto elim: refusalE)
  have in1: "i \<in> set (jobs d1)" using first_available_SomeD [OF i(1)] by simp
  have q: "queue_ok d2" if "queue_ok d1"
    using inactive_queue_ok [OF that, of "refuse_job now i" i] get_job_distinct [OF _ in1] that
    by (simp add: i(2) queue_ok_def table_ok_def)
  have a: "attempts_ok d2" if "attempts_ok d1"
    using put_job_attempts_ok [OF that, of "refuse_job now i"] that in1
    by (auto simp: i(2) attempts_ok_def refuse_job_def)
  show ?case using step(3) q a by blast
qed simp

lemma claim_ok:
  assumes "claim_next now d = Inr (d', c)" "queue_ok d"
  shows "queue_ok d'" "attempts_ok d \<Longrightarrow> attempts_ok d'"
proof -
  obtain d1 where d1: "(refusal now)\<^sup>*\<^sup>* d d1" and run:
    "case c of
        None \<Rightarrow> first_available now d1 = None \<and> d' = d1
      | Some j \<Rightarrow> \<exists>i d2. first_available now d1 = Some i \<and> claim_document now i d1 = Inr (Some d2) \<and>
                       j = start_job now i \<and> d' = put_job j d2"
    using claim_next_run [OF assms(1)] by blast
  have q1: "queue_ok d1" and a1: "attempts_ok d \<Longrightarrow> attempts_ok d1"
    using refusals_ok [OF d1] assms(2) by auto
  have "queue_ok d' \<and> (attempts_ok d \<longrightarrow> attempts_ok d')"
  proof (cases c)
    case None
    then show ?thesis using run q1 a1 by simp
  next
    case (Some j)
    then obtain i d2 where i: "first_available now d1 = Some i" "claim_document now i d1 = Inr (Some d2)"
        "d' = put_job (start_job now i) d2" using run by auto
    have d2: "jobs d2 = jobs d1" "next_id d2 = next_id d1" using claim_document_jobs [OF i(2)] by auto
    have in2: "i \<in> set (jobs d2)" and av: "available now i"
      using first_available_SomeD [OF i(1)] d2 by auto
    have q2: "queue_ok d2" using queue_ok_frame [OF d2(1)] d2(2) q1 by simp
    have "get_job d2 (job_id i) = Some i" using get_job_distinct [OF _ in2] q2 by (simp add: queue_ok_def table_ok_def)
    moreover have "active_job k (start_job now i) \<Longrightarrow> active_job k i" for k
      using av by (simp add: active_job_def available_def)
    ultimately have "queue_ok d'" using inactive_queue_ok [OF q2, of "start_job now i" i] by (simp add: i(3))
    moreover have "attempts_ok d'" if "attempts_ok d"
    proof -
      have a2: "attempts_ok d2" using attempts_ok_frame [OF d2(1)] a1 [OF that] by simp
      then have "job_attempt_count i < job_max_attempts i" using in2 av by (auto simp: attempts_ok_def available_def)
      then show ?thesis using put_job_attempts_ok [OF a2, of "start_job now i"] by (simp add: i(3))
    qed
    ultimately show ?thesis by blast
  qed
  then show "queue_ok d'" "attempts_ok d \<Longrightarrow> attempts_ok d'" by auto
qed

lemma update_job_Inr:
  "update_job k f d = Inr d' \<longleftrightarrow>
     (\<exists>i. get_job d k = Some i \<and> d' = put_job (f i) d \<and>
        \<not> (\<exists>x \<in> set (jobs d). job_id x \<noteq> k \<and> active_job (job_document (f i)) x \<and>
                               active_job (job_document (f i)) (f i)))"
  by (auto simp: update_job_def split: option.splits)

lemma update_jobE:
  assumes "update_job k f d = Inr d'"
  obtains i where "get_job d k = Some i" "i \<in> set (jobs d)" "d' = put_job (f i) d"
  using assms get_job_in unfolding update_job_Inr by blast

lemma update_job_ok:
  assumes "update_job k f d = Inr d'" "queue_ok d"
    and "\<And>i. job_id (f i) = job_id i \<and> job_document (f i) = job_document i"
  shows "queue_ok d'"
proof -
  obtain i where i: "get_job d k = Some i" "d' = put_job (f i) d"
      "\<not> (\<exists>x \<in> set (jobs d). job_id x \<noteq> k \<and> active_job (job_document (f i)) x \<and>
                               active_job (job_document (f i)) (f i))"
    using assms(1) unfolding update_job_Inr by blast
  have k: "job_id i = k" using get_job_in [OF i(1)] by simp
  show ?thesis unfolding i(2)
  proof (rule put_job_queue_ok [OF assms(2)])
    fix k'
    assume a: "active_job k' (f i)"
    then have "k' = job_document (f i)" by (simp add: active_job_def)
    then show "\<forall>x \<in> set (jobs d). job_id x \<noteq> job_id (f i) \<longrightarrow> \<not> active_job k' x"
      using i(3) a assms(3) [of i] k by auto
  qed (use i(1) assms(3) [of i] k in auto)
qed

lemma mark_succeeded_ok:
  assumes "mark_succeeded now j d = Inr d'"
  shows "queue_ok d \<Longrightarrow> queue_ok d'" "attempts_ok d \<Longrightarrow> attempts_ok d'"
proof -
  show "queue_ok d \<Longrightarrow> queue_ok d'"
    using update_job_ok [OF assms [unfolded mark_succeeded_def]] by simp
  from assms [unfolded mark_succeeded_def] obtain i where "i \<in> set (jobs d)"
      "d' = put_job (i\<lparr>job_status := JOB_SUCCEEDED, job_locked_at := None, job_completed_at := Some now\<rparr>) d"
    by (rule update_jobE)
  then show "attempts_ok d \<Longrightarrow> attempts_ok d'"
    using put_job_attempts_ok [of d "i\<lparr>job_status := JOB_SUCCEEDED, job_locked_at := None, job_completed_at := Some now\<rparr>"]
    by (simp add: attempts_ok_def)
qed

lemma mark_failed_Inr:
  "mark_failed jitter now j err d = Inr (d', b) \<longleftrightarrow>
     (if b then is_retryable_error (normalized_code err) \<and> job_attempt_count j < job_max_attempts j \<and>
        (\<exists>delay d1. retry_delay jitter (job_attempt_count j) = Inr delay \<and>
           update_job (job_id j) (\<lambda>row. row\<lparr>job_status := JOB_QUEUED,
                    job_available_at := now + delay, job_locked_at := None,
                    job_completed_at := None, job_error_code := take 64 (normalized_code err)\<rparr>) d = Inr d1 \<and>
           d' = requeue_document (job_document j) (job_user j) (now + delay) d1)
      else \<not> (is_retryable_error (normalized_code err) \<and> job_attempt_count j < job_max_attempts j) \<and>
        update_job (job_id j) (\<lambda>row. row\<lparr>job_status := JOB_FAILED,
                    job_locked_at := None, job_completed_at := Some now,
                    job_error_code := take 64 (normalized_code err)\<rparr>) d = Inr d')"
  by (cases b) (auto simp: mark_failed_def Let_def)

lemma requeue_document_jobs [simp]:
  "jobs (requeue_document k u t d) = jobs d" "next_id (requeue_document k u t d) = next_id d"
  by (simp_all add: requeue_document_def)

lemma mark_failed_ok:
  assumes "mark_failed jitter now j err d = Inr (d', b)"
  shows "queue_ok d \<Longrightarrow> queue_ok d'"
proof -
  assume q: "queue_ok d"
  show "queue_ok d'"
  proof (cases b)
    case True
    then obtain delay d1 where d1: "update_job (job_id j) (\<lambda>row. row\<lparr>job_status := JOB_QUEUED,
                    job_available_at := now + delay, job_locked_at := None,
                    job_completed_at := None, job_error_code := take 64 (normalized_code err)\<rparr>) d = Inr d1"
        "d' = requeue_document (job_document j) (job_user j) (now + delay) d1"
      using assms by (auto simp: mark_failed_Inr)
    then show ?thesis using update_job_ok [OF d1(1) q] queue_ok_frame [of d' d1] by simp
  next
    case False
    then have "update_job (job_id j) (\<lambda>row. row\<lparr>job_status := JOB_FAILED,
                    job_locked_at := None, job_completed_at := Some now,
                    job_error_code := take 64 (normalized_code err)\<rparr>) d = Inr d'"
      using assms by (simp add: mark_failed_Inr)
    then show ?thesis by (rule update_job_ok [OF _ q]) simp
  qed
qed

lemma mark_failed_attempts:
  assumes "mark_failed jitter now j err d = Inr (d', b)" "get_job d (job_id j) = Some i"
    "job_attempt_count i = job_attempt_count j" "job_max_attempts i = job_max_attempts j" "attempts_ok d"
  shows "attempts_ok d'"
proof -
  have i: "i \<in> set (jobs d)" using get_job_in [OF assms(2)] by simp
  show ?thesis
  proof (cases b)
    case True
    then obtain d1 delay where r: "d' = requeue_document (job_document j) (job_user j) (now + delay) d1"
        "job_attempt_count j < job_max_attempts j"
      and u: "update_job (job_id j) (\<lambda>row. row\<lparr>job_status := JOB_QUEUED,
                    job_available_at := now + delay, job_locked_at := None,
                    job_completed_at := None, job_error_code := take 64 (normalized_code err)\<rparr>) d = Inr d1"
      using assms(1) unfolding mark_failed_Inr by auto
    from u assms(2) have "d1 = put_job (i\<lparr>job_status := JOB_QUEUED,
                    job_available_at := now + delay, job_locked_at := None,
                    job_completed_at := None, job_error_code := take 64 (normalized_code err)\<rparr>) d"
      by (elim update_jobE) simp
    then have "attempts_ok d1" using put_job_attempts_ok [OF assms(5)] assms(3,4) r(2) by simp
    then show ?thesis using attempts_ok_frame [of d' d1] by (simp add: r(1))
  next
    case False
    then have "update_job (job_id j) (\<lambda>row. row\<lparr>job_status := JOB_FAILED,
                    job_locked_at := None, job_completed_at := Some now,
                    job_error_code := take 64 (normalized_code err)\<rparr>) d = Inr d'"
      using assms(1) by (simp add: mark_failed_Inr)
    then have "d' = put_job (i\<lparr>job_status := JOB_FAILED, job_locked_at := None,
        job_completed_at := Some now, job_error_code := take 64 (normalized_code err)\<rparr>) d"
      using assms(2) by (elim update_jobE) simp
    moreover have "job_attempt_count i \<le> job_max_attempts i" using assms(5) i by (simp add: attempts_ok_def)
    ultimately show ?thesis using put_job_attempts_ok [OF assms(5)] by simp
  qed
qed

lemma recover_ok:
  assumes "recover_stale now cutoff d = (d', n)" "queue_ok d"
  shows "queue_ok d'"
proof -
  define f where "f j = (if stale cutoff j
      then j\<lparr>job_status := JOB_QUEUED, job_available_at := now, job_locked_at := None,
             job_started_at := None\<rparr> else j)" for j
  have jobs: "jobs d' = map f (jobs d)" "next_id d' = next_id d"
    using assms(1) by (auto simp: recover_stale_def Let_def f_def)
  have f: "job_id (f j) = job_id j" "active_job k (f j) = active_job k j" for j k
    by (auto simp: f_def active_job_def stale_def)
  have "map (job_id \<circ> f) (jobs d) = map job_id (jobs d)" using f by simp
  then have "keys job_id (jobs d') = keys job_id (jobs d)" by (simp add: keys_def jobs(1))
  moreover have "one_active d'" using assms(2) by (auto simp: one_active_def queue_ok_def jobs f) 
  ultimately show ?thesis using assms(2) by (simp add: queue_ok_def table_ok_def jobs(2))
qed

lemma queue_step_ok: "queue_step recovery d d' \<Longrightarrow> queue_ok d \<Longrightarrow> queue_ok d'"
  by (erule queue_stepE)
    (blast intro: create_job_ok retry_ok reprocess_ok claim_ok mark_succeeded_ok mark_failed_ok
       recover_ok queue_ok_frame)+

lemma queue_step_attempts:
  "queue_step False d d' \<Longrightarrow> queue_ok d \<Longrightarrow> attempts_ok d \<Longrightarrow> attempts_ok d'"
  by (erule queue_stepE)
    (blast intro: create_job_attempts retry_ok reprocess_ok claim_ok mark_succeeded_ok
       mark_failed_attempts attempts_ok_frame)+

text \<open>
  C15. However the operations interleave, a document has at most one active job; and while no
  stale job is recovered, no job runs more than \<open>max_attempts\<close> times and none that used its last
  attempt waits in the queue.
\<close>

theorem queue_stays_correct:
  assumes "(queue_step recovery)\<^sup>*\<^sup>* d d'" "queue_ok d"
  shows "queue_ok d' \<and> (\<not> recovery \<and> attempts_ok d \<longrightarrow> attempts_ok d')"
  using assms
proof (induction rule: rtranclp_induct)
  case (step d1 d2)
  then show ?case using queue_step_ok queue_step_attempts by (cases recovery) auto
qed simp

lemma sample_queue_ok: "queue_ok sample_queue" "attempts_ok sample_queue"
  by (auto simp: queue_ok_def attempts_ok_def one_active_def active_job_def table_ok_def keys_def
      sample_queue_def sample_job_def)

theorem queue_stays_correct_witness:
  "\<exists>d'. claim_next 7 sample_queue = Inr (d', Some (start_job 7 (sample_job 4 2 3))) \<and>
     queue_ok d' \<and> attempts_ok d'"
proof -
  obtain d' where c: "claim_next 7 sample_queue = Inr (d', Some (start_job 7 (sample_job 4 2 3)))"
    using sample_claim by blast
  then have steps: "(queue_step False)\<^sup>*\<^sup>* sample_queue d'" by (blast intro: queue_step.claim)
  show ?thesis using queue_stays_correct [OF steps sample_queue_ok(1)] sample_queue_ok(2) c by blast
qed

lemma update_running:
  assumes "queue_ok d" "get_job d (job_id j) = Some j" "job_status j = JOB_RUNNING"
    and "job_id (f j) = job_id j" "job_document (f j) = job_document j" "job_task_name (f j) = job_task_name j"
  shows "update_job (job_id j) f d = Inr (put_job (f j) d)"
proof -
  have "j \<in> set (jobs d)" using get_job_in [OF assms(2)] by simp
  have "\<not> active_job (job_document (f j)) x"
    if "x \<in> set (jobs d)" "job_id x \<noteq> job_id j" "active_job (job_document (f j)) (f j)" for x
  proof
    assume "active_job (job_document (f j)) x"
    moreover have "active_job (job_document (f j)) j" using that(3) assms(3,5,6) by (simp add: active_job_def)
    ultimately have "x = j" using assms(1) that(1) \<open>j \<in> set (jobs d)\<close> unfolding queue_ok_def one_active_def by blast
    then show False using that(2) by simp
  qed
  then show ?thesis using assms(2) by (auto simp: update_job_Inr)
qed

lemma requeue_document_get:
  "get_document (requeue_document k u t d) j =
     map_option (\<lambda>r. if doc_id r = k \<and> doc_user r = u \<and> doc_status r = FAILED
       then r\<lparr>doc_status := QUEUED, doc_processing_completed_at := None, doc_next_attempt_at := Some t\<rparr>
       else r) (get_document d j)"
  by (simp add: get_document_def requeue_document_def find_row_map)

lemma get_job_requeue [simp]: "get_job (requeue_document k u t d) = get_job d"
  by (simp add: get_job_def fun_eq_iff)

lemma mark_failed_requeues:
  assumes "get_job d (job_id j) = Some j" "queue_ok d" "1 \<le> job_attempt_count j" "job_attempt_count j \<le> 1024"
    and "job_status j = JOB_RUNNING"
    and "is_retryable_error (normalized_code err)" "job_attempt_count j < job_max_attempts j"
  obtains t where "timedelta_seconds (backoff_base (job_attempt_count j)) \<le> t" "t \<le> 300 * 1000000"
    and "mark_failed jitter now j err d =
      Inr (requeue_document (job_document j) (job_user j) (now + t)
        (put_job (j\<lparr>job_status := JOB_QUEUED, job_available_at := now + t, job_locked_at := None,
           job_completed_at := None, job_error_code := take 64 (normalized_code err)\<rparr>) d), True)"
proof -
  obtain t where t: "retry_delay jitter (job_attempt_count j) = Inr t"
      "timedelta_seconds (backoff_base (job_attempt_count j)) \<le> t" "t \<le> 300 * 1000000"
    using retry_delay_within [OF assms(3,4)] by blast
  then show thesis
    using that [of t] assms(6,7) update_running [OF assms(2,1,5)] by (simp add: mark_failed_def Let_def)
qed

text \<open>
  A failure requeues the job exactly when its code is retryable and attempts are left. A
  requeued job becomes available between its base delay and 300 seconds later, and a document
  of the owner that the failure had marked \<open>FAILED\<close> waits with it; otherwise the job is
  \<open>FAILED\<close>. Either way the lock is gone and the code recorded.
\<close>

theorem mark_failed_outcome:
  assumes "get_job d (job_id j) = Some j" "queue_ok d" "1 \<le> job_attempt_count j" "job_attempt_count j \<le> 1024"
    and "job_status j = JOB_RUNNING"
  shows "\<exists>d' j'. mark_failed jitter now j err d =
        Inr (d', is_retryable_error (normalized_code err) \<and> job_attempt_count j < job_max_attempts j) \<and>
      get_job d' (job_id j) = Some j' \<and> job_locked_at j' = None \<and>
      job_error_code j' = take 64 (normalized_code err) \<and> job_attempt_count j' = job_attempt_count j \<and>
      (if is_retryable_error (normalized_code err) \<and> job_attempt_count j < job_max_attempts j
       then job_status j' = JOB_QUEUED \<and>
         now + timedelta_seconds (backoff_base (job_attempt_count j)) \<le> job_available_at j' \<and>
         job_available_at j' \<le> now + 300 * 1000000 \<and>
         (\<forall>r. get_document d (job_document j) = Some r \<and> doc_user r = job_user j \<and> doc_status r = FAILED \<longrightarrow>
            get_document d' (job_document j) =
              Some (r\<lparr>doc_status := QUEUED, doc_processing_completed_at := None,
                      doc_next_attempt_at := Some (job_available_at j')\<rparr>))
       else job_status j' = JOB_FAILED \<and> documents d' = documents d)"
proof (cases "is_retryable_error (normalized_code err) \<and> job_attempt_count j < job_max_attempts j")
  case True
  obtain t where t: "timedelta_seconds (backoff_base (job_attempt_count j)) \<le> t" "t \<le> 300 * 1000000"
    and m: "mark_failed jitter now j err d =
      Inr (requeue_document (job_document j) (job_user j) (now + t)
        (put_job (j\<lparr>job_status := JOB_QUEUED, job_available_at := now + t, job_locked_at := None,
           job_completed_at := None, job_error_code := take 64 (normalized_code err)\<rparr>) d), True)"
    using mark_failed_requeues [OF assms] True by metis
  define j' where "j' = j\<lparr>job_status := JOB_QUEUED, job_available_at := now + t, job_locked_at := None,
      job_completed_at := None, job_error_code := take 64 (normalized_code err)\<rparr>"
  have "mark_failed jitter now j err d =
      Inr (requeue_document (job_document j) (job_user j) (now + t) (put_job j' d), True)"
    using m by (simp add: j'_def)
  moreover have "get_job (put_job j' d) (job_id j) = Some j'"
    using put_job_get [of d j' j] assms(1) by (simp add: j'_def)
  ultimately show ?thesis using True t
    by (auto simp: requeue_document_get j'_def dest: get_document_id)
next
  case False
  define j' where "j' = j\<lparr>job_status := JOB_FAILED, job_locked_at := None,
      job_completed_at := Some now, job_error_code := take 64 (normalized_code err)\<rparr>"
  have "mark_failed jitter now j err d = Inr (put_job j' d, False)"
    using False update_running [OF assms(2,1,5)] by (simp add: mark_failed_def Let_def j'_def)
  moreover have "get_job (put_job j' d) (job_id j) = Some j'"
    using put_job_get [of d j' j] assms(1) by (simp add: j'_def)
  ultimately show ?thesis using False by (auto simp: j'_def)
qed

definition running_queue :: db where
  "running_queue = empty_db\<lparr>users := [1], documents := [stored_document 2 FAILED],
     jobs := [start_job 7 (sample_job 4 2 3)], next_id := 6\<rparr>"

lemma timeout_retryable: "is_retryable_error (normalized_code ''ocr_timeout'')"
  by code_simp

theorem mark_failed_outcome_witness:
  "\<exists>d' j'. mark_failed (\<lambda>lo hi. hi) 7 (start_job 7 (sample_job 4 2 3)) ''ocr_timeout'' running_queue = Inr (d', True) \<and>
     get_job d' 4 = Some j' \<and> job_status j' = JOB_QUEUED"
proof -
  let ?j = "start_job 7 (sample_job 4 2 3)"
  have j: "job_id ?j = 4" "job_attempt_count ?j = 1" "job_max_attempts ?j = 3" "job_status ?j = JOB_RUNNING"
    by (simp_all add: sample_job_def)
  have g: "get_job running_queue (job_id ?j) = Some ?j"
    by (simp add: running_queue_def get_job_def)
  have q: "queue_ok running_queue"
    by (simp add: queue_ok_def table_ok_def keys_def one_active_def running_queue_def sample_job_def)
  have "1 \<le> job_attempt_count ?j" "job_attempt_count ?j \<le> 1024" "job_attempt_count ?j < job_max_attempts ?j"
    using j by simp_all
  then show ?thesis
    using mark_failed_outcome [OF g q _ _ j(4), of "\<lambda>lo hi. hi" 7 "''ocr_timeout''"] timeout_retryable j(1)
    by (simp del: start_job_fields) blast
qed

text \<open>
  The bound on attempts does not survive recovery: recovering a stale job puts it back in the
  queue whatever its attempt count, and the next claim runs it once more than \<open>max_attempts\<close>
  allows.
\<close>

theorem recovery_exceeds_max_attempts:
  assumes "get_job d (job_id j) = Some j" "distinct (keys job_id (jobs d))" "stale cutoff j"
    and "job_attempt_count j = job_max_attempts j"
  shows "\<exists>j'. get_job (fst (recover_stale now cutoff d)) (job_id j) = Some j' \<and> available now j' \<and>
     job_max_attempts (start_job now j') < job_attempt_count (start_job now j')"
proof -
  define f where "f = (\<lambda>j. if stale cutoff j
      then j\<lparr>job_status := JOB_QUEUED, job_available_at := now, job_locked_at := None,
             job_started_at := None\<rparr> else j)"
  have "find_row job_id (map f xs) k = map_option f (find_row job_id xs k)" for xs k
    by (rule find_row_map) (simp add: f_def)
  moreover have "jobs (fst (recover_stale now cutoff d)) = map f (jobs d)"
    by (simp add: recover_stale_def Let_def f_def)
  ultimately have "get_job (fst (recover_stale now cutoff d)) (job_id j) = Some (f j)"
    using assms(1) by (simp add: get_job_def)
  then show ?thesis using assms(3,4) by (simp add: f_def available_def)
qed

theorem recovery_exceeds_max_attempts_witness:
  "\<exists>j'. get_job (fst (recover_stale 9 8 (running_queue\<lparr>jobs :=
       [(start_job 7 (sample_job 4 2 3))\<lparr>job_attempt_count := 3\<rparr>]\<rparr>))) 4 = Some j' \<and>
     job_max_attempts (start_job 9 j') < job_attempt_count (start_job 9 j')"
  using recovery_exceeds_max_attempts [of "running_queue\<lparr>jobs := [(start_job 7 (sample_job 4 2 3))\<lparr>job_attempt_count := 3\<rparr>]\<rparr>"
      "(start_job 7 (sample_job 4 2 3))\<lparr>job_attempt_count := 3\<rparr>" 8 9]
  by (auto simp: get_job_def keys_def stale_def start_job_def sample_job_def)

end
