(* ===== verification/Pipeline.thy ===== *)
theory Pipeline
  imports Jobs
begin

text \<open>
  The worker: the document pipeline with its error handling and its clean-up (\<open>pipeline.py\<close>), the
  dispatch of a job and the recording of its outcome (\<open>services.py\<close>).
\<close>

section \<open>The pipeline\<close>

text \<open>
  How a handler may stop: a retryable or a permanent job error with its code, an unsupported
  task, or any other exception.
\<close>

datatype stop = Retryable string | NonRetryable string | Unsupported | Crash

text \<open>
  What the pipeline calls: the storage, the decoder of a stored image (\<open>decode_stored_image\<close>,
  with the code of its error), the OCR run and the owner's key. Each OCR run or key scope may
  write to the database.
\<close>

record pipeline_env =
  storage :: file_system
  decode_error :: "id \<Rightarrow> string \<Rightarrow> string option"
  open_key :: "source_document \<Rightarrow> db \<Rightarrow> db result"
  run_ocr :: "source_document \<Rightarrow> world \<Rightarrow> world \<times> stop option"

definition lift_move :: "int \<Rightarrow> id \<Rightarrow> id \<Rightarrow> document_status \<Rightarrow> string \<Rightarrow> world \<Rightarrow> world \<times> stop option" where
  "lift_move now k user status err w =
     (case transition_document now k user status err (data w) of
        Inl _ \<Rightarrow> (w, Some Crash)
      | Inr (d, _) \<Rightarrow> (w\<lparr>data := d\<rparr>, None))"

text \<open>The next step runs when the one before it did not stop.\<close>

definition next_step ::
  "world \<times> stop option \<Rightarrow> (world \<Rightarrow> world \<times> stop option) \<Rightarrow> world \<times> stop option" where
  "next_step r f = (case r of (w, None) \<Rightarrow> f w | (w, Some s) \<Rightarrow> (w, Some s))"

definition stop_if :: "bool \<Rightarrow> stop \<Rightarrow> world \<Rightarrow> world \<times> stop option" where
  "stop_if b s w = (w, if b then Some s else None)"

text \<open>The body of \<open>_process_document\<close>, up to the first exception.\<close>

definition pipeline_steps ::
  "pipeline_env \<Rightarrow> int \<Rightarrow> processing_job \<Rightarrow> source_document \<Rightarrow> world \<Rightarrow> world \<times> stop option" where
  "pipeline_steps env now j r w =
     (let k = doc_id r; user = job_user j; path = doc_temporary_path r in
      next_step (if doc_status r \<noteq> VALIDATING then lift_move now k user VALIDATING [] w else (w, None)) (\<lambda>w1.
      next_step (stop_if (\<not> safe_path (storage env) k path) (Retryable ''TEMP_PATH_INVALID'') w1) (\<lambda>w2.
      next_step (stop_if ((k, path) \<notin> set (files w2)) (Retryable ''TEMP_FILE_MISSING'') w2) (\<lambda>w3.
      next_step (lift_move now k user PREPROCESSING [] w3) (\<lambda>w4.
      next_step (w4, map_option Retryable (decode_error env k path)) (\<lambda>w5.
      next_step (lift_move now k user OCR_RUNNING [] w5) (\<lambda>w6.
      next_step (run_ocr env r w6) (\<lambda>w7.
      next_step (lift_move now k user PARSING [] w7) (\<lambda>w8.
      lift_move now k user READY_FOR_REVIEW [] w8)))))))))"

fun stop_code :: "stop \<Rightarrow> string" where
  "stop_code (Retryable c) = c"
| "stop_code (NonRetryable c) = c"
| "stop_code Unsupported = ''UNHANDLED_ERROR''"
| "stop_code Crash = ''UNHANDLED_ERROR''"

text \<open>
  The three \<open>except\<close> branches: a document that is gone raises \<open>DoesNotExist\<close>, a deleted one
  ends the job quietly, and any other is marked \<open>FAILED\<close> before the error goes on.
\<close>

definition handle_stop :: "int \<Rightarrow> processing_job \<Rightarrow> id \<Rightarrow> stop \<Rightarrow> world \<Rightarrow> world \<times> stop option" where
  "handle_stop now j k s w =
     (case get_document (data w) k of
        None \<Rightarrow> (w, Some Crash)
      | Some current \<Rightarrow>
          if doc_status current = DELETED then (w, None)
          else next_step
                 (if doc_status current \<noteq> FAILED then lift_move now k (job_user j) FAILED (stop_code s) w
                  else (w, None))
                 (\<lambda>w1. (w1, Some s)))"

definition process_document ::
  "pipeline_env \<Rightarrow> int \<Rightarrow> processing_job \<Rightarrow> source_document \<Rightarrow> world \<Rightarrow> world \<times> stop option" where
  "process_document env now j r w =
     (let (w1, s) = pipeline_steps env now j r w;
          (w2, s2) = (case s of None \<Rightarrow> (w1, None) | Some e \<Rightarrow> handle_stop now j (doc_id r) e w1)
      in (fst (cleanup_document_storage (storage env) (doc_id r) (doc_temporary_path r) w2), s2))"

definition process_document_job ::
  "pipeline_env \<Rightarrow> int \<Rightarrow> processing_job \<Rightarrow> world \<Rightarrow> world \<times> stop option" where
  "process_document_job env now j w =
     (case owned_document (data w) (job_document j) (job_user j) of
        None \<Rightarrow> (w, Some (Retryable ''DOCUMENT_NOT_FOUND''))
      | Some r \<Rightarrow>
          if doc_status r = DELETED then (w, None)
          else (case open_key env r (data w) of
                  Inl _ \<Rightarrow> (w, Some Crash)
                | Inr d \<Rightarrow> process_document env now j r (w\<lparr>data := d\<rparr>)))"

definition dispatch_job :: "pipeline_env \<Rightarrow> int \<Rightarrow> processing_job \<Rightarrow> world \<Rightarrow> world \<times> stop option" where
  "dispatch_job env now j w =
     (if job_task_name j = PROCESS_DOCUMENT then process_document_job env now j w
      else (w, Some Unsupported))"

definition failure_code :: "stop \<Rightarrow> string" where
  "failure_code s = (case s of Unsupported \<Rightarrow> ''UNSUPPORTED_TASK'' | s \<Rightarrow> stop_code s)"

text \<open>
  \<open>process_one_job\<close>: claim, dispatch, and record the outcome; the flag says whether there was a
  job. An error of the claim or of the recording leaves the worker.
\<close>

definition process_one_job ::
  "pipeline_env \<Rightarrow> (rat \<Rightarrow> rat \<Rightarrow> rat) \<Rightarrow> int \<Rightarrow> world \<Rightarrow> world \<times> bool result" where
  "process_one_job env jitter now w =
     (case claim_next now (data w) of
        Inl e \<Rightarrow> (w, Inl e)
      | Inr (d, None) \<Rightarrow> (w\<lparr>data := d\<rparr>, Inr False)
      | Inr (d, Some j) \<Rightarrow>
          (case dispatch_job env now j (w\<lparr>data := d\<rparr>) of
             (w1, None) \<Rightarrow>
               (case mark_succeeded now j (data w1) of
                  Inl e \<Rightarrow> (w1, Inl e) | Inr d1 \<Rightarrow> (w1\<lparr>data := d1\<rparr>, Inr True))
           | (w1, Some s) \<Rightarrow>
               (case mark_failed jitter now j (failure_code s) (data w1) of
                  Inl e \<Rightarrow> (w1, Inl e) | Inr (d1, _) \<Rightarrow> (w1\<lparr>data := d1\<rparr>, Inr True))))"

section \<open>Steps\<close>

lemma next_step_simps [simp]:
  "next_step (w, None) f = f w" "next_step (w, Some s) f = (w, Some s)"
  by (simp_all add: next_step_def)

lemma stop_if_simps [simp]: "stop_if False s w = (w, None)" "stop_if True s w = (w, Some s)"
  by (simp_all add: stop_if_def)

text \<open>A move the table allows on an own document.\<close>

lemma lift_move_ok:
  assumes "get_document (data w) k = Some r" "doc_user r = u" "doc_allowed (doc_status r) s"
  shows "\<exists>w'. lift_move now k u s err w = (w', None) \<and> files w' = files w \<and>
    get_document (data w') k = Some (stamp_document now s err (r\<lparr>doc_status := s\<rparr>))"
proof -
  let ?r' = "stamp_document now s err (r\<lparr>doc_status := s\<rparr>)"
  have t: "transition_document now k u s err (data w) = Inr (put_document ?r' (data w), ?r')"
    using assms by (simp add: transition_document_Inr)
  then have "lift_move now k u s err w = (w\<lparr>data := put_document ?r' (data w)\<rparr>, None)"
    by (simp add: lift_move_def)
  then show ?thesis using transition_document_get [OF t, of k] by simp
qed

text \<open>The document keeps its row and its owner.\<close>

definition held :: "id \<Rightarrow> id \<Rightarrow> world \<Rightarrow> bool" where
  "held k u w = (\<exists>r. get_document (data w) k = Some r \<and> doc_user r = u)"

lemma lift_move_held: "held k u w \<Longrightarrow> held k u (fst (lift_move now k u' s err w))"
proof -
  assume h: "held k u w"
  show ?thesis
  proof (cases "transition_document now k u' s err (data w)")
    case (Inl e)
    then show ?thesis using h by (simp add: lift_move_def)
  next
    case (Inr p)
    then obtain d r' where t: "transition_document now k u' s err (data w) = Inr (d, r')" by (cases p) auto
    then have "get_document d k = Some r'" using transition_document_get by simp
    moreover have "doc_user r' = u"
      using t h by (auto simp: transition_document_Inr held_def simp del: stamp_document.simps)
    ultimately show ?thesis using t by (simp add: lift_move_def held_def)
  qed
qed

lemma next_step_held:
  "held k u (fst p) \<Longrightarrow> (\<And>w. held k u w \<Longrightarrow> held k u (fst (f w))) \<Longrightarrow> held k u (fst (next_step p f))"
  by (cases p; cases "snd p") auto

lemma pipeline_steps_held:
  assumes "held (doc_id r) u w" "\<And>w. held (doc_id r) u w \<Longrightarrow> held (doc_id r) u (fst (run_ocr env r w))"
  shows "held (doc_id r) u (fst (pipeline_steps env now j r w))"
  unfolding pipeline_steps_def Let_def
  by (intro next_step_held lift_move_held assms)
    (use assms in \<open>auto simp: stop_if_def intro: lift_move_held\<close>)

lemma next_step_None: "next_step p f = (w, None) \<longleftrightarrow> (\<exists>w0. p = (w0, None) \<and> f w0 = (w, None))"
  by (cases p; cases "snd p") auto

lemma lift_move_None:
  "lift_move now k u s err w = (w', None) \<Longrightarrow> \<exists>r. get_document (data w') k = Some r \<and> doc_status r = s"
proof -
  assume "lift_move now k u s err w = (w', None)"
  then obtain d r' where t: "transition_document now k u s err (data w) = Inr (d, r')" "w' = w\<lparr>data := d\<rparr>"
    by (auto simp: lift_move_def split: sum.splits)
  then have "doc_status r' = s" by (auto simp: transition_document_Inr simp del: stamp_document.simps)
  then show ?thesis using t transition_document_get [OF t(1), of k] by simp
qed

lemma pipeline_steps_None:
  "pipeline_steps env now j r w = (w', None) \<Longrightarrow>
   \<exists>r'. get_document (data w') (doc_id r) = Some r' \<and> doc_status r' = READY_FOR_REVIEW"
  unfolding pipeline_steps_def Let_def next_step_None by (blast dest: lift_move_None)

lemma handle_stop_outcome:
  assumes "held k (job_user j) w" "handle_stop now j k s w = (w', s')"
  shows "\<exists>r'. get_document (data w') k = Some r' \<and> doc_status r' \<notin> set IN_FLIGHT_STATUSES \<and>
    (s' = None \<longrightarrow> doc_status r' = DELETED)"
proof -
  obtain r where r: "get_document (data w) k = Some r" "doc_user r = job_user j"
    using assms(1) by (auto simp: held_def)
  consider "doc_status r = DELETED" | "doc_status r = FAILED"
    | "doc_status r \<notin> {DELETED, FAILED}" "doc_allowed (doc_status r) FAILED"
    | "doc_status r \<notin> {DELETED, FAILED}" "\<not> doc_allowed (doc_status r) FAILED"
    by blast
  then show ?thesis
  proof cases
    case 3
    obtain w1 where w1: "lift_move now k (job_user j) FAILED (stop_code s) w = (w1, None)"
        "get_document (data w1) k = Some (stamp_document now FAILED (stop_code s) (r\<lparr>doc_status := FAILED\<rparr>))"
      using lift_move_ok [OF r 3(2)] by blast
    then show ?thesis using assms(2) r(1) 3(1) by (auto simp: handle_stop_def IN_FLIGHT_STATUSES_def)
  next
    case 4
    then have "transition_document now k (job_user j) FAILED (stop_code s) (data w) = Inl ConflictError"
      using r by (simp add: transition_document_def owned_document_def)
    then have "w' = w \<and> s' = Some Crash" using assms(2) r(1) 4(1) by (simp add: handle_stop_def lift_move_def)
    moreover have "doc_status r \<notin> set IN_FLIGHT_STATUSES"
      using 4 by (cases "doc_status r") (simp_all add: doc_allowed_def IN_FLIGHT_STATUSES_def)
    ultimately show ?thesis using r(1) by simp
  qed (use assms(2) r in \<open>auto simp: handle_stop_def IN_FLIGHT_STATUSES_def\<close>)
qed

lemma cleanup_document:
  "get_document (data (fst (cleanup_document_storage fs k path w))) k = Some r' \<longleftrightarrow>
     (\<exists>r c. get_document (data w) k = Some r \<and> r' = r\<lparr>doc_cleanup_error_code := c\<rparr> \<and>
        (path = [] \<longrightarrow> c = doc_cleanup_error_code r) \<and>
        (path \<noteq> [] \<longrightarrow> c = (if snd (cleanup_document_storage fs k path w) then [] else ''CLEANUP_FAILED'')))"
  by (auto simp: cleanup_document_storage_def set_cleanup_code_get)

text \<open>
  C16. Whatever the decoder and the OCR run do, as long as they leave the document its row and its
  owner, a finished call of the pipeline leaves the document in no in-flight status: ready for
  review or deleted when it returned, and out of the pipeline when it raised.
\<close>

theorem pipeline_leaves_nothing_in_flight:
  assumes "get_document (data w) (doc_id r) = Some r0" "doc_user r0 = job_user j"
    and "\<And>w. held (doc_id r) (job_user j) w \<Longrightarrow> held (doc_id r) (job_user j) (fst (run_ocr env r w))"
  shows "\<exists>w' s r'. process_document env now j r w = (w', s) \<and> get_document (data w') (doc_id r) = Some r' \<and>
    doc_status r' \<notin> set IN_FLIGHT_STATUSES \<and>
    (s = None \<longrightarrow> doc_status r' = READY_FOR_REVIEW \<or> doc_status r' = DELETED)"
proof -
  obtain w1 s1 where p: "pipeline_steps env now j r w = (w1, s1)" by fastforce
  define q where "q = (case s1 of None \<Rightarrow> (w1, None) | Some e \<Rightarrow> handle_stop now j (doc_id r) e w1)"
  have h: "held (doc_id r) (job_user j) w1"
    using pipeline_steps_held [of r "job_user j" w env now j] assms p by (auto simp: held_def)
  have "\<exists>r'. get_document (data (fst q)) (doc_id r) = Some r' \<and> doc_status r' \<notin> set IN_FLIGHT_STATUSES \<and>
      (snd q = None \<longrightarrow> doc_status r' = READY_FOR_REVIEW \<or> doc_status r' = DELETED)"
  proof (cases s1)
    case None
    then show ?thesis using pipeline_steps_None [of env now j r w w1] p
      by (auto simp: q_def IN_FLIGHT_STATUSES_def)
  next
    case (Some e)
    then show ?thesis using handle_stop_outcome [OF h, of now e "fst q" "snd q"] by (auto simp: q_def)
  qed
  then obtain r' where r': "get_document (data (fst q)) (doc_id r) = Some r' \<and> doc_status r' \<notin> set IN_FLIGHT_STATUSES \<and>
      (snd q = None \<longrightarrow> doc_status r' = READY_FOR_REVIEW \<or> doc_status r' = DELETED)" by (rule exE)
  have pd: "process_document env now j r w =
      (fst (cleanup_document_storage (storage env) (doc_id r) (doc_temporary_path r) (fst q)), snd q)"
    unfolding process_document_def Let_def p prod.case q_def [symmetric] by (cases q) simp
  obtain c where "get_document (data (fst (cleanup_document_storage (storage env) (doc_id r) (doc_temporary_path r) (fst q)))) (doc_id r)
      = Some (r'\<lparr>doc_cleanup_error_code := c\<rparr>)"
    using r' by (auto simp: cleanup_document)
  then show ?thesis using r' pd by (intro exI conjI) auto
qed

text \<open>An OCR run that reads the image and changes nothing.\<close>

definition quiet_env :: pipeline_env where
  "quiet_env = \<lparr>storage = plain_storage, decode_error = \<lambda>_ _. None, open_key = \<lambda>_ d. Inr d,
     run_ocr = \<lambda>_ w. (w, None)\<rparr>"

definition validating_world :: world where
  "validating_world = \<lparr>data = empty_db\<lparr>users := [1], documents := [stored_document 2 VALIDATING],
       jobs := [start_job 7 (sample_job 4 2 3)], next_id := 6\<rparr>,
     files = [(2, ''/tmp/original.png'')]\<rparr>"

lemma validating_document: "get_document (data validating_world) 2 = Some (stored_document 2 VALIDATING)"
  by (simp add: validating_world_def stored_document_def get_document_def)

theorem pipeline_leaves_nothing_in_flight_witness:
  "\<exists>w' s r'. process_document quiet_env 8 (start_job 7 (sample_job 4 2 3)) (stored_document 2 VALIDATING) validating_world = (w', s) \<and>
     get_document (data w') 2 = Some r' \<and> doc_status r' \<notin> set IN_FLIGHT_STATUSES"
proof -
  have "doc_id (stored_document 2 VALIDATING) = 2" "doc_user (stored_document 2 VALIDATING) = job_user (start_job 7 (sample_job 4 2 3))"
    by (simp_all add: stored_document_def sample_job_def)
  then show ?thesis
    using pipeline_leaves_nothing_in_flight [of validating_world "stored_document 2 VALIDATING"
        "stored_document 2 VALIDATING" "start_job 7 (sample_job 4 2 3)" quiet_env 8] validating_document
    by (auto simp: quiet_env_def)
qed

text \<open>
  A screenshot that decodes and that OCR reads is ready for review afterwards, the job succeeds
  and the file is removed.
\<close>

theorem pipeline_reads_the_screenshot:
  assumes "get_document (data w) (doc_id r) = Some r" "doc_user r = job_user j" "doc_status r = VALIDATING"
    and "safe_path (storage env) (doc_id r) (doc_temporary_path r)" "removable (storage env) (doc_id r)"
    and "(doc_id r, doc_temporary_path r) \<in> set (files w)" "doc_temporary_path r \<noteq> []"
    and "decode_error env (doc_id r) (doc_temporary_path r) = None"
    and "\<And>w1 r1. get_document (data w1) (doc_id r) = Some r1 \<Longrightarrow> doc_user r1 = doc_user r \<Longrightarrow>
        doc_status r1 = OCR_RUNNING \<Longrightarrow>
        \<exists>w2 r2. run_ocr env r w1 = (w2, None) \<and> get_document (data w2) (doc_id r) = Some r2 \<and>
          doc_user r2 = doc_user r \<and> doc_status r2 = OCR_RUNNING"
  shows "\<exists>w' r'. process_document env now j r w = (w', None) \<and>
    get_document (data w') (doc_id r) = Some r' \<and> doc_status r' = READY_FOR_REVIEW \<and>
    doc_processing_completed_at r' = Some now \<and> files_of w' (doc_id r) = []"
proof -
  let ?k = "doc_id r" and ?u = "job_user j"
  obtain w1 where w1: "lift_move now ?k ?u PREPROCESSING [] w = (w1, None)"
      "get_document (data w1) ?k = Some (stamp_document now PREPROCESSING [] (r\<lparr>doc_status := PREPROCESSING\<rparr>))"
    using lift_move_ok [OF assms(1,2), of PREPROCESSING now "[]"] assms(3) by (auto simp: doc_allowed_def)
  obtain w2 where w2: "lift_move now ?k ?u OCR_RUNNING [] w1 = (w2, None)"
      "\<exists>r2. get_document (data w2) ?k = Some r2 \<and> doc_user r2 = doc_user r \<and> doc_status r2 = OCR_RUNNING"
    using lift_move_ok [OF w1(2), of ?u OCR_RUNNING now "[]"] assms(2) by (auto simp: doc_allowed_def)
  obtain w3 r3 where w3: "run_ocr env r w2 = (w3, None)" "get_document (data w3) ?k = Some r3"
      "doc_user r3 = ?u" "doc_status r3 = OCR_RUNNING"
    using w2(2) assms(2,9) by metis
  obtain w4 where w4: "lift_move now ?k ?u PARSING [] w3 = (w4, None)"
      "get_document (data w4) ?k = Some (r3\<lparr>doc_status := PARSING\<rparr>)"
    using lift_move_ok [OF w3(2,3), of PARSING now "[]"] w3(4) by (auto simp: doc_allowed_def)
  obtain w5 where w5: "lift_move now ?k ?u READY_FOR_REVIEW [] w4 = (w5, None)"
      "get_document (data w5) ?k = Some (r3\<lparr>doc_status := READY_FOR_REVIEW, doc_processing_completed_at := Some now\<rparr>)"
    using lift_move_ok [OF w4(2), of ?u READY_FOR_REVIEW now "[]"] w3(3) by (auto simp: doc_allowed_def)
  have "pipeline_steps env now j r w = (w5, None)"
    using assms(3,4,6,8) w1 w2 w3 w4 w5 by (simp add: pipeline_steps_def Let_def)
  then have pd: "process_document env now j r w =
      (fst (cleanup_document_storage (storage env) ?k (doc_temporary_path r) w5), None)"
    by (simp add: process_document_def)
  obtain w6 where w6: "cleanup_document_storage (storage env) ?k (doc_temporary_path r) w5 = (w6, True)"
    using assms(4,5,7) by (simp add: cleanup_document_storage_def)
  have "get_document (data w6) ?k = Some (r3\<lparr>doc_status := READY_FOR_REVIEW,
      doc_processing_completed_at := Some now, doc_cleanup_error_code := []\<rparr>)"
    using cleanup_document [of "storage env" ?k "doc_temporary_path r" w5] w5(2) w6 assms(7) by auto
  then show ?thesis using pd w6 cleanup_files [OF w6] assms(7) by auto
qed

theorem pipeline_reads_the_screenshot_witness:
  "\<exists>w' r'. process_document quiet_env 8 (start_job 7 (sample_job 4 2 3)) (stored_document 2 VALIDATING) validating_world = (w', None) \<and>
     get_document (data w') 2 = Some r' \<and> doc_status r' = READY_FOR_REVIEW"
proof -
  have "doc_id (stored_document 2 VALIDATING) = 2" "doc_user (stored_document 2 VALIDATING) = job_user (start_job 7 (sample_job 4 2 3))"
    "doc_status (stored_document 2 VALIDATING) = VALIDATING"
    "doc_temporary_path (stored_document 2 VALIDATING) = ''/tmp/original.png''"
    by (simp_all add: stored_document_def sample_job_def)
  then show ?thesis
    using pipeline_reads_the_screenshot [of validating_world "stored_document 2 VALIDATING"
        "start_job 7 (sample_job 4 2 3)" quiet_env 8] validating_document
    by (force simp: quiet_env_def plain_storage_def validating_world_def)
qed

lemma process_document_removes:
  assumes "process_document env now j r w = (w1, s)" "doc_temporary_path r \<noteq> []"
    and "safe_path (storage env) (doc_id r) (doc_temporary_path r)" "removable (storage env) (doc_id r)"
  shows "files_of w1 (doc_id r) = []"
proof -
  obtain w0 where "w1 = fst (cleanup_document_storage (storage env) (doc_id r) (doc_temporary_path r) w0)"
    using assms(1) by (auto simp: process_document_def Let_def case_prod_unfold)
  then have "cleanup_document_storage (storage env) (doc_id r) (doc_temporary_path r) w0 = (w1, True)"
    using assms(2-4) by (simp add: cleanup_document_storage_def)
  then show ?thesis using cleanup_files assms(2) by simp
qed

text \<open>
  C17. A retry never reads the screenshot again: the clean-up runs whether the pipeline returned or
  raised, so any later run of it on the same document finds no file, marks the document
  \<open>FAILED\<close> with \<open>TEMP_FILE_MISSING\<close>, and that code is terminal. A transient OCR error is
  therefore never retried with success.
\<close>

theorem a_retry_finds_no_screenshot:
  assumes "process_document env now j r w = (w1, s)" "doc_temporary_path r \<noteq> []"
    and "safe_path (storage env) (doc_id r) (doc_temporary_path r)" "removable (storage env) (doc_id r)"
    and "files_of w2 (doc_id r) = files_of w1 (doc_id r)"
    and "get_document (data w2) (doc_id r) = Some r2" "doc_status r2 = VALIDATING" "doc_user r2 = job_user j2"
    and "doc_temporary_path r2 = doc_temporary_path r"
    and "safe_path (storage env2) (doc_id r) (doc_temporary_path r)"
  shows "\<exists>w3 r3. process_document env2 later j2 r2 w2 = (w3, Some (Retryable ''TEMP_FILE_MISSING'')) \<and>
    get_document (data w3) (doc_id r) = Some r3 \<and> doc_status r3 = FAILED \<and>
    doc_error_code r3 = ''TEMP_FILE_MISSING'' \<and> \<not> is_retryable_error ''TEMP_FILE_MISSING''"
proof -
  let ?k = "doc_id r"
  have k2: "doc_id r2 = ?k" using assms(6) by (rule get_document_id)
  have "files_of w2 ?k = []" using process_document_removes [OF assms(1-4)] assms(5) by simp
  then have "(?k, doc_temporary_path r) \<notin> set (files w2)" by (simp add: in_files_of)
  then have steps: "pipeline_steps env2 later j2 r2 w2 = (w2, Some (Retryable ''TEMP_FILE_MISSING''))"
    using assms(7,9,10) by (simp add: pipeline_steps_def Let_def k2)
  have code: "take 64 (normalized_code ''TEMP_FILE_MISSING'') = ''TEMP_FILE_MISSING''" by code_simp
  obtain w3 where w3: "lift_move later ?k (job_user j2) FAILED ''TEMP_FILE_MISSING'' w2 = (w3, None)"
      "\<exists>r3. get_document (data w3) ?k = Some r3 \<and> doc_status r3 = FAILED \<and> doc_error_code r3 = ''TEMP_FILE_MISSING''"
    using lift_move_ok [OF assms(6,8), of FAILED later "''TEMP_FILE_MISSING''"] assms(7) code
    by (auto simp: doc_allowed_def)
  have pd: "process_document env2 later j2 r2 w2 =
      (fst (cleanup_document_storage (storage env2) ?k (doc_temporary_path r) w3), Some (Retryable ''TEMP_FILE_MISSING''))"
    using steps w3(1) assms(6,7,9) by (simp add: process_document_def handle_stop_def k2)
  obtain r3 where r3: "get_document (data w3) ?k = Some r3" "doc_status r3 = FAILED"
      "doc_error_code r3 = ''TEMP_FILE_MISSING''" using w3(2) by blast
  obtain c where "get_document (data (fst (cleanup_document_storage (storage env2) ?k (doc_temporary_path r) w3))) ?k =
      Some (r3\<lparr>doc_cleanup_error_code := c\<rparr>)"
    using r3(1) by (auto simp: cleanup_document)
  moreover from r3(2,3) have "doc_status (r3\<lparr>doc_cleanup_error_code := c\<rparr>) = FAILED"
    "doc_error_code (r3\<lparr>doc_cleanup_error_code := c\<rparr>) = ''TEMP_FILE_MISSING''" by simp_all
  moreover have "\<not> is_retryable_error ''TEMP_FILE_MISSING''" by code_simp
  ultimately show ?thesis using pd by blast
qed

theorem a_retry_finds_no_screenshot_witness:
  "\<exists>w1 s w3. process_document (quiet_env\<lparr>run_ocr := \<lambda>_ w. (w, Some (Retryable ''OCR_TIMEOUT''))\<rparr>) 8
       (start_job 7 (sample_job 4 2 3)) (stored_document 2 VALIDATING) validating_world = (w1, s) \<and>
     process_document quiet_env 9 (start_job 7 (sample_job 4 2 3)) (stored_document 2 VALIDATING)
       \<lparr>data = data validating_world, files = files w1\<rparr> = (w3, Some (Retryable ''TEMP_FILE_MISSING''))"
proof -
  let ?r = "stored_document 2 VALIDATING" and ?j = "start_job 7 (sample_job 4 2 3)"
    and ?env = "quiet_env\<lparr>run_ocr := \<lambda>_ w. (w, Some (Retryable ''OCR_TIMEOUT''))\<rparr>"
  obtain w1 s where p: "process_document ?env 8 ?j ?r validating_world = (w1, s)" by fastforce
  have r: "doc_id ?r = 2" "doc_user ?r = job_user ?j" "doc_status ?r = VALIDATING"
    "doc_temporary_path ?r = ''/tmp/original.png''" by (simp_all add: stored_document_def sample_job_def)
  have "files_of \<lparr>data = data validating_world, files = files w1\<rparr> (doc_id ?r) = files_of w1 (doc_id ?r)"
    by (simp add: files_of_def)
  then have "\<exists>w3. process_document quiet_env 9 ?j ?r \<lparr>data = data validating_world, files = files w1\<rparr> =
      (w3, Some (Retryable ''TEMP_FILE_MISSING''))"
    using a_retry_finds_no_screenshot [OF p, of "\<lparr>data = data validating_world, files = files w1\<rparr>" ?r ?j quiet_env 9]
      r validating_document by (auto simp: quiet_env_def plain_storage_def)
  then show ?thesis using p by blast
qed

text \<open>The one available job is claimed, and when its document is in flight it is refused for good.\<close>

lemma only_available:
  assumes "i \<in> set (jobs d)" "available now i" "\<And>x. x \<in> set (jobs d) \<Longrightarrow> available now x \<Longrightarrow> x = i"
  shows "first_available now d = Some i"
proof (cases "first_available now d")
  case None
  then show ?thesis using first_available_None [of now d] assms(1,2) by blast
next
  case (Some x)
  then show ?thesis using assms(3) [of x] first_available_SomeD(1,2) [OF Some] by simp
qed

lemma claims_queued_document:
  assumes "first_available now d = Some i" "get_document d (job_document i) = Some r" "doc_status r = QUEUED"
    and "doc_user r = job_user i" "job_task_name i = PROCESS_DOCUMENT"
    and "r1 = stamp_document now VALIDATING [] (r\<lparr>doc_status := VALIDATING\<rparr>)"
  shows "claim_next now d = Inr (put_job (start_job now i) (put_document r1 d), Some (start_job now i))"
    and "get_document (put_job (start_job now i) (put_document r1 d)) (job_document i) = Some r1"
proof -
  have t: "transition_document now (job_document i) (job_user i) VALIDATING [] d = Inr (put_document r1 d, r1)"
    using assms(2-4) by (simp add: transition_document_Inr doc_allowed_def assms(6))
  have "doc_id r = job_document i" using assms(2) by (rule get_document_id)
  then have "claim_document now i d = Inr (Some (put_document r1 d))"
    using assms(2,3,5) t by (simp add: claim_document_def)
  then show "claim_next now d = Inr (put_job (start_job now i) (put_document r1 d), Some (start_job now i))"
    by (subst claim_next.simps) (simp add: assms(1))
  show "get_document (put_job (start_job now i) (put_document r1 d)) (job_document i) = Some r1"
    using transition_document_get [OF t, of "job_document i"] by simp
qed

lemma refuses_in_flight_document:
  assumes "i \<in> set (jobs d)" "available now i" "\<And>x. x \<in> set (jobs d) \<Longrightarrow> available now x \<Longrightarrow> job_id x = job_id i \<and> x = i"
    and "get_document d (job_document i) = Some r" "doc_status r = VALIDATING" "job_task_name i = PROCESS_DOCUMENT"
  shows "process_one_job env jitter now (w\<lparr>data := d\<rparr>) = (w\<lparr>data := put_job (refuse_job now i) d\<rparr>, Inr False)"
proof -
  have f: "first_available now d = Some i" by (rule only_available [OF assms(1,2)]) (use assms(3) in blast)
  have "claim_document now i d = Inr None" using assms(4-6) by (simp add: claim_document_def)
  moreover have "first_available now (put_job (refuse_job now i) d) = None"
    unfolding first_available_None using assms(3) by (auto simp: put_row_def available_def refuse_job_def split: if_splits)
  then have "claim_next now (put_job (refuse_job now i) d) = Inr (put_job (refuse_job now i) d, None)"
    by (subst claim_next.simps) simp
  ultimately have "claim_next now d = Inr (put_job (refuse_job now i) d, None)"
    by (subst claim_next.simps) (simp add: f)
  then show ?thesis by (simp add: process_one_job_def)
qed

text \<open>The run of a started job whose owner's key does not open: it is queued again, its document left in flight.\<close>

lemma key_failure_requeues:
  assumes "claim_next now (data w) = Inr (d1, Some j)" "queue_ok d1" "get_job d1 (job_id j) = Some j"
    and "get_document d1 (job_document j) = Some r1" "doc_status r1 = VALIDATING" "doc_user r1 = job_user j"
    and "job_task_name j = PROCESS_DOCUMENT" "job_status j = JOB_RUNNING" "\<And>r d. open_key env r d = Inl e"
    and "1 \<le> job_attempt_count j" "job_attempt_count j \<le> 1024" "job_attempt_count j < job_max_attempts j"
  shows "\<exists>t d2. t \<le> 300 * 1000000 \<and> process_one_job env jitter now w = (w\<lparr>data := d2\<rparr>, Inr True) \<and>
    get_document d2 (job_document j) = Some r1 \<and>
    jobs d2 = put_row job_id (j\<lparr>job_status := JOB_QUEUED, job_available_at := now + t, job_locked_at := None,
       job_completed_at := None, job_error_code := take 64 (normalized_code ''UNHANDLED_ERROR'')\<rparr>) (jobs d1)"
proof -
  have disp: "dispatch_job env now j (w\<lparr>data := d1\<rparr>) = (w\<lparr>data := d1\<rparr>, Some Crash)"
    using assms(4-7,9) by (simp add: dispatch_job_def process_document_job_def owned_document_def)
  have "is_retryable_error (normalized_code ''UNHANDLED_ERROR'')" by code_simp
  then obtain t where t: "t \<le> 300 * 1000000"
    and m: "mark_failed jitter now j ''UNHANDLED_ERROR'' d1 =
      Inr (requeue_document (job_document j) (job_user j) (now + t)
        (put_job (j\<lparr>job_status := JOB_QUEUED, job_available_at := now + t, job_locked_at := None,
           job_completed_at := None, job_error_code := take 64 (normalized_code ''UNHANDLED_ERROR'')\<rparr>) d1), True)"
    using mark_failed_requeues [OF assms(3,2)] assms(8,10-12) by metis
  define j2 where "j2 = j\<lparr>job_status := JOB_QUEUED, job_available_at := now + t, job_locked_at := None,
     job_completed_at := None, job_error_code := take 64 (normalized_code ''UNHANDLED_ERROR'')\<rparr>"
  define d2 where "d2 = requeue_document (job_document j) (job_user j) (now + t) (put_job j2 d1)"
  have "process_one_job env jitter now w = (w\<lparr>data := d2\<rparr>, Inr True)"
    using m by (simp add: process_one_job_def assms(1) disp failure_code_def d2_def j2_def)
  moreover have "get_document d2 (job_document j) = Some r1" using assms(4,5) by (simp add: d2_def requeue_document_get)
  moreover have "jobs d2 = put_row job_id j2 (jobs d1)" by (simp add: d2_def)
  ultimately show ?thesis using t unfolding j2_def by blast
qed

text \<open>
  C18. A key that cannot be opened strands the document: the job is requeued with
  \<open>UNHANDLED_ERROR\<close> while its document stays \<open>VALIDATING\<close>, so the next claim refuses that very
  job, and the document is left in flight with no active job.
\<close>

theorem key_failure_strands_document:
  assumes "get_document (data w) (job_document i) = Some r" "doc_status r = QUEUED" "doc_user r = job_user i"
    and "i \<in> set (jobs (data w))" "available now i" "job_task_name i = PROCESS_DOCUMENT"
    and "\<And>x. x \<in> set (jobs (data w)) \<Longrightarrow> job_status x = JOB_QUEUED \<Longrightarrow> x = i"
    and "queue_ok (data w)" "Suc (job_attempt_count i) < job_max_attempts i" "job_attempt_count i < 1024"
    and "\<And>r d. open_key env r d = Inl e" and "now + 300 * 1000000 \<le> later"
  shows "\<exists>w1 w2 r'. process_one_job env jitter now w = (w1, Inr True) \<and>
    process_one_job env2 jitter2 later w1 = (w2, Inr False) \<and>
    get_document (data w2) (job_document i) = Some r' \<and> doc_status r' = VALIDATING \<and>
    (\<forall>j \<in> set (jobs (data w2)). \<not> active_job (job_document i) j)"
proof -
  let ?d = "data w" and ?k = "job_document i" and ?j = "start_job now i"
  define r1 where "r1 = stamp_document now VALIDATING [] (r\<lparr>doc_status := VALIDATING\<rparr>)"
  define d1 where "d1 = put_job ?j (put_document r1 ?d)"
  have dist: "distinct (keys job_id (jobs ?d))" using assms(8) by (simp add: queue_ok_def table_ok_def)
  have first: "first_available now ?d = Some i"
    by (rule only_available [OF assms(4,5)], rule assms(7)) (simp_all add: available_def)
  note c = claims_queued_document [OF first assms(1-3,6) r1_def, folded d1_def]
  have job1: "get_job d1 (job_id ?j) = Some ?j"
    using put_job_get [of "put_document r1 ?d" ?j i] get_job_distinct [OF dist assms(4)] by (simp add: d1_def get_job_def)
  have r1: "doc_status r1 = VALIDATING" "doc_user r1 = job_user i" using assms(3) by (simp_all add: r1_def)
  obtain t d2 where t: "t \<le> 300 * 1000000" and step1: "process_one_job env jitter now w = (w\<lparr>data := d2\<rparr>, Inr True)"
    and doc2: "get_document d2 (job_document ?j) = Some r1"
    and jobs2: "jobs d2 = put_row job_id (?j\<lparr>job_status := JOB_QUEUED, job_available_at := now + t, job_locked_at := None,
       job_completed_at := None, job_error_code := take 64 (normalized_code ''UNHANDLED_ERROR'')\<rparr>) (jobs d1)"
    using key_failure_requeues [OF c(1) claim_ok(1) [OF c(1) assms(8)] job1, of r1 env e jitter] c(2) r1 assms(6,9,10,11)
    by auto
  define j2 where "j2 = ?j\<lparr>job_status := JOB_QUEUED, job_available_at := now + t, job_locked_at := None,
     job_completed_at := None, job_error_code := take 64 (normalized_code ''UNHANDLED_ERROR'')\<rparr>"
  have j2: "job_id j2 = job_id i" "job_document j2 = ?k" "job_task_name j2 = PROCESS_DOCUMENT" "available later j2"
    using t assms(6,12) by (simp_all add: j2_def available_def)
  have all2: "jobs d2 = put_row job_id j2 (put_row job_id ?j (jobs ?d))" by (simp add: jobs2 j2_def d1_def)
  have rows2: "x = j2 \<or> x \<in> set (jobs ?d) \<and> job_id x \<noteq> job_id i" if "x \<in> set (jobs d2)" for x
    using that by (auto simp: all2 put_row_def j2(1) split: if_splits)
  have in2: "j2 \<in> set (jobs d2)" using assms(4) by (force simp: all2 put_row_def j2(1))
  have only2: "job_id x = job_id j2 \<and> x = j2" if "x \<in> set (jobs d2)" "available later x" for x
    using rows2 [OF that(1)] that(2) assms(7) by (auto simp: available_def)
  have step2: "process_one_job env2 jitter2 later (w\<lparr>data := d2\<rparr>) = (w\<lparr>data := put_job (refuse_job later j2) d2\<rparr>, Inr False)"
    by (rule refuses_in_flight_document [OF in2 j2(4) only2]) (use doc2 r1(1) j2 in simp_all)
  have "\<not> active_job ?k x" if x: "x \<in> set (jobs (put_job (refuse_job later j2) d2))" for x
  proof
    assume a: "active_job ?k x"
    have "x = refuse_job later j2 \<or> x \<in> set (jobs d2) \<and> job_id x \<noteq> job_id i"
      using x by (auto simp: put_row_def j2(1) split: if_splits)
    then have "x \<in> set (jobs ?d)" "job_id x \<noteq> job_id i" using a rows2 [of x] j2(1) by (auto simp: active_job_def refuse_job_def)
    moreover have "active_job ?k i" using assms(5,6) by (simp add: active_job_def available_def)
    ultimately show False using a assms(4,8) unfolding queue_ok_def one_active_def by blast
  qed
  then show ?thesis using step1 step2 r1(1) doc2
    by (intro exI [of _ "w\<lparr>data := d2\<rparr>"] exI [of _ "w\<lparr>data := put_job (refuse_job later j2) d2\<rparr>"] exI [of _ r1]) simp
qed

text \<open>A queued document, whose owner's key does not open.\<close>

definition queued_world :: world where
  "queued_world = \<lparr>data = empty_db\<lparr>users := [1], documents := [stored_document 2 QUEUED],
       jobs := [sample_job 4 2 3], next_id := 6\<rparr>,
     files = [(2, ''/tmp/original.png'')]\<rparr>"

theorem key_failure_strands_document_witness:
  "\<exists>w1 w2 r'. process_one_job (quiet_env\<lparr>open_key := \<lambda>_ _. Inl EncryptionError\<rparr>) (\<lambda>lo hi. hi) 7 queued_world = (w1, Inr True) \<and>
     process_one_job quiet_env (\<lambda>lo hi. hi) 400000000 w1 = (w2, Inr False) \<and>
     get_document (data w2) 2 = Some r' \<and> doc_status r' = VALIDATING \<and>
     (\<forall>j \<in> set (jobs (data w2)). \<not> active_job 2 j)"
proof -
  have i: "job_document (sample_job 4 2 3) = 2" "job_user (sample_job 4 2 3) = 1" "job_task_name (sample_job 4 2 3) = PROCESS_DOCUMENT"
    "job_attempt_count (sample_job 4 2 3) = 0" "job_max_attempts (sample_job 4 2 3) = 3" "available 7 (sample_job 4 2 3)"
    by (simp_all add: sample_job_def available_def)
  have r: "get_document (data queued_world) 2 = Some (stored_document 2 QUEUED)" "doc_status (stored_document 2 QUEUED) = QUEUED"
    "doc_user (stored_document 2 QUEUED) = 1"
    by (simp_all add: queued_world_def stored_document_def get_document_def)
  have q: "queue_ok (data queued_world)" "set (jobs (data queued_world)) = {sample_job 4 2 3}"
    by (simp_all add: queue_ok_def table_ok_def keys_def one_active_def queued_world_def sample_job_def)
  have "\<exists>w1 w2 r'. process_one_job (quiet_env\<lparr>open_key := \<lambda>_ _. Inl EncryptionError\<rparr>) (\<lambda>lo hi. hi) 7 queued_world = (w1, Inr True) \<and>
     process_one_job quiet_env (\<lambda>lo hi. hi) 400000000 w1 = (w2, Inr False) \<and>
     get_document (data w2) (job_document (sample_job 4 2 3)) = Some r' \<and> doc_status r' = VALIDATING \<and>
     (\<forall>j \<in> set (jobs (data w2)). \<not> active_job (job_document (sample_job 4 2 3)) j)"
    by (rule key_failure_strands_document [where r = "stored_document 2 QUEUED" and e = EncryptionError])
       (simp_all add: i r q)
  then show ?thesis by (simp only: i)
qed

end
