(* ===== verification/Observations.thy ===== *)
theory Observations
  imports Transactions Hierarchy
begin

text \<open>
  Imported observations under review (\<open>apps/observations\<close>): the risk score (\<open>risk.py\<close>), the row's
  own checks (\<open>models.py\<close>), and the reviewer's decisions: correct, accept, reject and merge
  (\<open>review.py\<close>).
\<close>

section \<open>Risk\<close>

definition LOW_CONFIDENCE_THRESHOLD :: rat where "LOW_CONFIDENCE_THRESHOLD = 7 / 10"

definition FLAG_RISK :: "(string \<times> nat) list" where
  "FLAG_RISK =
     [(''ambiguous_amount'', 100), (''missing_amount'', 95), (''balance_mismatch'', 90),
      (''parser_error'', 85), (''unknown_direction'', 80), (''missing_direction'', 80),
      (''missing_date'', 70), (''ambiguous_date'', 70), (''parser_fallback'', 50),
      (''settlement_candidate'', 45), (''ambiguous_merchant'', 30), (''missing_merchant'', 20)]"

definition UNKNOWN_MAPPING_RISK :: nat where "UNKNOWN_MAPPING_RISK = 75"
definition LOW_CONFIDENCE_RISK :: nat where "LOW_CONFIDENCE_RISK = 40"
definition HIGH_RISK_THRESHOLD :: nat where "HIGH_RISK_THRESHOLD = 80"

definition AMOUNT_FLAGS :: "string list" where
  "AMOUNT_FLAGS = [''ambiguous_amount'', ''missing_amount'']"

definition MISSING_FLAGS :: "string list" where
  "MISSING_FLAGS = [''missing_amount'', ''missing_date'', ''missing_direction'', ''missing_merchant'']"

definition scored_flags :: "string list \<Rightarrow> rat \<Rightarrow> bool \<Rightarrow> (nat \<times> string) list" where
  "scored_flags flags overall_confidence has_mapping =
     List.map_filter (\<lambda>f. map_option (\<lambda>risk. (risk, f)) (map_of FLAG_RISK f)) flags @
     (if has_mapping then [] else [(UNKNOWN_MAPPING_RISK, ''unknown_mapping'')]) @
     (if overall_confidence \<le> LOW_CONFIDENCE_THRESHOLD then [(LOW_CONFIDENCE_RISK, ''low_confidence'')] else [])"

text \<open>Worst first, equal risks by name: two stable sorts.\<close>

definition score_flags :: "string list \<Rightarrow> rat \<Rightarrow> bool \<Rightarrow> nat \<times> string list" where
  "score_flags flags overall_confidence has_mapping =
     (let scored = scored_flags flags overall_confidence has_mapping in
      if scored = [] then (0, [])
      else (Max (set (map fst scored)), map snd (sort_key (\<lambda>s. - int (fst s)) (sort_key snd scored))))"

definition project_flags :: "string list \<Rightarrow> imported_observation \<Rightarrow> imported_observation" where
  "project_flags flags ob =
     ob\<lparr>ob_amount_uncertain := list_ex (\<lambda>f. f \<in> set AMOUNT_FLAGS) flags,
        ob_balance_mismatched := (''balance_mismatch'' \<in> set flags),
        ob_has_missing_fields := list_ex (\<lambda>f. f \<in> set MISSING_FLAGS) flags,
        ob_is_settlement_candidate := (''settlement_candidate'' \<in> set flags)\<rparr>"

definition rescored :: "imported_observation \<Rightarrow> imported_observation" where
  "rescored ob =
     (project_flags (ob_review_flags ob) ob)
       \<lparr>ob_risk_score := fst (score_flags (ob_review_flags ob) (ob_overall_confidence ob)
          (ob_financial_account_guess ob \<noteq> None \<or> ob_payment_instrument_guess ob \<noteq> None))\<rparr>"

section \<open>The row\<close>

definition RESOLVED_STATUSES :: "review_status list" where
  "RESOLVED_STATUSES = [REJECTED, MERGED]"

definition ACCEPTED_STATUSES :: "review_status list" where
  "ACCEPTED_STATUSES = [ACCEPTED, CORRECTED]"

definition feeds_reports :: "imported_observation \<Rightarrow> bool" where
  "feeds_reports ob = (ob_review_status ob \<in> set ACCEPTED_STATUSES \<and> ob_canonical ob \<noteq> None)"

text \<open>The check constraints of the table, which every save meets.\<close>

definition observation_constraints :: "imported_observation \<Rightarrow> bool" where
  "observation_constraints ob =
     (0 \<le> ob_overall_confidence ob \<and> ob_overall_confidence ob \<le> 1 \<and>
      (ob_merged_into ob = None \<or> ob_canonical ob = None) \<and>
      (ob_merged_into ob = None \<or> ob_review_status ob = MERGED))"

definition save_observation :: "imported_observation \<Rightarrow> db \<Rightarrow> db result" where
  "save_observation ob d =
     raise_if (\<not> observation_constraints ob) IntegrityError (Inr (put_observation ob d))"

text \<open>\<open>clean\<close>: confidences in range, dates in order, related rows of the same owner.\<close>

definition in_unit :: "rat \<Rightarrow> bool" where "in_unit x = (0 \<le> x \<and> x \<le> 1)"

definition related_ok :: "('r \<Rightarrow> id) \<Rightarrow> (id \<Rightarrow> 'r option) \<Rightarrow> id option \<Rightarrow> id \<Rightarrow> bool" where
  "related_ok owner row k user =
     (case k of None \<Rightarrow> True | Some i \<Rightarrow> owned owner (row i) user)"

definition ob_clean :: "db \<Rightarrow> imported_observation \<Rightarrow> imported_observation result" where
  "ob_clean d ob =
     (let c = (if ob_currency ob = [] then [] else normalize_code (ob_currency ob)) in
      raise_if
        (c \<noteq> [] \<and> \<not> is_supported c \<or>
         \<not> in_unit (ob_ocr_confidence ob) \<or> \<not> in_unit (ob_parser_confidence ob) \<or>
         \<not> in_unit (ob_overall_confidence ob) \<or>
         (case (ob_posted_at ob, ob_occurred_at ob) of (Some p, Some t) \<Rightarrow> p < t | _ \<Rightarrow> False) \<or>
         \<not> owned doc_user (get_document d (ob_source_document ob)) (ob_user ob) \<or>
         \<not> related_ok fa_user (get_account d) (ob_financial_account_guess ob) (ob_user ob) \<or>
         \<not> related_ok pi_user (get_instrument d) (ob_payment_instrument_guess ob) (ob_user ob) \<or>
         \<not> related_ok cat_user (get_category d) (ob_category_guess ob) (ob_user ob) \<or>
         \<not> related_ok tx_user (get_tx d) (ob_canonical ob) (ob_user ob) \<or>
         ob_merged_into ob = Some (ob_id ob))
        ValidationError (Inr (ob\<lparr>ob_currency := c\<rparr>)))"

definition lock_observation :: "db \<Rightarrow> id \<Rightarrow> id \<Rightarrow> imported_observation result" where
  "lock_observation d k user =
     (case get_observation d k of
        None \<Rightarrow> Inl ForbiddenError
      | Some ob \<Rightarrow> raise_if (ob_user ob \<noteq> user) ForbiddenError (Inr ob))"

section \<open>Corrections\<close>

text \<open>
  One constructor per correctable field, carrying what the form may hold: a choice or a related
  row that is not valid is \<open>None\<close> or somebody else's, and any other field name is \<open>FixOther\<close>.
\<close>

datatype correction =
    FixCurrency string | FixAmount "int option" | FixOccurredAt "int option"
  | FixPostedAt "int option" | FixMerchant string | FixDirection "direction option"
  | FixType "transaction_type option" | FixAccount "financial_account option"
  | FixInstrument "payment_instrument option" | FixCategory "category_row option"
  | FixInstallments "int option" | FixOther string

fun field_name :: "correction \<Rightarrow> string" where
  "field_name (FixCurrency _) = ''currency''"
| "field_name (FixAmount _) = ''amount_minor''"
| "field_name (FixOccurredAt _) = ''occurred_at''"
| "field_name (FixPostedAt _) = ''posted_at''"
| "field_name (FixMerchant _) = ''merchant''"
| "field_name (FixDirection _) = ''direction''"
| "field_name (FixType _) = ''transaction_type_guess''"
| "field_name (FixAccount _) = ''financial_account_guess''"
| "field_name (FixInstrument _) = ''payment_instrument_guess''"
| "field_name (FixCategory _) = ''category_guess''"
| "field_name (FixInstallments _) = ''installment_months''"
| "field_name (FixOther name) = name"

definition CORRECTION_ORDER :: "string list" where
  "CORRECTION_ORDER =
     [''currency'', ''amount_minor'', ''occurred_at'', ''posted_at'', ''merchant'', ''direction'',
      ''transaction_type_guess'', ''financial_account_guess'', ''payment_instrument_guess'',
      ''category_guess'', ''installment_months'']"

definition correction_rank :: "correction \<Rightarrow> nat" where
  "correction_rank c = length (takeWhile (\<lambda>f. f \<noteq> field_name c) CORRECTION_ORDER)"

definition FLAGS_CLEARED_BY :: "(string \<times> string list) list" where
  "FLAGS_CLEARED_BY =
     [(''occurred_at'', [''missing_date'', ''ambiguous_date'']),
      (''merchant'', [''missing_merchant'', ''ambiguous_merchant'']),
      (''amount_minor'', [''missing_amount'', ''ambiguous_amount'']),
      (''direction'', [''missing_direction'', ''unknown_direction''])]"

definition clear_flags :: "string \<Rightarrow> imported_observation \<Rightarrow> imported_observation" where
  "clear_flags field ob =
     (case map_of FLAGS_CLEARED_BY field of
        None \<Rightarrow> ob
      | Some removable \<Rightarrow>
          ob\<lparr>ob_review_flags := filter (\<lambda>f. f \<notin> set removable) (ob_review_flags ob)\<rparr>)"

text \<open>A related row the reviewer names must be the reviewer's.\<close>

definition owned_row :: "('r \<Rightarrow> id) \<Rightarrow> 'r option \<Rightarrow> id \<Rightarrow> 'r option result" where
  "owned_row owner row user =
     (case row of None \<Rightarrow> Inr None
      | Some r \<Rightarrow> raise_if (owner r \<noteq> user) ObservationActionError (Inr (Some r)))"

text \<open>\<open>_apply_correction\<close>: the row and whether it changed.\<close>

definition unchanged_or ::
  "bool \<Rightarrow> imported_observation \<Rightarrow> imported_observation \<Rightarrow> (imported_observation \<times> bool) result" where
  "unchanged_or same ob ob' = Inr (if same then (ob, False) else (ob', True))"

definition usable_money :: "int \<Rightarrow> string \<Rightarrow> money result" where
  "usable_money n c =
     (case Money n c of
        Inl _ \<Rightarrow> Inl ObservationActionError
      | Inr m \<Rightarrow> raise_if (amount_minor m \<le> 0) ObservationActionError (Inr m))"

fun apply_correction ::
  "id \<Rightarrow> correction \<Rightarrow> imported_observation \<Rightarrow> (imported_observation \<times> bool) result" where
  "apply_correction user (FixMerchant t) ob =
     unchanged_or (t = ob_merchant_raw ob) ob (ob\<lparr>ob_merchant_raw := t\<rparr>)"
| "apply_correction user (FixAmount v) ob =
     (case v of
        None \<Rightarrow> Inl ObservationActionError
      | Some n \<Rightarrow>
          raise_if (ob_currency ob = []) ObservationActionError
          (rbind (usable_money n (ob_currency ob)) (\<lambda>m.
           unchanged_or (ob_amount ob = Some m) ob (ob\<lparr>ob_amount := Some m\<rparr>))))"
| "apply_correction user (FixCurrency s) ob =
     (case Currency s of
        Inl _ \<Rightarrow> Inl ObservationActionError
      | Inr c \<Rightarrow>
          unchanged_or (c = ob_currency ob) ob
            (ob\<lparr>ob_currency := c, ob_amount := map_option (\<lambda>m. m\<lparr>currency := c\<rparr>) (ob_amount ob)\<rparr>))"
| "apply_correction user (FixOccurredAt v) ob =
     unchanged_or (ob_occurred_at ob = v) ob (ob\<lparr>ob_occurred_at := v\<rparr>)"
| "apply_correction user (FixPostedAt v) ob =
     unchanged_or (ob_posted_at ob = v) ob (ob\<lparr>ob_posted_at := v\<rparr>)"
| "apply_correction user (FixDirection v) ob =
     (case v of
        None \<Rightarrow> Inl ObservationActionError
      | Some x \<Rightarrow> unchanged_or (ob_direction ob = x) ob (ob\<lparr>ob_direction := x\<rparr>))"
| "apply_correction user (FixType v) ob =
     (case v of
        None \<Rightarrow> Inl ObservationActionError
      | Some x \<Rightarrow> unchanged_or (ob_type_guess ob = x) ob (ob\<lparr>ob_type_guess := x\<rparr>))"
| "apply_correction user (FixInstallments v) ob =
     raise_if (case v of None \<Rightarrow> False | Some n \<Rightarrow> n < 1) ObservationActionError
       (unchanged_or (ob_installment_months ob = map_option nat v) ob
          (ob\<lparr>ob_installment_months := map_option nat v\<rparr>))"
| "apply_correction user (FixAccount v) ob =
     rbind (owned_row fa_user v user) (\<lambda>r.
       unchanged_or (ob_financial_account_guess ob = map_option fa_id r) ob
         (ob\<lparr>ob_financial_account_guess := map_option fa_id r\<rparr>))"
| "apply_correction user (FixInstrument v) ob =
     rbind (owned_row pi_user v user) (\<lambda>r.
       unchanged_or (ob_payment_instrument_guess ob = map_option pi_id r) ob
         (ob\<lparr>ob_payment_instrument_guess := map_option pi_id r\<rparr>))"
| "apply_correction user (FixCategory v) ob =
     rbind (owned_row cat_user v user) (\<lambda>r.
       unchanged_or (ob_category_guess ob = map_option cat_id r) ob
         (ob\<lparr>ob_category_guess := map_option cat_id r\<rparr>))"
| "apply_correction user (FixOther name) ob = Inl ObservationActionError"

definition correction_step ::
  "id \<Rightarrow> correction \<Rightarrow> imported_observation \<times> string list \<Rightarrow> (imported_observation \<times> string list) result" where
  "correction_step user c s =
     rbind (apply_correction user c (fst s)) (\<lambda>(ob, changed).
       Inr (if changed then (clear_flags (field_name c) ob, snd s @ [field_name c]) else (ob, snd s)))"

text \<open>\<open>sorted(set(old) | set(changed))\<close>\<close>

definition sorted_union :: "string list \<Rightarrow> string list \<Rightarrow> string list" where
  "sorted_union xs ys = sort (remdups (xs @ ys))"

definition correct_observation ::
  "int \<Rightarrow> id \<Rightarrow> id \<Rightarrow> correction list \<Rightarrow> db \<Rightarrow> (db \<times> imported_observation) result" where
  "correct_observation now k user corrections d =
     rbind (lock_observation d k user) (\<lambda>ob.
     raise_if (ob_review_status ob \<in> set RESOLVED_STATUSES) ConflictError
     (raise_if (list_ex (\<lambda>c. field_name c \<notin> set CORRECTION_ORDER) corrections) ObservationActionError
     (rbind (rfold (correction_step user) (sort_key correction_rank corrections) (ob, [])) (\<lambda>(ob1, changed).
      if changed = [] then Inr (d, ob)
      else
        rbind (ob_clean d (ob1\<lparr>ob_corrected_fields := sorted_union (ob_corrected_fields ob) changed,
                 ob_review_status := CORRECTED, ob_reviewed_by := Some user,
                 ob_reviewed_at := Some now\<rparr>)) (\<lambda>ob2.
        rbind (save_observation ob2 d) (\<lambda>d1.
        rbind (save_observation (rescored ob2) d1) (\<lambda>d2.
        rbind (record_audit_event user OBSERVATION_CORRECTED (Some k)
                 [(''fields'', MStrs (sort changed)), (''source_document_id'', MId (ob_source_document ob))] d2) (\<lambda>d3.
        Inr (d3, rescored ob2)))))))))"

section \<open>Acceptance\<close>

definition reviewed_status :: "imported_observation \<Rightarrow> review_status" where
  "reviewed_status ob = (if ob_corrected_fields ob \<noteq> [] then CORRECTED else ACCEPTED)"

definition link_accepted ::
  "int \<Rightarrow> id \<Rightarrow> imported_observation \<Rightarrow> canonical_transaction \<Rightarrow> db \<Rightarrow> db result" where
  "link_accepted now user ob t d =
     save_observation (ob\<lparr>ob_canonical := Some (tx_id t), ob_review_status := reviewed_status ob,
       ob_reviewed_by := Some user, ob_reviewed_at := Some now\<rparr>) d"

definition requires_confirmation :: "imported_observation \<Rightarrow> bool" where
  "requires_confirmation ob = (HIGH_RISK_THRESHOLD \<le> ob_risk_score ob \<or> ob_amount_uncertain ob)"

definition chosen_account ::
  "db \<Rightarrow> id \<Rightarrow> financial_account option \<Rightarrow> id option \<Rightarrow> financial_account result" where
  "chosen_account d user given guess =
     rbind (owned_row fa_user given user) (\<lambda>r.
       case (case r of Some a \<Rightarrow> Some a | None \<Rightarrow> Option.bind guess (get_account d)) of
         None \<Rightarrow> Inl ObservationActionError | Some a \<Rightarrow> Inr a)"

definition usable_amount :: "error \<Rightarrow> money option \<Rightarrow> money result" where
  "usable_amount e m =
     (case m of None \<Rightarrow> Inl e | Some a \<Rightarrow> raise_if (amount_minor a \<le> 0) e (Inr a))"

definition instrument_fits :: "db \<Rightarrow> id option \<Rightarrow> financial_account \<Rightarrow> bool" where
  "instrument_fits d k account =
     (case Option.bind k (get_instrument d) of
        None \<Rightarrow> True | Some i \<Rightarrow> pi_financial_account i = fa_id account)"

text \<open>An exception of one class turned into another: \<open>except ... raise ... from\<close>.\<close>

definition reraise :: "error \<Rightarrow> error \<Rightarrow> 'a result \<Rightarrow> 'a result" where
  "reraise e e' r = (case r of Inl x \<Rightarrow> Inl (if x = e then e' else x) | Inr y \<Rightarrow> Inr y)"

definition accepted_tx ::
  "id \<Rightarrow> imported_observation \<Rightarrow> financial_account \<Rightarrow> money \<Rightarrow> int \<Rightarrow> transaction_type \<Rightarrow> string \<Rightarrow>
     canonical_transaction" where
  "accepted_tx user ob account amount occurred ty key =
     (blank_tx user amount)\<lparr>tx_reviewed_by := Some user, tx_occurred_at := occurred,
        tx_posted_at := ob_posted_at ob, tx_currency := currency amount, tx_type := ty,
        tx_financial_account := fa_id account,
        tx_payment_instrument := ob_payment_instrument_guess ob,
        tx_category := ob_category_guess ob,
        tx_category_source := (if ob_category_guess ob \<noteq> None then ''parser'' else ''uncategorized''),
        tx_merchant := ob_merchant_raw ob, tx_merchant_index := ob_merchant_index ob,
        tx_source_key := key\<rparr>"

text \<open>Confirmed before posting, in the same database transaction.\<close>

definition confirm_and_post ::
  "canonical_transaction \<Rightarrow> posting_rule_accounts option \<Rightarrow> db \<Rightarrow> (db \<times> canonical_transaction) result" where
  "confirm_and_post t accs d =
     (case accs of
        None \<Rightarrow> Inr (d, t)
      | Some c \<Rightarrow>
          (let t1 = t\<lparr>tx_status := CONFIRMED\<rparr> in
           rbind (post_transaction_by_type t1 c (put_tx t1 d)) (\<lambda>(d1, _). Inr (d1, t1))))"

text \<open>Saving once per origin, and posting only what this call created.\<close>

definition make_once ::
  "canonical_transaction \<Rightarrow> posting_rule_accounts option \<Rightarrow> db \<Rightarrow> (db \<times> canonical_transaction \<times> bool) result" where
  "make_once t accs d =
     rbind (save_once t d) (\<lambda>(d1, t1, created).
     rbind (confirm_and_post t1 (if created then accs else None) d1) (\<lambda>(d2, t2).
     Inr (d2, t2, created)))"

definition accept_observation ::
  "int \<Rightarrow> id \<Rightarrow> id \<Rightarrow> financial_account option \<Rightarrow> transaction_type option \<Rightarrow>
     posting_rule_accounts option \<Rightarrow> bool \<Rightarrow> db \<Rightarrow> (db \<times> canonical_transaction) result" where
  "accept_observation now k user given ty accs confirmed d =
     rbind (lock_observation d k user) (\<lambda>ob.
     case ob_canonical ob of
       Some i \<Rightarrow> (case get_tx d i of None \<Rightarrow> Inl DoesNotExist | Some t \<Rightarrow> Inr (d, t))
     | None \<Rightarrow>
        raise_if (ob_review_status ob \<in> set RESOLVED_STATUSES) ConflictError
        (raise_if (requires_confirmation ob \<and> \<not> confirmed) ConflictError
        (rbind (chosen_account d user given (ob_financial_account_guess ob)) (\<lambda>account.
         rbind (usable_amount ObservationActionError (ob_amount ob)) (\<lambda>amount.
         case ob_occurred_at ob of
           None \<Rightarrow> Inl ObservationActionError
         | Some occurred \<Rightarrow>
            raise_if (\<not> instrument_fits d (ob_payment_instrument_guess ob) account) ObservationActionError
            (rbind (source_key OBSERVATION_SOURCE (ob_id ob)) (\<lambda>key.
             rbind (reraise ValidationError ObservationActionError
               (tx_full_clean d ((accepted_tx user ob account amount occurred
                  (case ty of Some x \<Rightarrow> x | None \<Rightarrow> ob_type_guess ob) key)\<lparr>tx_id := next_id d\<rparr>))) (\<lambda>t0.
             rbind (make_once t0 accs d) (\<lambda>(d2, t2, created).
             rbind (link_accepted now user ob t2 d2) (\<lambda>d3.
             rbind (record_audit_event user OBSERVATION_ACCEPTED (Some k)
                      [(''canonical_transaction_id'', MId (tx_id t2)),
                       (''transaction_type'', MStr (type_value (tx_type t2))),
                       (''posted'', MBool (created \<and> accs \<noteq> None)),
                       (''converged'', MBool (\<not> created))] d3) (\<lambda>d4.
             Inr (d4, t2))))))))))))"

section \<open>Rejecting and merging\<close>

definition reject_observation ::
  "int \<Rightarrow> id \<Rightarrow> id \<Rightarrow> string \<Rightarrow> db \<Rightarrow> (db \<times> imported_observation) result" where
  "reject_observation now k user reason d =
     rbind (lock_observation d k user) (\<lambda>ob.
     raise_if (ob_canonical ob \<noteq> None) ConflictError
     (if ob_review_status ob = REJECTED then Inr (d, ob)
      else (let ob1 = ob\<lparr>ob_review_status := REJECTED, ob_reviewed_by := Some user,
                        ob_reviewed_at := Some now\<rparr> in
            rbind (save_observation ob1 d) (\<lambda>d1.
            rbind (record_audit_event user OBSERVATION_REJECTED (Some k)
                     [(''reason_length'', MInt (int (length reason)))] d1) (\<lambda>d2.
            Inr (d2, ob1))))))"

definition merge_step ::
  "int \<Rightarrow> id \<Rightarrow> id \<Rightarrow> id \<Rightarrow> db \<times> imported_observation list \<Rightarrow> (db \<times> imported_observation list) result" where
  "merge_step now user winner k s =
     raise_if (k = winner) ObservationActionError
     (rbind (lock_observation (fst s) k user) (\<lambda>dup.
      raise_if (ob_canonical dup \<noteq> None) ConflictError
      (if ob_review_status dup = MERGED
       then (if ob_merged_into dup = Some winner then Inr s else Inl ConflictError)
       else (let dup1 = dup\<lparr>ob_merged_into := Some winner, ob_review_status := MERGED,
                          ob_reviewed_by := Some user, ob_reviewed_at := Some now\<rparr> in
             rbind (save_observation dup1 (fst s)) (\<lambda>d1. Inr (d1, snd s @ [dup1]))))))"

definition merge_observations ::
  "int \<Rightarrow> id \<Rightarrow> id \<Rightarrow> id list \<Rightarrow> db \<Rightarrow> (db \<times> imported_observation) result" where
  "merge_observations now user winner duplicates d =
     rbind (lock_observation d winner user) (\<lambda>w.
     raise_if (ob_merged_into w \<noteq> None) ConflictError
     (rbind (rfold (merge_step now user winner) duplicates (d, [])) (\<lambda>(d1, merged).
      if merged = [] then Inr (d1, w)
      else rbind (record_audit_event user OBSERVATION_MERGED (Some winner)
                    [(''merged_observation_ids'', MStrs (sort (map (show_nat \<circ> ob_id) merged))),
                     (''source_document_ids'',
                        MStrs (sort (remdups (map (show_nat \<circ> ob_source_document) merged))))] d1)
             (\<lambda>d2. Inr (d2, w)))))"

section \<open>Making a transaction from evidence\<close>

text \<open>The accounts the caller read: every row is the one stored.\<close>

definition is_stored :: "db \<Rightarrow> ledger_account \<Rightarrow> bool" where
  "is_stored d a = (get_ledger_account d (la_id a) = Some a)"

definition stored_if_given :: "db \<Rightarrow> ledger_account option \<Rightarrow> bool" where
  "stored_if_given d x = (case x of None \<Rightarrow> True | Some a \<Rightarrow> is_stored d a)"

definition accounts_loaded :: "db \<Rightarrow> posting_rule_accounts option \<Rightarrow> bool" where
  "accounts_loaded d accs =
     (case accs of None \<Rightarrow> True
      | Some c \<Rightarrow> is_stored d (pra_account c) \<and> stored_if_given d (pra_offset c) \<and>
          stored_if_given d (pra_transfer_account c) \<and> stored_if_given d (pra_liability_account c))"

lemma accounts_loaded_cong:
  "ledger_accounts d' = ledger_accounts d \<Longrightarrow> accounts_loaded d' accs = accounts_loaded d accs"
  by (simp add: accounts_loaded_def stored_if_given_def is_stored_def get_ledger_account_def cong: option.case_cong)

lemma counter_account_stored:
  assumes "accounts_loaded d (Some c)" "counter_account ty c = Some a"
  shows "is_stored d a"
  using assms by (cases ty) (simp_all add: accounts_loaded_def stored_if_given_def)

lemma build_loaded:
  assumes "build_transaction_postings t c = Inr ps" "accounts_loaded d (Some c)"
  shows "loaded d ps"
proof -
  obtain other where o: "counter_account (tx_type t) c = Some other"
      "ps = (if money_enters (tx_type t) then pair (pra_account c) other (tx_amount t)
              else pair other (pra_account c) (tx_amount t))"
    using assms(1) by (auto simp: build_postings_spec)
  have "is_stored d other" "is_stored d (pra_account c)"
    using counter_account_stored [OF assms(2) o(1)] assms(2) by (simp_all add: accounts_loaded_def)
  then show ?thesis unfolding o(2) by (simp add: loaded_def pair_def is_stored_def)
qed

lemma put_tx_other [simp]:
  "observations (put_tx t d) = observations d" "users (put_tx t d) = users d" "matches (put_tx t d) = matches d"
  "ledger_accounts (put_tx t d) = ledger_accounts d" "entries (put_tx t d) = entries d"
  by (simp_all add: put_tx_def)

lemma confirm_and_post_effect:
  assumes "confirm_and_post t accs d = Inr (d', t')" "books_ok d" "get_tx d (tx_id t) = Some t"
    and "tx_status t = DRAFT" "accounts_loaded d accs"
  shows "good_step d d' \<and> get_tx d' (tx_id t) = Some t' \<and>
    t' = (if accs = None then t else t\<lparr>tx_status := CONFIRMED\<rparr>) \<and>
    observations d' = observations d \<and> users d' = users d \<and> matches d' = matches d \<and>
    (accs = None \<longrightarrow> d' = d) \<and> (accs \<noteq> None \<longrightarrow> is_posted d' (tx_id t))"
proof (cases accs)
  case None
  then show ?thesis using assms(1-3) by (simp add: confirm_and_post_def good_step_def keeps_history_refl)
next
  case (Some c)
  let ?t = "t\<lparr>tx_status := CONFIRMED\<rparr>"
  have "rbind (post_transaction_by_type ?t c (put_tx ?t d)) (\<lambda>(d1, _). Inr (d1, ?t)) = Inr (d', t')"
    using assms(1) Some by (simp only: confirm_and_post_def option.case Let_def)
  then have "t' = ?t \<and> (\<exists>es. post_transaction_by_type ?t c (put_tx ?t d) = Inr (d', es))"
    by (cases "post_transaction_by_type ?t c (put_tx ?t d)") (simp_all add: split_beta, metis prod.collapse)
  then obtain es where ty: "post_transaction_by_type ?t c (put_tx ?t d) = Inr (d', es)" and t': "t' = ?t"
    by blast
  obtain ps where ps: "build_transaction_postings ?t c = Inr ps"
      and post: "post_balanced_transaction ?t ps (put_tx ?t d) = Inr (d', es)"
    using ty by (auto simp: post_transaction_by_type_def)
  have g1: "good_step d (put_tx ?t d)"
    using assms(2,3,4) by (intro good_put [where t = t]) (auto simp: origin_def)
  have get1: "get_tx (put_tx ?t d) (tx_id t) = Some ?t" using get_tx_put [of d ?t t] assms(3) by simp
  have "accounts_loaded (put_tx ?t d) (Some c)"
    using accounts_loaded_cong [of "put_tx ?t d" d] assms(5) Some by simp
  then have "good_step (put_tx ?t d) d'"
    using good_post [OF _ _ _ post] g1 get1 build_loaded [OF ps] by (simp add: good_step_def)
  then have good: "good_step d d'" using g1 good_step_trans by blast
  have d': "d' = fst (bulk_create (map (posting_entry (tx_id t)) ps) (put_tx ?t d))" and two: "2 \<le> length ps"
    using post by (auto simp: post_balanced_Inr postable_def) (metis fst_conv)
  have "is_posted d' (tx_id t)"
  proof -
    have "entries_of d' (tx_id t) \<noteq> []"
      using two by (simp add: d' entries_of_posted flip: length_greater_0_conv)
    then show ?thesis using not_posted by blast
  qed
  then show ?thesis using good get1 Some t' by (simp add: d' bulk_create_simps(1) get_tx_def)
qed

lemma make_once_effect:
  assumes "make_once t accs d = Inr (d', t', created)" "books_ok d" "tx_status t = DRAFT"
    and "tx_source_key t \<noteq> []" "accounts_loaded d accs"
  shows "good_step d d' \<and> get_tx d' (tx_id t') = Some t' \<and>
    observations d' = observations d \<and> users d' = users d \<and> matches d' = matches d \<and>
    (if created
     then same_origin d t = None \<and> get_tx d (tx_id t') = None \<and>
       t' = t\<lparr>tx_id := next_id d, tx_status := (if accs = None then DRAFT else CONFIRMED)\<rparr> \<and>
       (accs \<noteq> None \<longrightarrow> is_posted d' (tx_id t'))
     else d' = d \<and> same_origin d t = Some t')"
proof -
  obtain d1 t1 where s: "save_once t d = Inr (d1, t1, created)"
    and c: "confirm_and_post t1 (if created then accs else None) d1 = Inr (d', t')"
    using assms(1) by (auto simp: make_once_def)
  have g1: "good_step d d1" using good_save_once [OF assms(2) s] .
  show ?thesis
  proof (cases created)
    case True
    then have i: "d1 = fst (insert_tx t d)" "t1 = snd (insert_tx t d)" "same_origin d t = None"
      using s assms(4) by (auto simp: save_once_Inr) (metis fst_conv snd_conv)+
    have t1: "t1 = t\<lparr>tx_id := next_id d\<rparr>" by (simp add: i insert_tx_def Let_def)
    have tab: "table_ok tx_id (transactions d) (next_id d)" using assms(2) by (simp add: books_ok_def)
    have "get_tx d1 (tx_id t1) = Some t1" using get_tx_insert [OF tab, of t] by (simp add: i(1) t1)
    moreover have "accounts_loaded d1 accs"
      using accounts_loaded_cong [of d1 d] assms(5) by (simp add: i(1) insert_tx_def Let_def)
    ultimately have e: "good_step d1 d' \<and> get_tx d' (tx_id t1) = Some t' \<and>
        t' = (if accs = None then t1 else t1\<lparr>tx_status := CONFIRMED\<rparr>) \<and>
        observations d' = observations d1 \<and> users d' = users d1 \<and> matches d' = matches d1 \<and>
        (accs = None \<longrightarrow> d' = d1) \<and> (accs \<noteq> None \<longrightarrow> is_posted d' (tx_id t1))"
      using confirm_and_post_effect [of t1 accs d1 d' t'] c True g1 assms(3) t1 by (simp add: good_step_def)
    have "get_tx d (next_id d) = None" using table_ok_find_new [OF tab order_refl] by (simp add: get_tx_def)
    moreover have "observations d1 = observations d" "users d1 = users d" "matches d1 = matches d"
      by (simp_all add: i(1) insert_tx_def Let_def)
    ultimately show ?thesis using e True i(3) t1 assms(3) good_step_trans [OF g1] by auto
  next
    case False
    then have "d1 = d" "same_origin d t = Some t1" using s by (auto simp: save_once_Inr)
    moreover have "d' = d1" "t' = t1" using c False by (simp_all add: confirm_and_post_def)
    moreover have "get_tx d (tx_id t1) = Some t1"
    proof -
      have "t1 \<in> set (transactions d)" using \<open>same_origin d t = Some t1\<close> by (auto simp: same_origin_def find_Some_iff)
      then show ?thesis using assms(2) table_ok_find [of tx_id "transactions d" "next_id d" t1] by (simp add: books_ok_def get_tx_def)
    qed
    ultimately show ?thesis using g1 False by simp
  qed
qed


lemma same_origin_of_row:
  assumes "origins_ok d" "x \<in> set (transactions d)" "tx_source_key x \<noteq> []" "origin t = origin x"
  shows "same_origin d t = Some x"
proof -
  have "find (\<lambda>y. origin y = origin x) xs = Some x"
    if "distinct (map origin (filter (\<lambda>t. tx_source_key t \<noteq> []) xs))" "x \<in> set xs" for xs
    using that
  proof (induction xs)
    case (Cons y ys)
    show ?case
    proof (cases "origin y = origin x")
      case True
      then have "tx_source_key y \<noteq> []" using assms(3) by (simp add: origin_def)
      then have "x \<notin> set ys" using Cons.prems(1) True assms(3) by (force simp: image_iff)
      then show ?thesis using True Cons.prems(2) by simp
    next
      case False
      then show ?thesis using Cons by (auto split: if_splits)
    qed
  qed simp
  then have "find (\<lambda>y. origin y = origin t) (transactions d) = Some x" using assms by (simp add: origins_ok_def)
  then show ?thesis by (simp add: same_origin_def origin_def cong: conj_cong)
qed

section \<open>Acceptance, step by step\<close>

lemma reraise_Inr [simp]: "reraise e e' r = Inr y \<longleftrightarrow> r = Inr y"
  by (cases r) (auto simp: reraise_def)

lemma lock_observation_Inr [simp]:
  "lock_observation d k user = Inr ob \<longleftrightarrow> get_observation d k = Some ob \<and> ob_user ob = user"
  by (auto simp: lock_observation_def split: option.splits)

lemma save_observation_Inr:
  "save_observation ob d = Inr d' \<longleftrightarrow> observation_constraints ob \<and> d' = put_observation ob d"
  by (auto simp: save_observation_def)

lemma usable_amount_Inr: "usable_amount e m = Inr a \<longleftrightarrow> m = Some a \<and> 0 < amount_minor a"
  by (auto simp: usable_amount_def split: option.splits)

lemma put_observation_other [simp]:
  "transactions (put_observation ob d) = transactions d" "entries (put_observation ob d) = entries d"
  "users (put_observation ob d) = users d" "matches (put_observation ob d) = matches d"
  "get_tx (put_observation ob d) = get_tx d" "is_posted (put_observation ob d) i = is_posted d i"
  "good_step d0 (put_observation ob d) = good_step d0 d"
  by (simp_all add: put_observation_def get_tx_def is_posted_def)

definition observation_key :: "id \<Rightarrow> string" where
  "observation_key i = ''observation'' @ '':'' @ show_nat i"

lemma observation_key: "source_key OBSERVATION_SOURCE i = Inr (observation_key i)"
  by (simp add: source_key_def OBSERVATION_SOURCE_def observation_key_def)

definition accepted_row :: "int \<Rightarrow> id \<Rightarrow> imported_observation \<Rightarrow> id \<Rightarrow> imported_observation" where
  "accepted_row now user ob k =
     ob\<lparr>ob_canonical := Some k, ob_review_status := reviewed_status ob,
       ob_reviewed_by := Some user, ob_reviewed_at := Some now\<rparr>"

definition draft_of ::
  "id \<Rightarrow> imported_observation \<Rightarrow> financial_account \<Rightarrow> money \<Rightarrow> int \<Rightarrow> transaction_type option \<Rightarrow> id \<Rightarrow>
     canonical_transaction" where
  "draft_of user ob account amount occurred ty n =
     (accepted_tx user ob account amount occurred (case ty of Some x \<Rightarrow> x | None \<Rightarrow> ob_type_guess ob)
        (observation_key (ob_id ob)))\<lparr>tx_id := n, tx_currency := normalize_code (currency amount)\<rparr>"

lemma accept_newE:
  assumes "accept_observation now k user given ty accs confirmed d = Inr (d', t)"
    and "get_observation d k = Some ob" "ob_canonical ob = None"
  obtains account amount occurred d2 created a where
    "ob_user ob = user" "ob_review_status ob \<notin> set RESOLVED_STATUSES"
    "requires_confirmation ob \<longrightarrow> confirmed"
    "ob_amount ob = Some amount" "0 < amount_minor amount" "ob_occurred_at ob = Some occurred"
    "make_once (draft_of user ob account amount occurred ty (next_id d)) accs d = Inr (d2, t, created)"
    "observation_constraints (accepted_row now user ob (tx_id t))"
    "d' = (put_observation (accepted_row now user ob (tx_id t)) d2)\<lparr>audits := a\<rparr>"
proof -
  note r = assms(1) [unfolded accept_observation_def]
  have l: "lock_observation d k user = Inr ob"
    using r by (cases "lock_observation d k user") (use assms(2) in auto)
  note r1 = r [unfolded l rbind.simps assms(3) option.case raise_if_Inr]
  obtain account where ac: "chosen_account d user given (ob_financial_account_guess ob) = Inr account"
    using r1 by (cases "chosen_account d user given (ob_financial_account_guess ob)") simp_all
  obtain amount where am: "usable_amount ObservationActionError (ob_amount ob) = Inr amount"
    using r1 by (cases "usable_amount ObservationActionError (ob_amount ob)") (simp_all add: ac)
  obtain occurred where oc: "ob_occurred_at ob = Some occurred"
    using r1 by (cases "ob_occurred_at ob") (simp_all add: ac am)
  obtain t0 where t0: "tx_full_clean d ((accepted_tx user ob account amount occurred
        (case ty of Some x \<Rightarrow> x | None \<Rightarrow> ob_type_guess ob)
        (observation_key (ob_id ob)))\<lparr>tx_id := next_id d\<rparr>) = Inr t0"
    using r1 by (auto simp: ac am oc observation_key)
  have t0_eq: "t0 = draft_of user ob account amount occurred ty (next_id d)"
    using t0 by (auto simp: full_clean_Inr draft_of_def accepted_tx_def)
  obtain d2 t2 created where m: "make_once t0 accs d = Inr (d2, t2, created)"
    using r1 by (cases "make_once t0 accs d") (auto simp: ac am oc observation_key t0)
  have "t2 = t \<and> observation_constraints (accepted_row now user ob (tx_id t)) \<and>
      (\<exists>a. d' = (put_observation (accepted_row now user ob (tx_id t)) d2)\<lparr>audits := a\<rparr>)"
    using r1 by (auto simp: ac am oc observation_key t0 m link_accepted_def save_observation_Inr record_audit_event_Inr
        accepted_row_def)
  then show thesis
    using that [of amount occurred account d2 created] r1 l am oc m t0_eq by (auto simp: usable_amount_Inr)
qed


lemma accepted_feeds: "feeds_reports (accepted_row now user ob i)"
  by (simp add: feeds_reports_def accepted_row_def reviewed_status_def ACCEPTED_STATUSES_def)

lemma get_put_observation:
  "get_observation d (ob_id ob) = Some ob0 \<Longrightarrow>
     get_observation (put_observation ob d) j = (if j = ob_id ob then Some ob else get_observation d j)"
  by (rule observation_table.get_put)

lemma get_observation_id: "get_observation d k = Some ob \<Longrightarrow> ob_id ob = k"
  by (rule observation_table.get_pk)

lemma accept_linked:
  assumes "get_observation d k = Some ob" "ob_user ob = user" "ob_canonical ob = Some i" "get_tx d i = Some t"
  shows "accept_observation now k user given ty accs confirmed d = Inr (d, t)"
  using assms by (simp add: accept_observation_def lock_observation_def)

lemma draft_fields [simp]:
  "tx_status (draft_of u ob a m oc ty n) = DRAFT" "tx_user (draft_of u ob a m oc ty n) = u"
  "tx_source_key (draft_of u ob a m oc ty n) = observation_key (ob_id ob)"
  "tx_amount (draft_of u ob a m oc ty n) = m" "tx_id (draft_of u ob a m oc ty n) = n"
  by (simp_all add: draft_of_def accepted_tx_def blank_tx_def)

lemma observation_key_ne [simp]: "observation_key k \<noteq> []"
  by (simp add: observation_key_def)

text \<open>What any acceptance of a row without a transaction leaves behind.\<close>

lemma accept_effect:
  assumes "accept_observation now k user given ty accs confirmed d = Inr (d', t)"
    and "get_observation d k = Some ob" "ob_canonical ob = None" "books_ok d" "accounts_loaded d accs"
  obtains account amount occurred d2 created a where
    "ob_user ob = user" "requires_confirmation ob \<longrightarrow> confirmed" "ob_amount ob = Some amount"
    "0 < amount_minor amount"
    "d' = (put_observation (accepted_row now user ob (tx_id t)) d2)\<lparr>audits := a\<rparr>"
    "observations d2 = observations d" "good_step d d2" "get_tx d2 (tx_id t) = Some t"
    "if created then same_origin d (draft_of user ob account amount occurred ty (next_id d)) = None \<and>
         get_tx d (tx_id t) = None \<and>
         t = (draft_of user ob account amount occurred ty (next_id d))
           \<lparr>tx_id := next_id d, tx_status := (if accs = None then DRAFT else CONFIRMED)\<rparr> \<and>
         (accs \<noteq> None \<longrightarrow> is_posted d2 (tx_id t))
     else d2 = d \<and> same_origin d (draft_of user ob account amount occurred ty (next_id d)) = Some t"
proof (rule accept_newE [OF assms(1-3)])
  fix account amount occurred d2 created a
  assume f: "ob_user ob = user" "requires_confirmation ob \<longrightarrow> confirmed" "ob_amount ob = Some amount"
      "0 < amount_minor amount"
      "d' = (put_observation (accepted_row now user ob (tx_id t)) d2)\<lparr>audits := a\<rparr>"
    and m: "make_once (draft_of user ob account amount occurred ty (next_id d)) accs d = Inr (d2, t, created)"
  have "tx_source_key (draft_of user ob account amount occurred ty (next_id d)) \<noteq> []" by simp
  from make_once_effect [OF m assms(4) draft_fields(1) this assms(5)]
  show thesis using that [OF f, of created account occurred] by blast
qed

lemma accept_row:
  assumes "d' = (put_observation (accepted_row now user ob i) d2)\<lparr>audits := a\<rparr>"
    and "observations d2 = observations d" "get_observation d k = Some ob"
  shows "get_observation d' j = (if j = k then Some (accepted_row now user ob i) else get_observation d j)"
proof -
  have k: "ob_id (accepted_row now user ob i) = k"
    using get_observation_id [OF assms(3)] by (simp add: accepted_row_def)
  have "get_observation d' j = get_observation (put_observation (accepted_row now user ob i) d2) j"
    using assms(1) by (simp add: get_observation_def)
  moreover have "get_observation d2 = get_observation d" using assms(2) by (simp add: get_observation_def fun_eq_iff)
  ultimately show ?thesis using get_put_observation [of d2 "accepted_row now user ob i" ob j] assms(3) k by simp
qed

section \<open>Deleting what a row has made\<close>

lemma delete_row:
  assumes "delete_transaction i user reason confirmed d = Inr (d', res)" "get_tx d i = Some t"
  shows "get_tx d' i = Some (t\<lparr>tx_status := VOIDED, tx_reviewed_by := Some user\<rparr>) \<and>
    observations d' = map (\<lambda>o'. if fed_by i user o' then release_observation o' else o') (observations d)"
  using assms(1)
proof (rule delete_Inr)
  fix t0 d1 es d2 d3 t3
  assume r: "reverse_transaction_postings t0 d = Inr (d1, es)"
    and d2: "d2 = d1\<lparr>observations := map (\<lambda>o'. if fed_by i user o' then release_observation o' else o') (observations d1)\<rparr>"
    and m: "transition_transaction_status i user ''voided'' d2 = Inr (d3, t3)" and d': "\<exists>a. d' = d3\<lparr>audits := a\<rparr>"
  have d1: "transactions d1 = transactions d" "observations d1 = observations d"
    using r by (auto simp: reverse_Inr bulk_create_def Let_def split: if_splits)
  obtain t2 b where t2: "get_tx d2 i = Some t2"
    and d3: "d3 = (put_tx (t2\<lparr>tx_status := VOIDED, tx_reviewed_by := Some user\<rparr>) d2)\<lparr>audits := b\<rparr>"
    using transition_put [of i user VOIDED d2 d3 t3] m by auto
  have eq: "t2 = t" using t2 assms(2) by (simp add: d2 d1 get_tx_def)
  have "get_tx d3 i = Some (t\<lparr>tx_status := VOIDED, tx_reviewed_by := Some user\<rparr>)"
    using get_tx_put [of d2 "t\<lparr>tx_status := VOIDED, tx_reviewed_by := Some user\<rparr>"] t2 get_tx_id [OF assms(2)]
    by (simp add: d3 eq)
  moreover obtain a where "d' = d3\<lparr>audits := a\<rparr>" using d' by blast
  ultimately show ?thesis by (simp add: d3 d2 d1)
qed

lemma released_row:
  assumes "observations d' = map (\<lambda>o'. if fed_by i user o' then release_observation o' else o') (observations d)"
    and "get_observation d k = Some ob" "fed_by i user ob"
  shows "get_observation d' k = Some (release_observation ob)"
  using assms find_row_map [of ob_id "\<lambda>o'. if fed_by i user o' then release_observation o' else o'" "observations d" k]
  by (simp add: get_observation_def release_observation_def)

text \<open>A row whose transaction exists under its origin converges on it, whatever its status.\<close>

lemma accept_converges:
  assumes "accept_observation now k user given ty accs confirmed d = Inr (d', t)"
    and "get_observation d k = Some ob" "ob_canonical ob = None" "books_ok d"
    and "get_tx d i = Some v" "tx_user v = user" "tx_source_key v = observation_key k"
  shows "t = v \<and> (\<exists>a. d' = (put_observation (accepted_row now user ob i) d)\<lparr>audits := a\<rparr>)"
proof (rule accept_newE [OF assms(1-3)])
  fix account amount occurred d2 created a
  let ?t0 = "draft_of user ob account amount occurred ty (next_id d)"
  assume m: "make_once ?t0 accs d = Inr (d2, t, created)"
    and d': "d' = (put_observation (accepted_row now user ob (tx_id t)) d2)\<lparr>audits := a\<rparr>"
  have "v \<in> set (transactions d)" using assms(5) find_row_SomeD by (fastforce simp: get_tx_def)
  then have so: "same_origin d ?t0 = Some v"
    using same_origin_of_row [of d v ?t0] assms(4,6,7) get_observation_id [OF assms(2)]
    by (simp add: books_ok_def origin_def)
  then have "save_once ?t0 d = Inr (d, v, False)" by (simp add: save_once_Inr)
  then have "d2 = d" "t = v" using m by (simp_all add: make_once_def confirm_and_post_def)
  then show ?thesis using d' get_tx_id [OF assms(5)] by blast
qed

section \<open>Merging, row by row\<close>

definition merged_row :: "int \<Rightarrow> id \<Rightarrow> id \<Rightarrow> imported_observation \<Rightarrow> imported_observation" where
  "merged_row now user winner ob =
     (if ob_review_status ob = MERGED then ob
      else ob\<lparr>ob_merged_into := Some winner, ob_review_status := MERGED, ob_reviewed_by := Some user,
             ob_reviewed_at := Some now\<rparr>)"

definition mergeable :: "id \<Rightarrow> id \<Rightarrow> imported_observation \<Rightarrow> bool" where
  "mergeable user winner ob =
     (ob_user ob = user \<and> ob_canonical ob = None \<and> ob_id ob \<noteq> winner \<and>
      (ob_review_status ob = MERGED \<longrightarrow> ob_merged_into ob = Some winner))"

lemma merged_row_simps [simp]:
  "ob_review_status (merged_row now user winner ob) = MERGED"
  "merged_row now2 user2 winner2 (merged_row now user winner ob) = merged_row now user winner ob"
  "ob_id (merged_row now user winner ob) = ob_id ob" "ob_user (merged_row now user winner ob) = ob_user ob"
  "ob_canonical (merged_row now user winner ob) = ob_canonical ob"
  "ob_amount (merged_row now user winner ob) = ob_amount ob"
  "ob_source_document (merged_row now user winner ob) = ob_source_document ob"
  by (simp_all add: merged_row_def)

lemma mergeable_merged_row:
  "mergeable user winner ob \<Longrightarrow>
     mergeable user winner (merged_row now user winner ob) \<and> ob_merged_into (merged_row now user winner ob) = Some winner"
  by (auto simp: mergeable_def merged_row_def)

lemma merge_stepE:
  assumes "merge_step now user winner k (d, m) = Inr (d1, m1)"
  obtains ob x where "get_observation d k = Some ob" "mergeable user winner ob" "d1 = d\<lparr>observations := x\<rparr>"
    "\<And>j. get_observation d1 j = (if j = k then Some (merged_row now user winner ob) else get_observation d j)"
    "ob_review_status ob = MERGED \<and> d1 = d \<and> m1 = m \<or> ob_review_status ob \<noteq> MERGED \<and> m1 \<noteq> []"
proof -
  note r = assms [unfolded merge_step_def raise_if_Inr rbind_Inr lock_observation_Inr fst_conv snd_conv]
  then obtain ob where ob: "k \<noteq> winner" "get_observation d k = Some ob" "ob_user ob = user" "ob_canonical ob = None"
    by blast
  have k: "ob_id ob = k" by (rule get_observation_id [OF ob(2)])
  show thesis
  proof (cases "ob_review_status ob = MERGED")
    case True
    then have s: "d1 = d" "m1 = m" "ob_merged_into ob = Some winner"
      using r ob by (auto split: if_splits)
    show thesis
      by (rule that [of ob "observations d"]) (use ob k s True in \<open>simp_all add: mergeable_def merged_row_def\<close>)
  next
    case False
    then have s: "d1 = put_observation (merged_row now user winner ob) d" "m1 \<noteq> []"
      using r ob by (auto simp: save_observation_Inr merged_row_def Let_def)
    have "get_observation d1 j = (if j = k then Some (merged_row now user winner ob) else get_observation d j)" for j
      using get_put_observation [of d "merged_row now user winner ob" ob j] ob(2) k by (simp add: s(1))
    moreover have "mergeable user winner ob" using ob k False by (simp add: mergeable_def)
    moreover have "d1 = d\<lparr>observations := put_row ob_id (merged_row now user winner ob) (observations d)\<rparr>"
      by (simp only: s(1) put_observation_def)
    ultimately show thesis using that ob(2) s(2) False by blast
  qed
qed

lemma merge_fold:
  assumes "rfold (merge_step now user winner) ks (d, m) = Inr (d1, m1)"
  shows "(\<exists>x. d1 = d\<lparr>observations := x\<rparr>) \<and>
    (\<forall>k \<in> set ks. \<exists>ob. get_observation d k = Some ob \<and> mergeable user winner ob) \<and>
    (\<forall>j. get_observation d1 j = (if j \<in> set ks then map_option (merged_row now user winner) (get_observation d j)
       else get_observation d j)) \<and>
    (m1 = [] \<longrightarrow> d1 = d) \<and> (m \<noteq> [] \<longrightarrow> m1 \<noteq> [])"
  using assms
proof (induction ks arbitrary: d m)
  case Nil
  then show ?case by (auto intro: exI [of _ "observations d"])
next
  case (Cons k ks)
  obtain dm mm where step: "merge_step now user winner k (d, m) = Inr (dm, mm)"
      and rest: "rfold (merge_step now user winner) ks (dm, mm) = Inr (d1, m1)"
    using Cons.prems by auto
  show ?case
    using step
  proof (rule merge_stepE)
    fix ob x
    assume ob: "get_observation d k = Some ob" "mergeable user winner ob" and dm: "dm = d\<lparr>observations := x\<rparr>"
      and get: "\<And>j. get_observation dm j = (if j = k then Some (merged_row now user winner ob) else get_observation d j)"
      and m: "ob_review_status ob = MERGED \<and> dm = d \<and> mm = m \<or> ob_review_status ob \<noteq> MERGED \<and> mm \<noteq> []"
    note IH = Cons.IH [OF rest]
    have "\<exists>ob. get_observation d j = Some ob \<and> mergeable user winner ob" if "j \<in> set ks" for j
    proof (cases "j = k")
      case False
      then show ?thesis using IH [THEN conjunct2, THEN conjunct1, rule_format, OF that] get [of j] by simp
    qed (use ob in blast)
    moreover have "get_observation d1 j = (if j \<in> set (k # ks) then map_option (merged_row now user winner) (get_observation d j)
       else get_observation d j)" for j
      using IH get [of j] ob by (cases "j = k") auto
    moreover have "\<exists>x. d1 = d\<lparr>observations := x\<rparr>" using IH dm by auto
    ultimately show ?thesis using IH m ob by auto
  qed
qed

lemma merge_Inr:
  assumes "merge_observations now user winner ks d = Inr (d', w)"
  obtains d1 m a where "get_observation d winner = Some w" "ob_user w = user" "ob_merged_into w = None"
    "rfold (merge_step now user winner) ks (d, []) = Inr (d1, m)" "m = [] \<Longrightarrow> d' = d1" "d' = d1\<lparr>audits := a\<rparr>"
proof -
  note r = assms [unfolded merge_observations_def rbind_Inr raise_if_Inr lock_observation_Inr]
  then obtain w' d1 m where w: "get_observation d winner = Some w'" "ob_user w' = user" "ob_merged_into w' = None"
    and f: "rfold (merge_step now user winner) ks (d, []) = Inr (d1, m)"
    and rest: "(if m = [] then Inr (d1, w') else rbind (record_audit_event user OBSERVATION_MERGED (Some winner)
        [(''merged_observation_ids'', MStrs (sort (map (show_nat \<circ> ob_id) m))),
         (''source_document_ids'', MStrs (sort (remdups (map (show_nat \<circ> ob_source_document) m))))] d1)
        (\<lambda>d2. Inr (d2, w'))) = Inr (d', w)"
    by (auto simp del: rbind_Inr)
  have "w' = w" "m = [] \<longrightarrow> d' = d1" "\<exists>a. d' = d1\<lparr>audits := a\<rparr>"
    using rest by (auto simp: record_audit_event_Inr split: if_splits intro: exI [of _ "audits d1"])
  then show thesis using that w f by blast
qed

text \<open>The links of the merged rows, as a forest.\<close>

definition merge_forest :: "db \<Rightarrow> forest" where
  "merge_forest d = map (\<lambda>ob. (ob_id ob, ob_merged_into ob)) (observations d)"

definition merge_chain :: "db \<Rightarrow> id \<Rightarrow> id list option" where
  "merge_chain d k = ancestors_from (merge_forest d) (Some k)"

lemma map_of_merge_forest: "map_of (merge_forest d) k = map_option ob_merged_into (get_observation d k)"
proof -
  have "map_of (map (\<lambda>ob. (ob_id ob, ob_merged_into ob)) xs) k = map_option ob_merged_into (find_row ob_id xs k)" for xs
    by (induction xs) auto
  then show ?thesis by (simp add: merge_forest_def get_observation_def)
qed

lemma ancestors_via_root:
  assumes "map_of t' w = Some None" "\<And>j. map_of t' j = map_of t j \<or> map_of t' j = Some (Some w)"
  shows "ancestors_from t start = Some up \<Longrightarrow> ancestors_from t' start \<noteq> None"
proof (induction up arbitrary: start)
  case Nil
  then have "start = None \<or> (\<exists>k. start = Some k \<and> map_of t k = None)"
    by (cases start) (auto split: option.splits bind_splits)
  then show ?case using assms(1) assms(2) [of "the start"] by auto
next
  case (Cons k up)
  then obtain q where q: "start = Some k" "map_of t k = Some q" "ancestors_from t q = Some up"
    by (cases start) (auto split: option.splits bind_splits)
  with Cons.IH [OF q(3)] assms(1) assms(2) [of k] show ?case by auto
qed

section \<open>Corrections, step by step\<close>

text \<open>What no correction touches.\<close>

definition same_evidence :: "imported_observation \<Rightarrow> imported_observation \<Rightarrow> bool" where
  "same_evidence ob ob' =
     (ob_id ob' = ob_id ob \<and> ob_user ob' = ob_user ob \<and> ob_source_document ob' = ob_source_document ob \<and>
      ob_ocr_run ob' = ob_ocr_run ob \<and> ob_row_index ob' = ob_row_index ob \<and>
      ob_merchant_index ob' = ob_merchant_index ob \<and> ob_canonical ob' = ob_canonical ob \<and>
      ob_merged_into ob' = ob_merged_into ob \<and> ob_overall_confidence ob' = ob_overall_confidence ob \<and>
      ob_review_status ob' = ob_review_status ob \<and> ob_corrected_fields ob' = ob_corrected_fields ob \<and>
      set (ob_review_flags ob') \<subseteq> set (ob_review_flags ob))"

lemma same_evidence_refl [simp]: "same_evidence ob ob"
  by (simp add: same_evidence_def)

lemma same_evidence_trans: "same_evidence a b \<Longrightarrow> same_evidence b c \<Longrightarrow> same_evidence a c"
  by (auto simp: same_evidence_def)

lemma unchanged_or_Inr [simp]:
  "unchanged_or same ob ob1 = Inr (ob', ch) \<longleftrightarrow> (ob', ch) = (if same then (ob, False) else (ob1, True))"
  by (auto simp: unchanged_or_def)

lemma apply_correction_evidence:
  "apply_correction user c ob = Inr (ob', ch) \<Longrightarrow> same_evidence ob ob' \<and> ob_review_flags ob' = ob_review_flags ob"
  by (cases c) (auto simp: same_evidence_def split: option.splits sum.splits if_splits)

lemma clear_flags_evidence: "same_evidence ob (clear_flags f ob)"
  by (auto simp: clear_flags_def same_evidence_def split: option.splits)

lemma correction_step_evidence:
  assumes "correction_step user c (ob, ns) = Inr (ob', ns')"
  shows "same_evidence ob ob' \<and> (ns' = ns \<and> ob' = ob \<or> ns' = ns @ [field_name c])"
proof -
  obtain ob1 ch where a: "apply_correction user c ob = Inr (ob1, ch)"
    using assms by (auto simp: correction_step_def)
  have same: "\<not> ch \<Longrightarrow> ob1 = ob"
    using a by (cases c) (auto split: option.splits sum.splits if_splits)
  then show ?thesis
    using assms apply_correction_evidence [OF a] clear_flags_evidence [of ob1] same_evidence_trans
    by (cases ch) (auto simp: correction_step_def a)
qed

lemma correction_fold:
  assumes "rfold (correction_step user) cs (ob, ns) = Inr (ob', ns')"
  shows "same_evidence ob ob' \<and> (\<exists>new. ns' = ns @ new \<and> set new \<subseteq> field_name ` set cs \<and> (new = [] \<longrightarrow> ob' = ob))"
  using assms
proof (induction cs arbitrary: ob ns)
  case (Cons c cs)
  obtain ob1 ns1 where s: "correction_step user c (ob, ns) = Inr (ob1, ns1)"
      and r: "rfold (correction_step user) cs (ob1, ns1) = Inr (ob', ns')"
    using Cons.prems by auto
  obtain new where new: "same_evidence ob1 ob'" "ns' = ns1 @ new" "set new \<subseteq> field_name ` set cs" "new = [] \<longrightarrow> ob' = ob1"
    using Cons.IH [OF r] by blast
  from correction_step_evidence [OF s] show ?case
  proof (elim conjE disjE)
    assume "same_evidence ob ob1" "ns1 = ns" "ob1 = ob"
    then show ?thesis using new by (intro conjI exI [of _ new]) auto
  next
    assume e: "same_evidence ob ob1" "ns1 = ns @ [field_name c]"
    then show ?thesis
      using new same_evidence_trans [OF e(1) new(1)] by (intro conjI exI [of _ "field_name c # new"]) auto
  qed
qed simp

lemma put_row_twice: "pk r0 = pk r \<Longrightarrow> put_row pk r (put_row pk r0 rows) = put_row pk r rows"
  by (auto simp: put_row_def)

lemma correct_observation_Inr:
  assumes "correct_observation now k user cs d = Inr (d', ob')" "get_observation d k = Some ob"
  obtains ob1 where "d' = d" "ob' = ob" "ob_user ob = user"
      "rfold (correction_step user) (sort_key correction_rank cs) (ob, []) = Inr (ob1, [])"
  | ob1 changed a c where "rfold (correction_step user) (sort_key correction_rank cs) (ob, []) = Inr (ob1, changed)"
      "changed \<noteq> []" "ob_user ob = user" "ob_review_status ob \<notin> set RESOLVED_STATUSES"
      "ob' = rescored (ob1\<lparr>ob_corrected_fields := sorted_union (ob_corrected_fields ob) changed,
                 ob_review_status := CORRECTED, ob_reviewed_by := Some user,
                 ob_reviewed_at := Some now, ob_currency := c\<rparr>)"
      "get_observation d' k = Some ob'" "\<exists>x. d' = d\<lparr>observations := x, audits := a\<rparr>"
      "d' = (put_observation ob' d)\<lparr>audits := a\<rparr>" "observation_constraints ob'"
proof -
  note r = assms(1) [unfolded correct_observation_def rbind_Inr raise_if_Inr lock_observation_Inr]
  then obtain ob1 changed where f: "rfold (correction_step user) (sort_key correction_rank cs) (ob, []) = Inr (ob1, changed)"
    and u: "ob_user ob = user" "ob_review_status ob \<notin> set RESOLVED_STATUSES"
    using assms(2) by auto
  show thesis
  proof (cases "changed = []")
    case True
    then show thesis using that(1) r assms(2) f u by auto
  next
    case False
    let ?ob1 = "ob1\<lparr>ob_corrected_fields := sorted_union (ob_corrected_fields ob) changed,
        ob_review_status := CORRECTED, ob_reviewed_by := Some user, ob_reviewed_at := Some now\<rparr>"
    obtain ob2 where c: "ob_clean d ?ob1 = Inr ob2"
      and s: "rbind (save_observation ob2 d) (\<lambda>d1. rbind (save_observation (rescored ob2) d1) (\<lambda>d2.
        rbind (record_audit_event user OBSERVATION_CORRECTED (Some k)
          [(''fields'', MStrs (sort changed)), (''source_document_id'', MId (ob_source_document ob))] d2)
        (\<lambda>d3. Inr (d3, rescored ob2)))) = Inr (d', ob')"
      using r assms(2) f u False by (auto simp del: rbind_Inr simp: rbind_Inr [of "ob_clean d ?ob1"])
    obtain cur where ob2: "ob2 = ?ob1\<lparr>ob_currency := cur\<rparr>" using c by (auto simp: ob_clean_def Let_def)
    have k: "ob_id ob2 = k" "ob_id (rescored ob2) = k"
      using correction_fold [OF f] get_observation_id [OF assms(2)]
      by (simp_all add: ob2 same_evidence_def rescored_def project_flags_def)
    note s1 = s [unfolded rbind_Inr save_observation_Inr record_audit_event_Inr sum.inject prod.inject]
    obtain a where d': "d' = (put_observation (rescored ob2) (put_observation ob2 d))\<lparr>audits := a\<rparr>"
      using s1 by blast
    have ob': "ob' = rescored ob2" using s1 by blast
    have "get_observation (put_observation ob2 d) k = Some ob2"
      using get_put_observation [of d ob2 ob k] assms(2) k by simp
    then have "get_observation (put_observation (rescored ob2) (put_observation ob2 d)) k = Some ob'"
      using get_put_observation [of "put_observation ob2 d" "rescored ob2" ob2 k] k ob' by simp
    then have g: "get_observation d' k = Some ob'" by (simp add: d' get_observation_def)
    have ex: "\<exists>x. d' = d\<lparr>observations := x, audits := a\<rparr>"
      by (simp add: d' put_observation_def) (rule exI, rule refl)
    have eq: "d' = (put_observation ob' d)\<lparr>audits := a\<rparr>"
      using put_row_twice [of ob_id ob2 "rescored ob2"] k by (simp add: d' ob' put_observation_def)
    have oc: "observation_constraints ob'" using s1 ob' by blast
    show thesis by (rule that(2) [OF f False u(1,2) _ g ex eq oc]) (simp only: ob' ob2)
  qed
qed

lemma correct_keeps_books:
  assumes "correct_observation now k user cs d = Inr (d', ob')" "books_ok d"
  shows "books_ok d'"
proof -
  obtain ob where "get_observation d k = Some ob"
    using assms(1) by (auto simp: correct_observation_def)
  from assms(1) this show ?thesis
  proof (cases rule: correct_observation_Inr)
    case (2 ob1 changed a c)
    then obtain x where "d' = d\<lparr>observations := x, audits := a\<rparr>" by blast
    then show ?thesis using assms(2) by simp
  qed (use assms(2) in simp)
qed

section \<open>Rejection\<close>

text \<open>
  \<open>reject_observation\<close> has no guard for a row that was merged: saving it as rejected violates
  the constraint that a row with a merge target says so, and the call ends in the database error.
\<close>

lemma rejecting_a_merged_row_fails:
  assumes "get_observation d k = Some ob" "ob_user ob = user" "ob_canonical ob = None"
    and "ob_review_status ob = MERGED" "ob_merged_into ob \<noteq> None"
  shows "reject_observation now k user reason d = Inl IntegrityError"
  using assms
  by (simp add: reject_observation_def lock_observation_def save_observation_def observation_constraints_def)

section \<open>A review queue, for the witnesses\<close>

definition sample_row :: imported_observation where
  "sample_row = \<lparr>ob_id = 60, ob_user = 1, ob_source_document = 50, ob_ocr_run = None, ob_row_index = 0,
     ob_financial_account_guess = Some 10, ob_payment_instrument_guess = None, ob_category_guess = None,
     ob_occurred_at = Some 200, ob_posted_at = None, ob_merchant_raw = ''mrket'', ob_merchant_normalized = ''mrket'',
     ob_merchant_index = ''mrket-index'', ob_counterparty_raw = [],
     ob_amount = Some \<lparr>amount_minor = 42900, currency = ''KRW''\<rparr>, ob_currency = ''KRW'',
     ob_direction = DIR_DEBIT, ob_balance_after = None, ob_approval_index = [], ob_installment_months = None,
     ob_type_guess = T_PURCHASE, ob_ocr_confidence = 1, ob_parser_confidence = 1, ob_overall_confidence = 1,
     ob_parser_name = ''list'', ob_parser_version = ''1'', ob_parser_output_version = 1,
     ob_review_flags = [''ambiguous_merchant''], ob_requires_review = True, ob_amount_uncertain = False,
     ob_balance_mismatched = False, ob_has_missing_fields = False, ob_is_settlement_candidate = False,
     ob_risk_score = 30, ob_review_status = UNREVIEWED, ob_reviewed_by = None, ob_reviewed_at = None,
     ob_corrected_fields = [], ob_canonical = None, ob_merged_into = None\<rparr>"

definition sample_rows :: "imported_observation list" where
  "sample_rows = [sample_row, sample_row\<lparr>ob_id := 61, ob_row_index := 1\<rparr>, sample_row\<lparr>ob_id := 62, ob_row_index := 2\<rparr>]"

definition sample_screenshot :: source_document where
  "sample_screenshot = \<lparr>doc_id = 50, doc_user = 1, doc_sha256 = ''hash'', doc_mime_type = ''image/png'',
     doc_file_size = 2048, doc_source_type = BANK_TRANSACTION_LIST, doc_source_type_override = None,
     doc_institution_override = [], doc_status = READY_FOR_REVIEW, doc_error_code = [],
     doc_cleanup_error_code = [], doc_temporary_path = [], doc_processing_started_at = None,
     doc_processing_completed_at = None, doc_attempt_count = 1, doc_next_attempt_at = None,
     doc_original_deleted_at = None, doc_retention_policy = IMMEDIATE, doc_retention_deadline = None\<rparr>"

definition review_db :: db where
  "review_db = sample_db\<lparr>documents := [sample_screenshot], observations := sample_rows\<rparr>"

definition succeeds :: "'a result \<Rightarrow> bool" where
  "succeeds r = (case r of Inl _ \<Rightarrow> False | Inr _ \<Rightarrow> True)"

lemma succeedsE: "succeeds r \<Longrightarrow> \<exists>y. r = Inr y"
  by (cases r) (simp_all add: succeeds_def)

lemma queue_loaded: "accounts_loaded review_db (Some sample_rule)"
  by code_simp

lemma queue_row: "get_observation review_db 60 = Some sample_row" "ob_canonical sample_row = None"
  by (simp_all add: review_db_def sample_rows_def sample_row_def get_observation_def)

lemma queue_books: "books_ok review_db"
proof -
  have "entry_ok review_db = entry_ok sample_db"
    by (simp add: fun_eq_iff entry_ok_def get_tx_def get_ledger_account_def review_db_def)
  then show ?thesis using sample_books_ok by (simp add: books_ok_def origins_ok_def ledger_ok_def) (simp add: review_db_def)
qed

lemma queue_fresh: "\<forall>x \<in> set (transactions review_db). tx_source_key x \<noteq> observation_key 60"
  by code_simp

lemma queue_accept: "succeeds (accept_observation 500 60 1 None None (Some sample_rule) False review_db)"
  by code_simp

definition then_delete :: "db \<times> canonical_transaction \<Rightarrow> (db \<times> deletion_result) result" where
  "then_delete s = delete_transaction (tx_id (snd s)) 1 ''mistake'' True (fst s)"

definition then_accept :: "int \<Rightarrow> db \<times> 'a \<Rightarrow> (db \<times> canonical_transaction) result" where
  "then_accept now s = accept_observation now 60 1 None None (Some sample_rule) False (fst s)"

definition then_fresh :: "db \<times> 'a \<Rightarrow> (db \<times> 'a) result" where
  "then_fresh s = raise_if (\<not> (accounts_loaded (fst s) (Some sample_rule) \<and>
     list_all (\<lambda>x. tx_source_key x \<noteq> observation_key 60) (transactions (fst s)))) ValueError (Inr s)"

lemma queue_reaccept:
  "succeeds (rbind (rbind (then_accept 500 (review_db, ())) then_delete) (then_accept 700))"
  by code_simp

lemma queue_merge: "succeeds (merge_observations 500 1 60 [61, 62] review_db)"
  by code_simp

lemma queue_correct:
  "succeeds (rbind (rbind (correct_observation 500 60 1 [FixMerchant ''market''] review_db) then_fresh) (then_accept 600))"
  by code_simp

section \<open>Properties\<close>

text \<open>
  C20. Accepting a row: on correct books, a successful \<open>accept_observation\<close> of the caller's row that
  has made no transaction yet creates exactly one, with the amount of the evidence, confirmed and
  posted when the ledger accounts were given and a draft otherwise; a risky row needed the explicit
  confirmation; the row now names the transaction and feeds the reports, the books stay correct, and
  accepting it again, with any arguments, returns the same transaction and changes nothing.
\<close>

theorem accept_observation_effect:
  assumes "accept_observation now k user given ty accs confirmed d = Inr (d', t)"
    and "get_observation d k = Some ob" "ob_canonical ob = None" "books_ok d" "accounts_loaded d accs"
    and "\<forall>x \<in> set (transactions d). tx_source_key x \<noteq> observation_key k"
  shows "books_ok d' \<and> keeps_history d d' \<and> get_tx d (tx_id t) = None \<and> get_tx d' (tx_id t) = Some t \<and>
    ob_amount ob = Some (tx_amount t) \<and> 0 < amount_minor (tx_amount t) \<and>
    tx_status t = (if accs = None then DRAFT else CONFIRMED) \<and>
    (accs \<noteq> None \<longrightarrow> is_posted d' (tx_id t)) \<and> (requires_confirmation ob \<longrightarrow> confirmed) \<and>
    (\<exists>ob'. get_observation d' k = Some ob' \<and> ob_canonical ob' = Some (tx_id t) \<and> feeds_reports ob') \<and>
    accept_observation now2 k user given2 ty2 accs2 confirmed2 d' = Inr (d', t)"
proof (rule accept_effect [OF assms(1-5)])
  fix account amount occurred d2 created a
  let ?t0 = "draft_of user ob account amount occurred ty (next_id d)" and ?ob = "accepted_row now user ob (tx_id t)"
  assume f: "ob_user ob = user" "requires_confirmation ob \<longrightarrow> confirmed" "ob_amount ob = Some amount"
      "0 < amount_minor amount" and d': "d' = (put_observation ?ob d2)\<lparr>audits := a\<rparr>"
    and d2: "observations d2 = observations d" "good_step d d2" "get_tx d2 (tx_id t) = Some t"
    and c: "if created then same_origin d ?t0 = None \<and> get_tx d (tx_id t) = None \<and>
         t = ?t0\<lparr>tx_id := next_id d, tx_status := (if accs = None then DRAFT else CONFIRMED)\<rparr> \<and>
         (accs \<noteq> None \<longrightarrow> is_posted d2 (tx_id t))
       else d2 = d \<and> same_origin d ?t0 = Some t"
  have "same_origin d ?t0 = None"
    using assms(6) get_observation_id [OF assms(2)] by (auto simp: same_origin_def find_None_iff)
  then have c: "get_tx d (tx_id t) = None" "tx_amount t = amount"
      "tx_status t = (if accs = None then DRAFT else CONFIRMED)" "accs \<noteq> None \<longrightarrow> is_posted d2 (tx_id t)"
    using c by (auto split: if_splits)
  have ob: "get_observation d' k = Some ?ob" using accept_row [OF d' d2(1) assms(2)] by simp
  have get: "get_tx d' (tx_id t) = Some t" using d2(3) by (simp add: d')
  have "good_step d d'" using d2(2) by (simp add: d')
  moreover have "accept_observation now2 k user given2 ty2 accs2 confirmed2 d' = Inr (d', t)"
    using accept_linked [OF ob _ _ get] f(1) by (simp add: accepted_row_def)
  moreover have "is_posted d' (tx_id t) = is_posted d2 (tx_id t)" by (simp add: d' is_posted_def put_observation_def)
  ultimately show ?thesis
    using f c ob get accepted_feeds [of now user ob "tx_id t"] by (simp add: good_step_def accepted_row_def)
qed


theorem accept_observation_witness:
  "\<exists>d' t. accept_observation 500 60 1 None None (Some sample_rule) False review_db = Inr (d', t) \<and>
     is_posted d' (tx_id t) \<and> tx_amount t = \<lparr>amount_minor = 42900, currency = ''KRW''\<rparr>"
proof -
  obtain d' t where r: "accept_observation 500 60 1 None None (Some sample_rule) False review_db = Inr (d', t)"
    using succeedsE [OF queue_accept] by (metis surj_pair)
  from accept_observation_effect [OF r queue_row queue_books queue_loaded queue_fresh, of 501 None None None False]
  show ?thesis using r by (simp add: sample_row_def)
qed

text \<open>
  What was deleted cannot be accepted again: when the transaction a row made is deleted and the
  row, back in the queue, is accepted once more, the call succeeds but returns the voided
  transaction: nothing is created or posted, whatever accounts are given, although the row reads as
  accepted and feeds the reports again.
\<close>

theorem reaccepting_a_deleted_row_posts_nothing:
  assumes "accept_observation now k user given ty accs confirmed d = Inr (d1, t)"
    and "get_observation d k = Some ob" "ob_canonical ob = None" "books_ok d" "accounts_loaded d accs"
    and "delete_transaction (tx_id t) user reason True d1 = Inr (d2, res)"
    and "accept_observation now' k user given' ty' accs' confirmed' d2 = Inr (d3, t')"
  shows "tx_id t' = tx_id t \<and> tx_status t' = VOIDED \<and> transactions d3 = transactions d2 \<and>
    entries d3 = entries d2 \<and> transaction_net_minor d3 (tx_id t) = 0 \<and>
    (\<exists>ob'. get_observation d3 k = Some ob' \<and> ob_canonical ob' = Some (tx_id t) \<and> feeds_reports ob')"
proof (rule accept_effect [OF assms(1-5)])
  fix account amount occurred dm created a
  let ?t0 = "draft_of user ob account amount occurred ty (next_id d)" and ?ob = "accepted_row now user ob (tx_id t)"
  assume own: "ob_user ob = user" and d1: "d1 = (put_observation ?ob dm)\<lparr>audits := a\<rparr>"
    and dm: "observations dm = observations d" "good_step d dm" "get_tx dm (tx_id t) = Some t"
    and c: "if created then same_origin d ?t0 = None \<and> get_tx d (tx_id t) = None \<and>
         t = ?t0\<lparr>tx_id := next_id d, tx_status := (if accs = None then DRAFT else CONFIRMED)\<rparr> \<and>
         (accs \<noteq> None \<longrightarrow> is_posted dm (tx_id t))
       else dm = d \<and> same_origin d ?t0 = Some t"
  have k: "ob_id ob = k" by (rule get_observation_id [OF assms(2)])
  have "tx_user t = tx_user ?t0 \<and> tx_source_key t = tx_source_key ?t0"
  proof (cases created)
    case True
    then obtain st where "t = ?t0\<lparr>tx_id := next_id d, tx_status := st\<rparr>" using c by metis
    then show ?thesis by simp
  next
    case False
    then show ?thesis using c by (auto simp: same_origin_def find_Some_iff)
  qed
  then have t: "tx_user t = user" "tx_source_key t = observation_key k" by (simp_all add: k)
  have "good_step d d1" using dm(2) by (simp add: d1)
  then have ok1: "books_ok d1" by (simp add: good_step_def)
  have "get_tx d1 (tx_id t) = Some t" using dm(3) by (simp add: d1)
  from delete_row [OF assms(6) this]
  have v: "get_tx d2 (tx_id t) = Some (t\<lparr>tx_status := VOIDED, tx_reviewed_by := Some user\<rparr>)"
    and obs: "observations d2 = map (\<lambda>o'. if fed_by (tx_id t) user o' then release_observation o' else o') (observations d1)"
    by simp_all
  have ok2: "books_ok d2" using good_delete [OF ok1 assms(6)] by (simp add: good_step_def)
  have "get_observation d1 k = Some ?ob" using accept_row [OF d1 dm(1) assms(2)] by simp
  moreover have "fed_by (tx_id t) user ?ob" using own by (simp add: fed_by_def accepted_row_def)
  ultimately have ob2: "get_observation d2 k = Some (release_observation ?ob)" by (rule released_row [OF obs])
  have "ob_canonical (release_observation ?ob) = None" by (simp add: release_observation_def)
  from accept_converges [OF assms(7) ob2 this ok2 v]
  obtain b where t': "t' = t\<lparr>tx_status := VOIDED, tx_reviewed_by := Some user\<rparr>"
    and d3: "d3 = (put_observation (accepted_row now' user (release_observation ?ob) (tx_id t)) d2)\<lparr>audits := b\<rparr>"
    using t by auto
  have "get_observation d3 k = Some (accepted_row now' user (release_observation ?ob) (tx_id t))"
    using accept_row [OF d3 refl ob2] by simp
  moreover have "transaction_net_minor d2 (tx_id t) = 0" using ok2 net_zero_of_ledger_ok by (simp add: books_ok_def)
  then have "transaction_net_minor d3 (tx_id t) = 0"
    by (simp add: d3 transaction_net_minor_def entries_of_def put_observation_def)
  ultimately show ?thesis
    using accepted_feeds by (simp add: t' d3) (simp add: accepted_row_def)
qed


theorem reaccepting_witness:
  "\<exists>d1 t d2 r d3 t'. accept_observation 500 60 1 None None (Some sample_rule) False review_db = Inr (d1, t) \<and>
     delete_transaction (tx_id t) 1 ''mistake'' True d1 = Inr (d2, r) \<and>
     accept_observation 700 60 1 None None (Some sample_rule) False d2 = Inr (d3, t') \<and> tx_status t' = VOIDED"
proof -
  obtain d1 t d2 res d3 t' where
    a: "accept_observation 500 60 1 None None (Some sample_rule) False review_db = Inr (d1, t)"
      "delete_transaction (tx_id t) 1 ''mistake'' True d1 = Inr (d2, res)"
      "accept_observation 700 60 1 None None (Some sample_rule) False d2 = Inr (d3, t')"
    using succeedsE [OF queue_reaccept] by (auto simp: then_accept_def then_delete_def)
  show ?thesis
    using reaccepting_a_deleted_row_posts_nothing [OF a(1) queue_row queue_books queue_loaded a(2,3)] a by blast
qed



text \<open>
  A correction is bounded and recorded: a successful \<open>correct_observation\<close> of the caller's row
  either changed nothing, or the row was neither rejected nor merged, now reads as corrected by the
  caller, lists every changed field (all of them named by the request), has no new flag, and its risk
  score is the one of its flags; the source, the links, the confidence, every other table and, when
  nothing is named, the row itself are untouched.
\<close>

theorem correction_bounded:
  assumes "correct_observation now k user cs d = Inr (d', ob')" "get_observation d k = Some ob"
  shows "(d' = d \<and> ob' = ob) \<or>
    (\<exists>changed. changed \<noteq> [] \<and> set changed \<subseteq> field_name ` set cs \<and>
      set (ob_corrected_fields ob') = set (ob_corrected_fields ob) \<union> set changed \<and>
      ob_review_status ob \<notin> set RESOLVED_STATUSES \<and> ob_review_status ob' = CORRECTED \<and>
      get_observation d' k = Some ob' \<and> set (ob_review_flags ob') \<subseteq> set (ob_review_flags ob) \<and>
      ob_risk_score ob' = fst (score_flags (ob_review_flags ob') (ob_overall_confidence ob)
        (ob_financial_account_guess ob' \<noteq> None \<or> ob_payment_instrument_guess ob' \<noteq> None)) \<and>
      ob_source_document ob' = ob_source_document ob \<and> ob_canonical ob' = ob_canonical ob \<and>
      ob_merged_into ob' = ob_merged_into ob \<and> transactions d' = transactions d \<and> entries d' = entries d)"
  using assms
proof (cases rule: correct_observation_Inr)
  case (2 ob1 changed a c)
  from correction_fold [OF 2(1)]
  have e: "same_evidence ob ob1" "set changed \<subseteq> field_name ` set cs" by auto
  obtain x where "d' = d\<lparr>observations := x, audits := a\<rparr>" using 2(7) by blast
  then show ?thesis
    using 2(2-6) e
    by (intro disjI2 exI [of _ changed])
      (simp add: same_evidence_def rescored_def project_flags_def sorted_union_def)
qed simp

theorem correction_bounded_witness:
  "\<exists>d' ob. correct_observation 500 60 1 [FixMerchant ''market''] review_db = Inr (d', ob) \<and>
     (ob = sample_row \<or> ob_review_status ob = CORRECTED)"
proof -
  obtain d' ob where r: "correct_observation 500 60 1 [FixMerchant ''market''] review_db = Inr (d', ob)"
    using succeedsE [OF queue_correct] by (auto simp: then_fresh_def)
  show ?thesis using correction_bounded [OF r queue_row(1)] r by auto
qed

text \<open>
  A corrected merchant is posted under the old index: when the reviewer changes the merchant of a
  row and then accepts it, the new transaction shows the corrected merchant but carries the blind
  index of the merchant the parser read.
\<close>

theorem corrected_merchant_keeps_the_old_index:
  assumes "correct_observation now k user [FixMerchant name] d = Inr (d1, ob1)"
    and "get_observation d k = Some ob" "name \<noteq> ob_merchant_raw ob" "ob_canonical ob = None"
    and "accept_observation now2 k user given ty accs confirmed d1 = Inr (d2, t)"
    and "books_ok d1" "accounts_loaded d1 accs"
    and "\<forall>x \<in> set (transactions d1). tx_source_key x \<noteq> observation_key k"
  shows "tx_merchant t = name \<and> tx_merchant_index t = ob_merchant_index ob"
proof -
  have "get_observation d1 k = Some ob1 \<and> ob_merchant_raw ob1 = name \<and> ob_merchant_index ob1 = ob_merchant_index ob \<and>
      ob_canonical ob1 = None \<and> ob_id ob1 = k"
    using assms(1,2)
  proof (cases rule: correct_observation_Inr)
    case (1 ob2)
    then show ?thesis using assms(3) by (auto simp: correction_step_def split: if_splits)
  next
    case (2 ob2 changed a c)
    then show ?thesis
      using assms(3,4) get_observation_id [OF assms(2)]
      by (auto simp: correction_step_def unchanged_or_def clear_flags_def FLAGS_CLEARED_BY_def rescored_def
          project_flags_def)
  qed
  then have ob1: "get_observation d1 k = Some ob1" "ob_canonical ob1 = None" "ob_id ob1 = k"
      "ob_merchant_raw ob1 = name" "ob_merchant_index ob1 = ob_merchant_index ob"
    by simp_all
  show ?thesis
  proof (rule accept_effect [OF assms(5) ob1(1,2) assms(6,7)])
    fix account amount occurred dm created a
    let ?t0 = "draft_of user ob1 account amount occurred ty (next_id d1)"
    assume c: "if created then same_origin d1 ?t0 = None \<and> get_tx d1 (tx_id t) = None \<and>
         t = ?t0\<lparr>tx_id := next_id d1, tx_status := (if accs = None then DRAFT else CONFIRMED)\<rparr> \<and>
         (accs \<noteq> None \<longrightarrow> is_posted dm (tx_id t))
       else dm = d1 \<and> same_origin d1 ?t0 = Some t"
    have "same_origin d1 ?t0 = None" using assms(8) ob1(3) by (auto simp: same_origin_def find_None_iff)
    then obtain st where "t = ?t0\<lparr>tx_id := next_id d1, tx_status := st\<rparr>" using c by (metis option.distinct(1))
    then show ?thesis using ob1 by (simp add: draft_of_def accepted_tx_def)
  qed
qed

theorem corrected_merchant_witness:
  "\<exists>d1 ob d2 t. correct_observation 500 60 1 [FixMerchant ''market''] review_db = Inr (d1, ob) \<and>
     accept_observation 600 60 1 None None (Some sample_rule) False d1 = Inr (d2, t) \<and>
     tx_merchant t = ''market'' \<and> tx_merchant_index t = ''mrket-index''"
proof -
  obtain d1 ob d2 t where
    r: "correct_observation 500 60 1 [FixMerchant ''market''] review_db = Inr (d1, ob)"
      "accept_observation 600 60 1 None None (Some sample_rule) False d1 = Inr (d2, t)"
    and l: "accounts_loaded d1 (Some sample_rule)"
      "\<forall>x \<in> set (transactions d1). tx_source_key x \<noteq> observation_key 60"
    using succeedsE [OF queue_correct] by (auto simp: then_accept_def then_fresh_def list_all_iff)
  have "books_ok d1" by (rule correct_keeps_books [OF r(1) queue_books])
  moreover have "''market'' \<noteq> ob_merchant_raw sample_row" by (simp add: sample_row_def)
  ultimately show ?thesis
    using corrected_merchant_keeps_the_old_index [OF r(1) queue_row(1) _ queue_row(2) r(2) _ l] r
    by (auto simp: sample_row_def)
qed

end
