(* ===== verification/Matching.thy ===== *)
theory Matching
  imports Models "HOL-Library.List_Lexorder" "HOL-Library.Char_ord"
begin

text \<open>
  Detection (\<open>apps/reconciliation/duplicates.py\<close>, \<open>matching.py\<close>): scores of pairs of observations
  and the relationships they propose. Everything here is pure arithmetic on decrypted facts.
  Dates are day numbers. The similarity of two merchant names (\<open>rapidfuzz\<close>'s ratio of the folded
  texts), case folding and the keyed digest are arguments.
\<close>

section \<open>Facts and scores of duplicates\<close>

record observation_facts =
  of_id :: id
  of_user :: id
  of_date :: "int option"
  of_amount :: "int option"
  of_currency :: string
  of_direction :: direction
  of_merchant :: string
  of_approval :: string
  of_balance :: "int option"
  of_instrument :: "id option"
  of_account :: "id option"
  of_source_type :: string
  of_document :: "id option"

definition EXACT_AMOUNT_POINTS :: nat where "EXACT_AMOUNT_POINTS = 30"
definition SAME_INSTRUMENT_POINTS :: nat where "SAME_INSTRUMENT_POINTS = 25"
definition NEARBY_DATE_POINTS :: nat where "NEARBY_DATE_POINTS = 15"
definition SAME_DIRECTION_POINTS :: nat where "SAME_DIRECTION_POINTS = 10"
definition MERCHANT_SIMILARITY_POINTS :: nat where "MERCHANT_SIMILARITY_POINTS = 10"
definition SAME_APPROVAL_CODE_POINTS :: nat where "SAME_APPROVAL_CODE_POINTS = 30"
definition SAME_BALANCE_POINTS :: nat where "SAME_BALANCE_POINTS = 15"
definition SAME_SOURCE_TYPE_POINTS :: nat where "SAME_SOURCE_TYPE_POINTS = 5"

definition LIKELY_MERGE_SCORE :: nat where "LIKELY_MERGE_SCORE = 90"
definition REVIEW_CANDIDATE_SCORE :: nat where "REVIEW_CANDIDATE_SCORE = 65"
definition NEARBY_DATE_WINDOW :: int where "NEARBY_DATE_WINDOW = 1"
definition MERCHANT_SIMILARITY_THRESHOLD :: rat where "MERCHANT_SIMILARITY_THRESHOLD = 85"
definition CANDIDATE_SEARCH_WINDOW :: int where "CANDIDATE_SEARCH_WINDOW = 31"
definition MAX_CANDIDATES_PER_OBSERVATION :: nat where "MAX_CANDIDATES_PER_OBSERVATION = 25"

record duplicate_score =
  ds_score :: nat
  ds_features :: "string list"
  ds_blocking_reason :: string

definition is_likely_merge :: "duplicate_score \<Rightarrow> bool" where
  "is_likely_merge s = (LIKELY_MERGE_SCORE \<le> ds_score s)"

definition is_review_candidate :: "duplicate_score \<Rightarrow> bool" where
  "is_review_candidate s = (REVIEW_CANDIDATE_SCORE \<le> ds_score s \<and> ds_score s < LIKELY_MERGE_SCORE)"

definition keeps_separate :: "duplicate_score \<Rightarrow> bool" where
  "keeps_separate s = (ds_score s < REVIEW_CANDIDATE_SCORE)"

definition strength :: "duplicate_score \<Rightarrow> string" where
  "strength s =
     (if is_likely_merge s then ''likely_merge''
      else if is_review_candidate s then ''review_candidate'' else ''weak'')"

text \<open>
  \<open>if condition: score += points; features.append(name)\<close>, once per feature: the rows whose
  condition holds, in order.
\<close>

definition awarded :: "(bool \<times> nat \<times> string) list \<Rightarrow> (nat \<times> string) list" where
  "awarded rows = map snd (filter fst rows)"

definition points :: "(bool \<times> nat \<times> string) list \<Rightarrow> nat" where
  "points rows = sum_list (map fst (awarded rows))"

definition feature_names :: "(bool \<times> nat \<times> string) list \<Rightarrow> string list" where
  "feature_names rows = map snd (awarded rows)"

definition mapped_to :: "observation_facts \<Rightarrow> id option" where
  "mapped_to f = (case of_instrument f of Some i \<Rightarrow> Some i | None \<Rightarrow> of_account f)"

definition dates_within :: "int option \<Rightarrow> int option \<Rightarrow> int \<Rightarrow> bool" where
  "dates_within x y window = (case (x, y) of (Some a, Some b) \<Rightarrow> \<bar>a - b\<bar> \<le> window | _ \<Rightarrow> False)"

definition same_amount :: "observation_facts \<Rightarrow> observation_facts \<Rightarrow> bool" where
  "same_amount l r =
     (of_amount l \<noteq> None \<and> of_amount l = of_amount r \<and> of_currency l = of_currency r)"

definition merchant_similarity :: "(string \<Rightarrow> string \<Rightarrow> rat) \<Rightarrow> string \<Rightarrow> string \<Rightarrow> rat" where
  "merchant_similarity ratio l r = (if l = [] \<or> r = [] then 0 else ratio l r)"

definition pair_features ::
  "(string \<Rightarrow> string \<Rightarrow> rat) \<Rightarrow> observation_facts \<Rightarrow> observation_facts \<Rightarrow> (bool \<times> nat \<times> string) list" where
  "pair_features ratio l r =
     [(same_amount l r, EXACT_AMOUNT_POINTS, ''exact_amount''),
      (mapped_to l \<noteq> None \<and> mapped_to l = mapped_to r, SAME_INSTRUMENT_POINTS, ''same_mapped_instrument''),
      (dates_within (of_date l) (of_date r) NEARBY_DATE_WINDOW, NEARBY_DATE_POINTS, ''date_within_one_day''),
      (of_direction l = of_direction r \<and> of_direction l \<noteq> DIR_UNKNOWN, SAME_DIRECTION_POINTS, ''same_direction''),
      (MERCHANT_SIMILARITY_THRESHOLD \<le> merchant_similarity ratio (of_merchant l) (of_merchant r),
         MERCHANT_SIMILARITY_POINTS, ''merchant_similarity''),
      (of_approval l \<noteq> [] \<and> of_approval l = of_approval r, SAME_APPROVAL_CODE_POINTS, ''same_approval_code''),
      (of_balance l \<noteq> None \<and> of_balance l = of_balance r, SAME_BALANCE_POINTS, ''same_balance_after''),
      (of_source_type l \<noteq> [] \<and> of_source_type l = of_source_type r, SAME_SOURCE_TYPE_POINTS, ''same_source_type'')]"

definition score_pair ::
  "(string \<Rightarrow> string \<Rightarrow> rat) \<Rightarrow> observation_facts \<Rightarrow> observation_facts \<Rightarrow> duplicate_score" where
  "score_pair ratio l r =
     (if of_user l \<noteq> of_user r
      then \<lparr>ds_score = 0, ds_features = [], ds_blocking_reason = ''different users''\<rparr>
      else if of_id l = of_id r
      then \<lparr>ds_score = 0, ds_features = [], ds_blocking_reason = ''same observation''\<rparr>
      else \<lparr>ds_score = min 100 (points (pair_features ratio l r)),
            ds_features = feature_names (pair_features ratio l r), ds_blocking_reason = []\<rparr>)"

section \<open>Duplicate candidates\<close>

text \<open>
  The payload of a deterministic key, by its parts: an approval code stripped and folded, or the
  line of a statement.
\<close>

datatype key_payload =
    ApprovalKey id string
  | RowKey id "id option" int int string direction

definition key_payload :: "(string \<Rightarrow> string) \<Rightarrow> observation_facts \<Rightarrow> key_payload option" where
  "key_payload fold_text f =
     (if of_approval f \<noteq> [] then Some (ApprovalKey (of_user f) (fold_text (of_approval f)))
      else (case (of_amount f, of_date f) of
              (Some a, Some d) \<Rightarrow> Some (RowKey (of_user f) (mapped_to f) d a (of_currency f) (of_direction f))
            | _ \<Rightarrow> None))"

text \<open>\<open>deterministic_key\<close>: the keyed digest of the payload, and nothing without one.\<close>

definition deterministic_key ::
  "(id \<Rightarrow> key_payload \<Rightarrow> string) \<Rightarrow> (string \<Rightarrow> string) \<Rightarrow> observation_facts \<Rightarrow> string" where
  "deterministic_key blind_index fold_text f =
     (case key_payload fold_text f of None \<Rightarrow> [] | Some p \<Rightarrow> blind_index (of_user f) p)"

fun add_to_group :: "string \<Rightarrow> 'a \<Rightarrow> (string \<times> 'a list) list \<Rightarrow> (string \<times> 'a list) list" where
  "add_to_group k x [] = [(k, [x])]"
| "add_to_group k x ((k', xs) # gs) =
     (if k' = k then (k', xs @ [x]) # gs else (k', xs) # add_to_group k x gs)"

definition group_by_key ::
  "(observation_facts \<Rightarrow> string) \<Rightarrow> observation_facts list \<Rightarrow> (string \<times> observation_facts list) list" where
  "group_by_key key facts =
     filter (\<lambda>(_, items). 1 < length items)
       (foldl (\<lambda>gs f. if key f = [] then gs else add_to_group (key f) f gs) [] facts)"

text \<open>\<open>for index, left in enumerate(xs): for right in xs[index + 1 :]\<close>.\<close>

fun pairs_of :: "'a list \<Rightarrow> ('a \<times> 'a) list" where
  "pairs_of [] = []"
| "pairs_of (x # xs) = map (Pair x) xs @ pairs_of xs"

definition keyed_pairs :: "(observation_facts \<Rightarrow> string) \<Rightarrow> observation_facts list \<Rightarrow> (id \<times> id) list" where
  "keyed_pairs key facts =
     concat (map (\<lambda>(_, items). map (\<lambda>(l, r). (of_id l, of_id r)) (pairs_of items)) (group_by_key key facts))"

record duplicate_candidate =
  dc_left :: observation_facts
  dc_right :: observation_facts
  dc_score :: duplicate_score
  dc_keyed :: bool
  dc_features :: "string list"

definition candidate_of ::
  "(string \<Rightarrow> string \<Rightarrow> rat) \<Rightarrow> (id \<times> id) list \<Rightarrow> nat \<Rightarrow> int \<Rightarrow> observation_facts \<times> observation_facts \<Rightarrow>
     duplicate_candidate option" where
  "candidate_of ratio keyed minimum window p =
     (case p of (l, r) \<Rightarrow>
        let score = score_pair ratio l r; deterministic = ((of_id l, of_id r) \<in> set keyed) in
        if \<not> deterministic \<and> of_date l \<noteq> None \<and> of_date r \<noteq> None \<and> \<not> dates_within (of_date l) (of_date r) window
        then None
        else if \<not> deterministic \<and> ds_score score < minimum then None
        else Some \<lparr>dc_left = l, dc_right = r, dc_score = score, dc_keyed = deterministic,
                   dc_features = ds_features score\<rparr>)"

text \<open>
  \<open>sort(key=(not deterministic, -score, str(left)))\<close>: three stable sorts, the weakest key first.
\<close>

definition rank_candidates :: "duplicate_candidate list \<Rightarrow> duplicate_candidate list" where
  "rank_candidates cs =
     sort_key (\<lambda>c. if dc_keyed c then 0 else (1::nat))
       (sort_key (\<lambda>c. - int (ds_score (dc_score c)))
         (sort_key (\<lambda>c. show_nat (of_id (dc_left c))) cs))"

definition involves :: "id \<Rightarrow> duplicate_candidate \<Rightarrow> bool" where
  "involves i c = (of_id (dc_left c) = i \<or> of_id (dc_right c) = i)"

text \<open>
  The selection loop: \<open>counts\<close> holds how many selected candidates each observation is in, here as
  the function that counts them in \<open>selected\<close>.
\<close>

definition times_selected :: "id \<Rightarrow> duplicate_candidate list \<Rightarrow> nat" where
  "times_selected i selected =
     length (filter (\<lambda>c. of_id (dc_left c) = i) selected) + length (filter (\<lambda>c. of_id (dc_right c) = i) selected)"

definition select_step :: "nat \<Rightarrow> duplicate_candidate list \<Rightarrow> duplicate_candidate \<Rightarrow> duplicate_candidate list" where
  "select_step cap selected c =
     (if cap \<le> times_selected (of_id (dc_left c)) selected \<or> cap \<le> times_selected (of_id (dc_right c)) selected
      then selected else selected @ [c])"

definition find_duplicate_candidates ::
  "(string \<Rightarrow> string \<Rightarrow> rat) \<Rightarrow> (observation_facts \<Rightarrow> string) \<Rightarrow> nat \<Rightarrow> int \<Rightarrow> int \<Rightarrow>
     observation_facts list \<Rightarrow> duplicate_candidate list result" where
  "find_duplicate_candidates ratio key minimum window cap facts =
     raise_if (window < 0) ValueError
     (raise_if (cap < 1) ValueError
     (let candidates = List.map_filter (candidate_of ratio (keyed_pairs key facts) minimum window) (pairs_of facts)
      in Inr (foldl (select_step (nat cap)) [] (rank_candidates candidates))))"

section \<open>Proposals\<close>

definition CARD_BANK_WINDOW :: int where "CARD_BANK_WINDOW = 3"
definition SETTLEMENT_WINDOW :: int where "SETTLEMENT_WINDOW = 45"
definition TRANSFER_WINDOW :: int where "TRANSFER_WINDOW = 1"
definition TRANSFER_REVIEW_WINDOW :: int where "TRANSFER_REVIEW_WINDOW = 5"
definition REFUND_WINDOW :: int where "REFUND_WINDOW = 120"
definition STRONG_MATCH_SCORE :: nat where "STRONG_MATCH_SCORE = 85"
definition MINIMUM_MATCH_SCORE :: nat where "MINIMUM_MATCH_SCORE = 40"

record match_proposal =
  mp_left :: id
  mp_right :: id
  mp_type :: match_type
  mp_score :: nat
  mp_features :: "string list"

definition needs_review :: "match_proposal \<Rightarrow> bool" where
  "needs_review p = (mp_score p < STRONG_MATCH_SCORE)"

definition similar_merchant :: "(string \<Rightarrow> string \<Rightarrow> rat) \<Rightarrow> string \<Rightarrow> string \<Rightarrow> bool" where
  "similar_merchant ratio l r = (l \<noteq> [] \<and> r \<noteq> [] \<and> MERCHANT_SIMILARITY_THRESHOLD \<le> ratio l r)"

definition close_amount :: "observation_facts \<Rightarrow> observation_facts \<Rightarrow> int \<Rightarrow> bool" where
  "close_amount l r tolerance =
     (case (of_amount l, of_amount r) of
        (Some a, Some b) \<Rightarrow> of_currency l = of_currency r \<and> \<bar>a - b\<bar> \<le> tolerance
      | _ \<Rightarrow> False)"

text \<open>\<open>if score < MINIMUM_MATCH_SCORE: return None\<close>, and the proposal.\<close>

definition propose ::
  "observation_facts \<Rightarrow> observation_facts \<Rightarrow> match_type \<Rightarrow> (bool \<times> nat \<times> string) list \<Rightarrow> match_proposal option" where
  "propose l r ty rows =
     (if points rows < MINIMUM_MATCH_SCORE then None
      else Some \<lparr>mp_left = of_id l, mp_right = of_id r, mp_type = ty, mp_score = min 100 (points rows),
                 mp_features = feature_names rows\<rparr>)"

definition match_debit_card_to_bank ::
  "(string \<Rightarrow> string \<Rightarrow> rat) \<Rightarrow> observation_facts \<Rightarrow> observation_facts \<Rightarrow> id option \<Rightarrow> match_proposal option" where
  "match_debit_card_to_bank ratio purchase bank card_account =
     (if of_user purchase \<noteq> of_user bank \<or> of_id purchase = of_id bank then None
      else if \<not> same_amount purchase bank then None
      else if of_direction purchase \<noteq> of_direction bank then None
      else if \<not> dates_within (of_date purchase) (of_date bank) CARD_BANK_WINDOW then None
      else propose purchase bank DEBIT_CARD_BANK_MATCH
        [(True, 40, ''exact_amount''), (True, 0, ''compatible_direction''), (True, 0, ''nearby_date''),
         (card_account \<noteq> None \<and> of_account bank = card_account, 30, ''card_mapped_to_account''),
         (similar_merchant ratio (of_merchant purchase) (of_merchant bank), 15, ''similar_merchant''),
         (of_approval purchase \<noteq> [] \<and> of_approval purchase = of_approval bank, 25, ''same_approval_code''),
         (of_date purchase = of_date bank, 5, ''same_date'')])"

definition match_credit_card_settlement ::
  "(string \<Rightarrow> bool) \<Rightarrow> observation_facts \<Rightarrow> observation_facts \<Rightarrow> id option \<Rightarrow> int option \<Rightarrow> match_proposal option" where
  "match_credit_card_settlement is_issuer withdrawal statement settlement_account balance =
     (if of_user withdrawal \<noteq> of_user statement then None
      else if of_id withdrawal = of_id statement then None
      else if of_direction withdrawal \<noteq> DIR_DEBIT then None
      else if \<not> dates_within (of_date withdrawal) (of_date statement) SETTLEMENT_WINDOW then None
      else
       (let whole = same_amount withdrawal statement;
            owed = (balance \<noteq> None \<and> of_amount withdrawal \<noteq> None \<and> of_amount withdrawal = balance);
            part = (case (balance, of_amount withdrawal) of
                      (Some b, Some a) \<Rightarrow> 0 < a \<and> a < b | _ \<Rightarrow> False)
        in propose withdrawal statement CREDIT_CARD_PAYMENT_MATCH
          [(True, 20, ''settlement_window''),
           (is_issuer (of_merchant withdrawal), 30, ''issuer_counterparty''),
           (settlement_account \<noteq> None \<and> of_account withdrawal = settlement_account, 20, ''configured_settlement_account''),
           (whole, 25, ''amount_matches_statement''),
           (\<not> whole \<and> owed, 20, ''amount_matches_outstanding_balance''),
           (\<not> whole \<and> \<not> owed \<and> part, 10, ''partial_payment'')]))"

record transfer_tolerance =
  tt_amount_minor :: int
  tt_window :: int

definition TransferTolerance :: "int \<Rightarrow> int \<Rightarrow> transfer_tolerance result" where
  "TransferTolerance amount window =
     raise_if (amount < 0) ValueError
     (raise_if (window < 0) ValueError (Inr \<lparr>tt_amount_minor = amount, tt_window = window\<rparr>))"

definition match_internal_transfer ::
  "observation_facts \<Rightarrow> observation_facts \<Rightarrow> transfer_tolerance option \<Rightarrow> match_proposal option" where
  "match_internal_transfer outgoing incoming tolerance =
     (if of_user outgoing \<noteq> of_user incoming then None
      else if of_id outgoing = of_id incoming then None
      else if of_direction outgoing \<noteq> DIR_DEBIT then None
      else if of_direction incoming \<noteq> DIR_CREDIT then None
      else if of_account outgoing = None \<or> of_account incoming = None then None
      else if of_account outgoing = of_account incoming then None
      else
       (let exact = same_amount outgoing incoming; same_day = (of_date outgoing = of_date incoming);
            near = dates_within (of_date outgoing) (of_date incoming) TRANSFER_WINDOW in
        if exact \<and> near
        then propose outgoing incoming INTERNAL_TRANSFER
          [(True, 70, ''opposite_directions''), (True, 0, ''exact_amount''), (True, 0, ''nearby_date''),
           (True, 0, ''both_accounts_owned''), (same_day, 15, ''same_date'')]
        else
         (case tolerance of
            None \<Rightarrow> None
          | Some t \<Rightarrow>
              if \<not> dates_within (of_date outgoing) (of_date incoming) (tt_window t) then None
              else if \<not> close_amount outgoing incoming (tt_amount_minor t) then None
              else propose outgoing incoming INTERNAL_TRANSFER
                [(True, 40, ''opposite_directions''), (True, 0, ''both_accounts_owned''),
                 (True, 0, ''reviewer_tolerance''), (exact, 15, ''exact_amount''),
                 (\<not> exact, 0, ''approximate_amount''), (same_day, 10, ''same_date''),
                 (\<not> same_day \<and> near, 5, ''nearby_date'')])))"

definition match_refund_to_purchase ::
  "(string \<Rightarrow> string \<Rightarrow> rat) \<Rightarrow> observation_facts \<Rightarrow> observation_facts \<Rightarrow> match_proposal option" where
  "match_refund_to_purchase ratio refund purchase =
     (if of_user refund \<noteq> of_user purchase then None
      else if of_id refund = of_id purchase then None
      else if of_direction refund \<noteq> DIR_CREDIT then None
      else if of_direction purchase \<noteq> DIR_DEBIT then None
      else
       (case (of_date refund, of_date purchase) of
          (Some dr, Some dp) \<Rightarrow>
            if dr < dp then None
            else if REFUND_WINDOW < dr - dp then None
            else propose refund purchase REFUND_MATCH
              [(True, 25, ''refund_after_purchase''),
               (same_amount refund purchase, 35, ''exact_amount''),
               (\<not> same_amount refund purchase \<and>
                  (case (of_amount refund, of_amount purchase) of
                     (Some a, Some b) \<Rightarrow> 0 < a \<and> a < b | _ \<Rightarrow> False), 15, ''partial_refund''),
               (similar_merchant ratio (of_merchant refund) (of_merchant purchase), 25, ''similar_merchant''),
               (mapped_to refund \<noteq> None \<and> mapped_to refund = mapped_to purchase, 20, ''same_mapped_instrument'')]
        | _ \<Rightarrow> None))"

section \<open>Charges and issuers\<close>

text \<open>
  Texts here are UTF-8 bytes, so that the Korean markers can be written; a marker is a substring
  of a text exactly when its bytes are.
\<close>

definition utf8 :: "nat list \<Rightarrow> string" where
  "utf8 bytes = map char_of bytes"

definition CARD_ISSUER_MARKERS :: "string list" where
  "CARD_ISSUER_MARKERS =
     [utf8 [236, 185, 180, 235, 147, 156],
      utf8 [237, 152, 132, 235, 140, 128, 236, 185, 180, 235, 147, 156],
      utf8 [236, 130, 188, 236, 132, 177, 236, 185, 180, 235, 147, 156],
      utf8 [236, 139, 160, 237, 149, 156, 236, 185, 180, 235, 147, 156],
      utf8 [234, 181, 173, 235, 175, 188, 236, 185, 180, 235, 147, 156],
      utf8 [235, 161, 175, 235, 141, 176, 236, 185, 180, 235, 147, 156],
      utf8 [235, 185, 132, 236, 148, 168, 236, 185, 180, 235, 147, 156],
      utf8 [237, 149, 152, 235, 130, 152, 236, 185, 180, 235, 147, 156],
      ''card'']"

definition FEE_MARKERS :: "string list" where
  "FEE_MARKERS =
     [utf8 [236, 136, 152, 236, 136, 152, 235, 163, 140], utf8 [236, 151, 176, 237, 154, 140, 235, 185, 132], utf8 [236, 151, 176, 236, 178, 180, 235, 163, 140], ''late fee'', ''fee'']"

definition INTEREST_MARKERS :: "string list" where
  "INTEREST_MARKERS =
     [utf8 [236, 157, 180, 236, 158, 144], utf8 [236, 157, 180, 236, 158, 144, 236, 156, 168], ''interest'',
      utf8 [237, 149, 160, 235, 182, 128, 236, 136, 152, 236, 136, 152, 235, 163, 140]]"

text \<open>\<open>marker in text\<close>.\<close>

fun is_substring :: "string \<Rightarrow> string \<Rightarrow> bool" where
  "is_substring m [] = (m = [])"
| "is_substring m (c # cs) = (take (length m) (c # cs) = m \<or> is_substring m cs)"

definition matching_markers :: "(string \<Rightarrow> string) \<Rightarrow> string \<Rightarrow> string list \<Rightarrow> string list" where
  "matching_markers casefold lowered markers = filter (\<lambda>m. is_substring (casefold m) lowered) markers"

definition contains_marker :: "(string \<Rightarrow> string) \<Rightarrow> string \<Rightarrow> string list \<Rightarrow> bool" where
  "contains_marker casefold t markers = list_ex (\<lambda>m. is_substring (casefold m) (casefold t)) markers"

definition is_card_issuer_counterparty :: "(string \<Rightarrow> string) \<Rightarrow> string \<Rightarrow> bool" where
  "is_card_issuer_counterparty casefold t = contains_marker casefold t CARD_ISSUER_MARKERS"

record charge_classification =
  cc_type :: "transaction_type option"
  cc_needs_review :: bool

definition joined :: "string \<Rightarrow> string \<Rightarrow> string" where
  "joined x y = (if x = [] then y else if y = [] then x else x @ '' '' @ y)"

definition classify_card_charge :: "(string \<Rightarrow> string) \<Rightarrow> string \<Rightarrow> string \<Rightarrow> charge_classification" where
  "classify_card_charge casefold counterparty label =
     (let t = joined counterparty label;
          interest_matches = matching_markers casefold (casefold t) INTEREST_MARKERS;
          fee_matches = filter (\<lambda>m. \<not> list_ex (\<lambda>i. is_substring (casefold m) (casefold i)) interest_matches)
            (matching_markers casefold (casefold t) FEE_MARKERS);
          fee = (fee_matches \<noteq> []); interest = (interest_matches \<noteq> [])
      in if fee = interest then \<lparr>cc_type = None, cc_needs_review = (t \<noteq> [])\<rparr>
         else \<lparr>cc_type = Some (if interest then T_INTEREST else T_FEE), cc_needs_review = False\<rparr>)"

definition classify_charge :: "(string \<Rightarrow> string) \<Rightarrow> string \<Rightarrow> transaction_type option" where
  "classify_charge casefold merchant = cc_type (classify_card_charge casefold [] merchant)"

section \<open>Statements, settlements and instalments\<close>

record statement_coverage =
  sc_statement :: id
  sc_total :: int
  sc_matched :: int
  sc_proposals :: "match_proposal list"

definition gap_minor :: "statement_coverage \<Rightarrow> int" where
  "gap_minor c = sc_total c - sc_matched c"

definition is_balanced :: "statement_coverage \<Rightarrow> bool" where
  "is_balanced c = (gap_minor c = 0)"

definition statement_purchase ::
  "observation_facts \<Rightarrow> int \<Rightarrow> int \<Rightarrow> id option \<Rightarrow> observation_facts \<Rightarrow> bool" where
  "statement_purchase statement first last_day card_id p =
     (of_user p = of_user statement \<and> of_id p \<noteq> of_id statement \<and> of_instrument p = card_id \<and>
      (case of_date p of None \<Rightarrow> False | Some d \<Rightarrow> first \<le> d \<and> d \<le> last_day) \<and>
      of_direction p = DIR_DEBIT \<and> of_amount p \<noteq> None)"

definition amount_or_zero :: "observation_facts \<Rightarrow> int" where
  "amount_or_zero p = (case of_amount p of None \<Rightarrow> 0 | Some a \<Rightarrow> a)"

definition match_statement_membership ::
  "observation_facts \<Rightarrow> observation_facts list \<Rightarrow> int \<Rightarrow> int \<Rightarrow> id option \<Rightarrow> int \<Rightarrow> statement_coverage result" where
  "match_statement_membership statement purchases first last_day card_id owed =
     raise_if (last_day < first) ValueError
     (raise_if (owed < 0) ValueError
     (let eligible = sort_key (\<lambda>p. case of_date p of None \<Rightarrow> 0 | Some x \<Rightarrow> x) (sort_key (\<lambda>p. show_nat (of_id p))
                       (filter (statement_purchase statement first last_day card_id) purchases));
          matched = sum_list (map amount_or_zero eligible);
          balanced = (matched = owed)
      in Inr \<lparr>sc_statement = of_id statement, sc_total = owed, sc_matched = matched,
         sc_proposals = map (\<lambda>p. \<lparr>mp_left = of_id statement, mp_right = of_id p,
            mp_type = STATEMENT_MEMBERSHIP, mp_score = (if balanced then 100 else 85),
            mp_features = [''same_card'', ''within_statement_period'',
              if balanced then ''statement_total_balanced'' else ''statement_total_gap'']\<rparr>) eligible\<rparr>))"

record settlement_coverage =
  sv_statement :: int
  sv_paid :: int
  sv_refunded :: int
  sv_fee :: int
  sv_interest :: int

definition outstanding_minor :: "settlement_coverage \<Rightarrow> int" where
  "outstanding_minor c = sv_statement c - sv_paid c - sv_refunded c"

definition is_settled :: "settlement_coverage \<Rightarrow> bool" where
  "is_settled c = (outstanding_minor c \<le> 0)"

definition is_partially_settled :: "settlement_coverage \<Rightarrow> bool" where
  "is_partially_settled c = (0 < outstanding_minor c \<and> outstanding_minor c < sv_statement c)"

definition is_overpaid :: "settlement_coverage \<Rightarrow> bool" where
  "is_overpaid c = (outstanding_minor c < 0)"

definition reportable_expense_minor :: "settlement_coverage \<Rightarrow> int" where
  "reportable_expense_minor c = sv_fee c + sv_interest c"

definition summarize_settlement ::
  "int \<Rightarrow> int list \<Rightarrow> int list \<Rightarrow> int list \<Rightarrow> int list \<Rightarrow> settlement_coverage result" where
  "summarize_settlement statement payments refunds fees interest =
     raise_if (statement < 0) ValueError
     (raise_if (list_ex (\<lambda>values. list_ex (\<lambda>v. v < 0) values) [payments, refunds, fees, interest]) ValueError
     (Inr \<lparr>sv_statement = statement, sv_paid = sum_list payments, sv_refunded = sum_list refunds,
           sv_fee = sum_list fees, sv_interest = sum_list interest\<rparr>))"

record installment_settlement =
  is_occurred_at :: int
  is_amount :: int

record installment_plan =
  ip_purchase :: int
  ip_date :: int
  ip_months :: nat
  ip_scheduled :: "int list"
  ip_settlements :: "installment_settlement list"
  ip_cancelled :: int

definition settled_minor :: "installment_plan \<Rightarrow> int" where
  "settled_minor p = sum_list (map is_amount (ip_settlements p))"

definition plan_spending_minor :: "installment_plan \<Rightarrow> int" where
  "plan_spending_minor p = ip_purchase p - ip_cancelled p"

definition plan_outstanding_minor :: "installment_plan \<Rightarrow> int" where
  "plan_outstanding_minor p = ip_purchase p - settled_minor p - ip_cancelled p"

definition plan_is_settled :: "installment_plan \<Rightarrow> bool" where
  "plan_is_settled p = (plan_outstanding_minor p = 0)"

definition is_early_payoff :: "installment_plan \<Rightarrow> bool" where
  "is_early_payoff p = (plan_is_settled p \<and> ip_cancelled p = 0 \<and> length (ip_settlements p) < ip_months p)"

definition scheduled_amounts :: "int \<Rightarrow> nat \<Rightarrow> int list" where
  "scheduled_amounts purchase months =
     map (\<lambda>i. purchase div int months + (if int i < purchase mod int months then 1 else 0)) [0..<months]"

definition model_installment_plan ::
  "int \<Rightarrow> int \<Rightarrow> int \<Rightarrow> installment_settlement list \<Rightarrow> bool \<Rightarrow> installment_plan result" where
  "model_installment_plan purchase date months settlements cancelled =
     raise_if (purchase \<le> 0) ValueError
     (raise_if (months < 1) ValueError
     (raise_if (list_ex (\<lambda>s. is_amount s \<le> 0) settlements) ValueError
     (raise_if (list_ex (\<lambda>s. is_occurred_at s < date) settlements) ValueError
     (let settled = sum_list (map is_amount settlements) in
      raise_if (purchase < settled) ValueError
      (Inr \<lparr>ip_purchase = purchase, ip_date = date, ip_months = nat months,
            ip_scheduled = scheduled_amounts purchase (nat months), ip_settlements = settlements,
            ip_cancelled = (if cancelled then purchase - settled else 0)\<rparr>)))))"

section \<open>Selection under the cap\<close>

lemma times_selected_append: "times_selected i (xs @ ys) = times_selected i xs + times_selected i ys"
  by (simp add: times_selected_def)

definition full :: "nat \<Rightarrow> duplicate_candidate list \<Rightarrow> duplicate_candidate \<Rightarrow> bool" where
  "full cap selected c =
     (cap \<le> times_selected (of_id (dc_left c)) selected \<or> cap \<le> times_selected (of_id (dc_right c)) selected)"

lemma full_append: "full cap xs c \<Longrightarrow> full cap (xs @ ys) c"
  by (auto simp: full_def times_selected_append)

lemma select_step_eq: "select_step cap selected c = (if full cap selected c then selected else selected @ [c])"
  by (simp add: select_step_def full_def)

text \<open>The loop only appends, and leaves out only what is full.\<close>

lemma select_loop:
  "\<exists>ys. foldl (select_step cap) acc xs = acc @ ys \<and> set ys \<subseteq> set xs \<and>
     (\<forall>c \<in> set xs. c \<in> set ys \<or> full cap (acc @ ys) c)"
proof (induction xs arbitrary: acc)
  case (Cons x xs)
  show ?case
  proof (cases "full cap acc x")
    case True
    obtain ys where "foldl (select_step cap) acc xs = acc @ ys" "set ys \<subseteq> set xs"
        "\<forall>c \<in> set xs. c \<in> set ys \<or> full cap (acc @ ys) c"
      using Cons.IH by blast
    then show ?thesis using True full_append by (intro exI [of _ ys]) (auto simp: select_step_eq [of cap acc x])
  next
    case False
    obtain ys where "foldl (select_step cap) (acc @ [x]) xs = (acc @ [x]) @ ys" "set ys \<subseteq> set xs"
        "\<forall>c \<in> set xs. c \<in> set ys \<or> full cap ((acc @ [x]) @ ys) c"
      using Cons.IH by blast
    then show ?thesis using False by (intro exI [of _ "x # ys"]) (auto simp: select_step_eq [of cap acc x])
  qed
qed simp

lemma select_capped:
  assumes "\<forall>c \<in> set xs. of_id (dc_left c) \<noteq> of_id (dc_right c)" "\<forall>i. times_selected i acc \<le> cap"
  shows "times_selected i (foldl (select_step cap) acc xs) \<le> cap"
  using assms
proof (induction xs arbitrary: acc)
  case (Cons x xs)
  have "times_selected i (select_step cap acc x) \<le> cap" for i
    using Cons.prems by (auto simp: select_step_eq full_def times_selected_append) (auto simp: times_selected_def not_le)
  then show ?case using Cons by simp
qed simp

lemma sort_by_flag:
  "sort_key (\<lambda>c. if P c then 0 else (1::nat)) xs = filter P xs @ filter (\<lambda>c. \<not> P c) xs"
proof -
  have front: "P x \<Longrightarrow> insort_key (\<lambda>c. if P c then 0 else (1::nat)) x ys = x # ys" for x ys
    by (cases ys) simp_all
  have rear: "\<not> P x \<Longrightarrow> (\<forall>c \<in> set us. \<not> P c) \<Longrightarrow> (\<forall>c \<in> set ks. P c) \<Longrightarrow>
      insort_key (\<lambda>c. if P c then 0 else (1::nat)) x (ks @ us) = ks @ x # us" for x us ks
  proof (induction ks)
    case Nil
    then show ?case by (cases us) simp_all
  qed simp
  show ?thesis by (induction xs) (auto simp: front rear)
qed

lemma pairs_of_members: "(x, y) \<in> set (pairs_of xs) \<Longrightarrow> x \<in> set xs \<and> y \<in> set xs"
  by (induction xs) auto

lemma pairs_of_distinct: "(x, y) \<in> set (pairs_of xs) \<Longrightarrow> distinct (map f xs) \<Longrightarrow> f x \<noteq> f y"
  by (induction xs) auto

lemma candidate_of_Some:
  "candidate_of ratio keyed minimum window (l, r) = Some c \<Longrightarrow>
     dc_left c = l \<and> dc_right c = r \<and> dc_score c = score_pair ratio l r \<and>
     dc_keyed c = ((of_id l, of_id r) \<in> set keyed) \<and>
     (dc_keyed c \<or> minimum \<le> ds_score (dc_score c) \<and>
        (of_date l = None \<or> of_date r = None \<or> dates_within (of_date l) (of_date r) window))"
  by (auto simp: candidate_of_def Let_def split: if_splits)

section \<open>Proposals and plans\<close>

lemma propose_Some:
  "propose l r ty rows = Some p \<longleftrightarrow>
     MINIMUM_MATCH_SCORE \<le> points rows \<and>
     p = \<lparr>mp_left = of_id l, mp_right = of_id r, mp_type = ty, mp_score = min 100 (points rows),
          mp_features = feature_names rows\<rparr>"
  by (auto simp: propose_def)

lemma points_simps [simp]:
  "points [] = 0" "points ((b, n, f) # rows) = (if b then n else 0) + points rows"
  by (simp_all add: points_def awarded_def)

lemma sum_extra_units:
  "r \<le> m \<Longrightarrow> sum_list (map (\<lambda>i. q + (if i < r then 1 else 0)) [0..<m]) = q * int m + int r"
proof (induction m)
  case (Suc m)
  show ?case
  proof (cases "r = Suc m")
    case True
    have "map (\<lambda>i. q + (if i < Suc m then 1 else 0)) [0..<Suc m] = map (\<lambda>i. q + 1) [0..<Suc m]" by (intro map_cong) auto
    then have "sum_list (map (\<lambda>i. q + (if i < r then 1 else 0)) [0..<Suc m]) = int (Suc m) * (q + 1)"
      unfolding True by (simp only: sum_list_triv length_upt) simp
    then show ?thesis using True by (simp add: algebra_simps)
  next
    case False
    then show ?thesis using Suc by (simp add: algebra_simps)
  qed
qed simp

lemma scheduled_sum:
  assumes "0 < purchase" "0 < months"
  shows "sum_list (scheduled_amounts purchase months) = purchase"
proof -
  let ?r = "nat (purchase mod int months)"
  have r: "0 \<le> purchase mod int months" "purchase mod int months < int months" using assms by simp_all
  have "(int i < purchase mod int months) = (i < ?r)" for i using r(1) by linarith
  then have "scheduled_amounts purchase months =
      map (\<lambda>i. purchase div int months + (if i < ?r then 1 else 0)) [0..<months]"
    by (simp add: scheduled_amounts_def)
  moreover have "?r \<le> months" using r by linarith
  ultimately have "sum_list (scheduled_amounts purchase months) = purchase div int months * int months + int ?r"
    by (simp only: sum_extra_units)
  then show ?thesis using r(1) by (simp add: mult.commute)
qed

section \<open>Properties\<close>


definition sample_facts :: "id \<Rightarrow> int \<Rightarrow> direction \<Rightarrow> id \<Rightarrow> observation_facts" where
  "sample_facts i d dir account =
     \<lparr>of_id = i, of_user = 1, of_date = Some d, of_amount = Some 42900, of_currency = ''KRW'',
      of_direction = dir, of_merchant = ''market'', of_approval = [], of_balance = None,
      of_instrument = None, of_account = Some account, of_source_type = [], of_document = None\<rparr>"

definition exact_ratio :: "string \<Rightarrow> string \<Rightarrow> rat" where
  "exact_ratio l r = (if l = r then 100 else 0)"

definition sample_candidates :: "duplicate_candidate list result" where
  "sample_candidates = find_duplicate_candidates exact_ratio (\<lambda>f. []) 65 31 1
     [sample_facts 60 200 DIR_DEBIT 10, sample_facts 61 200 DIR_DEBIT 10, sample_facts 62 201 DIR_DEBIT 10]"

lemma sample_candidates_found:
  "sample_candidates = Inr [\<lparr>dc_left = sample_facts 60 200 DIR_DEBIT 10, dc_right = sample_facts 61 200 DIR_DEBIT 10,
     dc_score = \<lparr>ds_score = 90, ds_features = [''exact_amount'', ''same_mapped_instrument'',
       ''date_within_one_day'', ''same_direction'', ''merchant_similarity''], ds_blocking_reason = []\<rparr>,
     dc_keyed = False, dc_features = [''exact_amount'', ''same_mapped_instrument'',
       ''date_within_one_day'', ''same_direction'', ''merchant_similarity'']\<rparr>]"
  by code_simp


text \<open>
  C23. A transfer is proposed only between a withdrawal and a deposit of the same user in two
  different accounts of the user, with a score of at least 40 and at most 85; and it is strong
  enough to skip review exactly when both rows show the same amount, currency and day, whatever
  tolerance the reviewer allowed.
\<close>

theorem transfer_proposals_sound:
  assumes "match_internal_transfer outgoing incoming tolerance = Some p"
  shows "of_user outgoing = of_user incoming \<and> of_id outgoing \<noteq> of_id incoming \<and>
    of_direction outgoing = DIR_DEBIT \<and> of_direction incoming = DIR_CREDIT \<and>
    (\<exists>a b. of_account outgoing = Some a \<and> of_account incoming = Some b \<and> a \<noteq> b) \<and>
    mp_left p = of_id outgoing \<and> mp_right p = of_id incoming \<and> mp_type p = INTERNAL_TRANSFER \<and>
    40 \<le> mp_score p \<and> mp_score p \<le> 85 \<and>
    (\<not> needs_review p \<longleftrightarrow> same_amount outgoing incoming \<and> of_date outgoing = of_date incoming)"
proof -
  have guards: "of_user outgoing = of_user incoming" "of_id outgoing \<noteq> of_id incoming"
      "of_direction outgoing = DIR_DEBIT" "of_direction incoming = DIR_CREDIT"
      "of_account outgoing \<noteq> None" "of_account incoming \<noteq> None" "of_account outgoing \<noteq> of_account incoming"
    using assms by (auto simp: match_internal_transfer_def split: if_splits)
  let ?exact = "same_amount outgoing incoming" and ?same = "of_date outgoing = of_date incoming"
  let ?near = "dates_within (of_date outgoing) (of_date incoming) TRANSFER_WINDOW"
  have same: "?near \<longleftrightarrow> True" if "?same" "dates_within (of_date outgoing) (of_date incoming) w" for w
    using that by (auto simp: dates_within_def TRANSFER_WINDOW_def split: option.splits)
  have score: "mp_left p = of_id outgoing \<and> mp_right p = of_id incoming \<and> mp_type p = INTERNAL_TRANSFER \<and>
      40 \<le> mp_score p \<and> mp_score p \<le> 85 \<and> (85 \<le> mp_score p \<longleftrightarrow> ?exact \<and> ?same)"
  proof (cases "?exact \<and> ?near")
    case True
    then show ?thesis
      using assms guards by (auto simp: match_internal_transfer_def Let_def propose_Some MINIMUM_MATCH_SCORE_def)
  next
    case False
    then obtain t where "tolerance = Some t" and w: "dates_within (of_date outgoing) (of_date incoming) (tt_window t)"
      using assms guards by (auto simp: match_internal_transfer_def Let_def split: option.splits if_splits)
    then show ?thesis
      using assms guards False same [OF _ w]
      by (auto simp: match_internal_transfer_def Let_def propose_Some MINIMUM_MATCH_SCORE_def split: if_splits)
  qed
  then show ?thesis using guards by (auto simp: needs_review_def STRONG_MATCH_SCORE_def)
qed

theorem transfer_proposals_witness:
  "\<exists>p. match_internal_transfer (sample_facts 60 200 DIR_DEBIT 10) (sample_facts 61 200 DIR_CREDIT 11) None = Some p \<and>
     \<not> needs_review p"
proof -
  have "match_internal_transfer (sample_facts 60 200 DIR_DEBIT 10) (sample_facts 61 200 DIR_CREDIT 11) None \<noteq> None"
    by code_simp
  then obtain p where
    p: "match_internal_transfer (sample_facts 60 200 DIR_DEBIT 10) (sample_facts 61 200 DIR_CREDIT 11) None = Some p"
    by blast
  show ?thesis using transfer_proposals_sound [OF p] p by (auto simp: sample_facts_def same_amount_def)
qed

text \<open>
  An instalment plan adds up: its scheduled amounts are one per month, differ by at most one
  unit and sum to the purchase; the purchase is what was settled, what was cancelled and what is
  outstanding, none of it negative; and cancelling leaves nothing outstanding and counts only the
  settled part as spending, where an uncancelled plan counts the whole purchase.
\<close>

theorem installment_plan_adds_up:
  assumes "model_installment_plan purchase date months settlements cancelled = Inr p"
  shows "sum_list (ip_scheduled p) = purchase \<and> length (ip_scheduled p) = nat months \<and> 1 \<le> months \<and>
    (\<forall>x \<in> set (ip_scheduled p). x = purchase div months \<or> x = purchase div months + 1) \<and>
    settled_minor p + ip_cancelled p + plan_outstanding_minor p = purchase \<and>
    0 \<le> settled_minor p \<and> 0 \<le> ip_cancelled p \<and> 0 \<le> plan_outstanding_minor p \<and>
    (cancelled \<longrightarrow> plan_is_settled p \<and> plan_spending_minor p = settled_minor p) \<and>
    (\<not> cancelled \<longrightarrow> plan_spending_minor p = purchase)"
proof -
  have p: "0 < purchase" "1 \<le> months" "\<not> list_ex (\<lambda>s. is_amount s \<le> 0) settlements"
      "sum_list (map is_amount settlements) \<le> purchase"
    and eq: "p = \<lparr>ip_purchase = purchase, ip_date = date, ip_months = nat months,
            ip_scheduled = scheduled_amounts purchase (nat months), ip_settlements = settlements,
            ip_cancelled = (if cancelled then purchase - sum_list (map is_amount settlements) else 0)\<rparr>"
    using assms by (auto simp: model_installment_plan_def Let_def)
  have "0 \<le> sum_list (map is_amount settlements)"
    using p(3) by (intro sum_list_nonneg) (auto simp: list_ex_iff not_le)
  moreover have "sum_list (scheduled_amounts purchase (nat months)) = purchase"
    using p by (intro scheduled_sum) simp_all
  moreover have "x = purchase div months \<or> x = purchase div months + 1"
    if "x \<in> set (scheduled_amounts purchase (nat months))" for x
    using that p(2) by (auto simp: scheduled_amounts_def split: if_splits)
  moreover have "length (scheduled_amounts purchase (nat months)) = nat months" by (simp add: scheduled_amounts_def)
  ultimately show ?thesis
    using p by (simp add: eq settled_minor_def plan_outstanding_minor_def plan_is_settled_def plan_spending_minor_def)
qed

theorem installment_plan_witness:
  "\<exists>p. model_installment_plan 100000 200 3 [\<lparr>is_occurred_at = 230, is_amount = 33334\<rparr>] True = Inr p \<and>
     ip_scheduled p = [33334, 33333, 33333] \<and> plan_spending_minor p = 33334"
proof -
  obtain p where p: "model_installment_plan 100000 200 3 [\<lparr>is_occurred_at = 230, is_amount = 33334\<rparr>] True = Inr p"
    by (simp add: model_installment_plan_def Let_def)
  have "ip_scheduled p = [33334, 33333, 33333]" "settled_minor p = 33334"
    using p by (auto simp: model_installment_plan_def Let_def settled_minor_def scheduled_amounts_def upt_rec eval_nat_numeral)
  then show ?thesis using installment_plan_adds_up [OF p] p by simp
qed

end
