(* ===== verification/Reconcile.thy ===== *)
theory Reconcile
  imports Observations Matching
begin

text \<open>
  Candidates and their review (\<open>apps/reconciliation/services.py\<close>), and the two confirmations that
  create a transaction (\<open>transfers.py\<close>, \<open>refunds.py\<close>). Encrypted features are the list of their
  names, empty when no data key is given.
\<close>

section \<open>Storing candidates\<close>

definition MANUAL_LINK_SCORE :: nat where "MANUAL_LINK_SCORE = 100"

definition ordered_pair :: "id \<Rightarrow> id \<Rightarrow> id \<times> id" where
  "ordered_pair l r = (if show_nat l \<le> show_nat r then (l, r) else (r, l))"

definition same_pair :: "db \<Rightarrow> id \<times> id \<Rightarrow> match_type \<Rightarrow> reconciliation_match option" where
  "same_pair d p ty =
     find (\<lambda>m. rm_left m = fst p \<and> rm_right m = snd p \<and> rm_type m = ty) (matches d)"

definition stored_features :: "bool \<Rightarrow> string list \<Rightarrow> string list" where
  "stored_features with_key features = (if features = [] \<or> \<not> with_key then [] else sort features)"

definition match_value :: "match_type \<Rightarrow> string" where
  "match_value ty = (case ty of DUPLICATE_OBSERVATION \<Rightarrow> ''duplicate_observation''
     | DEBIT_CARD_BANK_MATCH \<Rightarrow> ''debit_card_bank_match'' | CREDIT_CARD_PAYMENT_MATCH \<Rightarrow> ''credit_card_payment''
     | INTERNAL_TRANSFER \<Rightarrow> ''internal_transfer'' | REFUND_MATCH \<Rightarrow> ''refund_match''
     | STATEMENT_MEMBERSHIP \<Rightarrow> ''statement_membership'')"

definition owns_row :: "db \<Rightarrow> id \<Rightarrow> id \<Rightarrow> bool" where
  "owns_row d user k = owned ob_user (get_observation d k) user"

text \<open>The insert: \<open>clean\<close>, the unique constraint on the pair and the check constraints.\<close>

definition match_clean :: "db \<Rightarrow> reconciliation_match \<Rightarrow> bool" where
  "match_clean d m =
     (rm_left m \<noteq> rm_right m \<and> owns_row d (rm_user m) (rm_left m) \<and> owns_row d (rm_user m) (rm_right m))"

definition insert_match :: "reconciliation_match \<Rightarrow> db \<Rightarrow> (db \<times> reconciliation_match) result" where
  "insert_match m d =
     raise_if (\<not> match_clean d m) ValidationError
     (raise_if (same_pair d (rm_left m, rm_right m) (rm_type m) \<noteq> None \<or> 100 < rm_score m) IntegrityError
      (let m1 = m\<lparr>rm_id := next_id d\<rparr> in
       Inr (d\<lparr>matches := matches d @ [m1], next_id := Suc (next_id d)\<rparr>, m1)))"

definition new_match :: "id \<Rightarrow> id \<times> id \<Rightarrow> match_type \<Rightarrow> nat \<Rightarrow> string list \<Rightarrow> reconciliation_match" where
  "new_match user p ty score features =
     \<lparr>rm_id = 0, rm_user = user, rm_left = fst p, rm_right = snd p, rm_type = ty,
      rm_score = min 100 score, rm_features = features, rm_status = PROPOSED,
      rm_reviewed_by = None, rm_reviewed_at = None\<rparr>"

definition record_match ::
  "id \<Rightarrow> id \<Rightarrow> id \<Rightarrow> match_type \<Rightarrow> nat \<Rightarrow> string list \<Rightarrow> bool \<Rightarrow> db \<Rightarrow>
     (db \<times> reconciliation_match) result" where
  "record_match user l r ty score features with_key d =
     raise_if (l = r) ReconciliationError
     (raise_if (\<not> (owns_row d user l \<and> owns_row d user r)) ForbiddenError
     (case same_pair d (ordered_pair l r) ty of
        Some m \<Rightarrow>
          if rm_status m \<noteq> PROPOSED then Inr (d, m)
          else (let m1 = m\<lparr>rm_score := min 100 score, rm_features := stored_features with_key features\<rparr>
                in Inr (put_match m1 d, m1))
      | None \<Rightarrow>
          rbind (insert_match (new_match user (ordered_pair l r) ty score (stored_features with_key features)) d)
            (\<lambda>(d1, m).
          rbind (record_audit_event user MATCH_CREATED_EVENT (Some (rm_id m))
                   [(''match_type'', MStr (match_value ty)), (''score'', MInt (int (rm_score m))),
                    (''features'', MStrs (sort features))] d1) (\<lambda>d2.
          Inr (d2, m)))))"

text \<open>
  A type the choices do not have is \<open>None\<close>. The pair is looked up before anything is said about
  whose rows they are.
\<close>

definition link_observations ::
  "id \<Rightarrow> id \<Rightarrow> id \<Rightarrow> match_type option \<Rightarrow> bool \<Rightarrow> db \<Rightarrow> (db \<times> reconciliation_match) result" where
  "link_observations user l r ty_opt with_key d =
     (case ty_opt of
        None \<Rightarrow> Inl ReconciliationError
      | Some ty \<Rightarrow>
          (case same_pair d (ordered_pair l r) ty of
             None \<Rightarrow> record_match user l r ty MANUAL_LINK_SCORE [''manual_link''] with_key d
           | Some m \<Rightarrow>
               if rm_status m \<noteq> MATCH_REJECTED then Inr (d, m)
               else
                (let m1 = m\<lparr>rm_status := PROPOSED, rm_score := MANUAL_LINK_SCORE, rm_reviewed_by := None,
                           rm_reviewed_at := None, rm_features := stored_features with_key [''manual_link'']\<rparr> in
                 rbind (record_audit_event user MATCH_CREATED_EVENT (Some (rm_id m))
                          [(''match_type'', MStr (match_value ty)), (''score'', MInt (int MANUAL_LINK_SCORE)),
                           (''features'', MStrs [''manual_link'']), (''reopened'', MBool True)] (put_match m1 d))
                   (\<lambda>d2. Inr (d2, m1)))))"

section \<open>Deciding candidates\<close>

definition lock_match :: "db \<Rightarrow> id \<Rightarrow> id \<Rightarrow> reconciliation_match result" where
  "lock_match d k user =
     (case get_match d k of
        None \<Rightarrow> Inl ForbiddenError
      | Some m \<Rightarrow> raise_if (rm_user m \<noteq> user) ForbiddenError (Inr m))"

definition decided :: "int \<Rightarrow> match_status \<Rightarrow> id option \<Rightarrow> reconciliation_match \<Rightarrow> reconciliation_match" where
  "decided now st reviewer m =
     m\<lparr>rm_status := st, rm_reviewed_by := reviewer, rm_reviewed_at := Some now\<rparr>"

definition decide ::
  "int \<Rightarrow> match_status \<Rightarrow> id \<Rightarrow> event_type \<Rightarrow> (string \<times> meta_value) list \<Rightarrow> reconciliation_match \<Rightarrow> db \<Rightarrow>
     (db \<times> reconciliation_match) result" where
  "decide now st user event metadata m d =
     rbind (record_audit_event user event (Some (rm_id m)) metadata (put_match (decided now st (Some user) m) d))
       (\<lambda>d1. Inr (d1, decided now st (Some user) m))"

definition type_and_score :: "reconciliation_match \<Rightarrow> (string \<times> meta_value) list" where
  "type_and_score m =
     [(''match_type'', MStr (match_value (rm_type m))), (''score'', MInt (int (rm_score m)))]"

definition confirm_match :: "int \<Rightarrow> id \<Rightarrow> id \<Rightarrow> db \<Rightarrow> (db \<times> reconciliation_match) result" where
  "confirm_match now k user d =
     rbind (lock_match d k user) (\<lambda>m.
     raise_if (rm_type m \<in> {DUPLICATE_OBSERVATION, INTERNAL_TRANSFER, REFUND_MATCH}) ReconciliationError
     (if rm_status m = MATCH_CONFIRMED then Inr (d, m)
      else raise_if (rm_status m = MATCH_REJECTED) ConflictError
        (decide now MATCH_CONFIRMED user MATCH_CONFIRMED_EVENT (type_and_score m) m d)))"

definition reject_match :: "int \<Rightarrow> id \<Rightarrow> id \<Rightarrow> db \<Rightarrow> (db \<times> reconciliation_match) result" where
  "reject_match now k user d =
     rbind (lock_match d k user) (\<lambda>m.
     if rm_status m = MATCH_REJECTED then Inr (d, m)
     else raise_if (rm_status m = MATCH_CONFIRMED) ConflictError
       (decide now MATCH_REJECTED user MATCH_REJECTED_EVENT (type_and_score m) m d))"

definition merged_metadata :: "id \<Rightarrow> id \<Rightarrow> reconciliation_match \<Rightarrow> (string \<times> meta_value) list" where
  "merged_metadata winner loser m =
     [(''winner_observation_id'', MId winner), (''merged_observation_id'', MId loser),
      (''score'', MInt (int (rm_score m)))]"

definition confirm_duplicate_match ::
  "int \<Rightarrow> id \<Rightarrow> id \<Rightarrow> id \<Rightarrow> db \<Rightarrow> (db \<times> reconciliation_match) result" where
  "confirm_duplicate_match now k user winner d =
     rbind (lock_match d k user) (\<lambda>m.
     raise_if (rm_type m \<noteq> DUPLICATE_OBSERVATION) ReconciliationError
     (raise_if (winner \<noteq> rm_left m \<and> winner \<noteq> rm_right m) ReconciliationError
     (let loser = (if winner = rm_left m then rm_right m else rm_left m) in
      if rm_status m = MATCH_CONFIRMED then Inr (d, m)
      else raise_if (rm_status m = MATCH_REJECTED) ConflictError
        (rbind (merge_observations now user winner [loser] d) (\<lambda>(d1, w).
         decide now MATCH_CONFIRMED user DUPLICATE_MERGED (merged_metadata winner loser m) m d1)))))"

text \<open>\<open>_automatically_merge_duplicate\<close>: the older row wins, whatever has been decided about it.\<close>

definition unmerged_pair :: "db \<Rightarrow> id \<Rightarrow> reconciliation_match \<Rightarrow> imported_observation list" where
  "unmerged_pair d user m =
     filter (\<lambda>ob. (ob_id ob = rm_left m \<or> ob_id ob = rm_right m) \<and> ob_user ob = user \<and> ob_merged_into ob = None)
       (observations d)"

definition automatically_merge_duplicate ::
  "int \<Rightarrow> id \<Rightarrow> string list \<Rightarrow> reconciliation_match \<Rightarrow> db \<Rightarrow> db result" where
  "automatically_merge_duplicate now user features m d =
     (if rm_status m \<noteq> PROPOSED then Inr d
      else (case unmerged_pair d user m of
              [winner, loser] \<Rightarrow>
                rbind (merge_observations now user (ob_id winner) [ob_id loser] d) (\<lambda>(d1, w).
                record_audit_event user DUPLICATE_MERGED (Some (rm_id m))
                  ([(''automatic'', MBool True), (''policy_enabled'', MBool True)] @
                   merged_metadata (ob_id winner) (ob_id loser) m @ [(''features'', MStrs (sort features))])
                  (put_match (decided now MATCH_CONFIRMED None m) d1))
            | _ \<Rightarrow> Inr d))"

text \<open>
  A loop of separate database transactions: what was committed before an error stays.
\<close>

definition committed :: "db \<Rightarrow> (db \<times> 'a) result \<Rightarrow> db \<times> 'a result" where
  "committed d r = (case r of Inl e \<Rightarrow> (d, Inl e) | Inr (d', x) \<Rightarrow> (d', Inr x))"

fun each_committed :: "('x \<Rightarrow> db \<Rightarrow> db \<times> 'y result) \<Rightarrow> 'x list \<Rightarrow> db \<Rightarrow> db \<times> 'y list result" where
  "each_committed f [] d = (d, Inr [])"
| "each_committed f (x # xs) d =
     (case f x d of
        (d1, Inl e) \<Rightarrow> (d1, Inl e)
      | (d1, Inr y) \<Rightarrow> (case each_committed f xs d1 of (d2, r) \<Rightarrow> (d2, rbind r (\<lambda>ys. Inr (y # ys)))))"

definition record_duplicate ::
  "bool \<Rightarrow> int \<Rightarrow> id \<Rightarrow> bool \<Rightarrow> duplicate_candidate \<Rightarrow> db \<Rightarrow> db \<times> reconciliation_match result" where
  "record_duplicate automatic now user with_key c d =
     (case committed d (record_match user (of_id (dc_left c)) (of_id (dc_right c)) DUPLICATE_OBSERVATION
             (ds_score (dc_score c)) (dc_features c) with_key d) of
        (d1, Inl e) \<Rightarrow> (d1, Inl e)
      | (d1, Inr m) \<Rightarrow>
          if automatic \<and> LIKELY_MERGE_SCORE \<le> rm_score m
          then committed d1 (rbind (automatically_merge_duplicate now user (dc_features c) m d1) (\<lambda>d2. Inr (d2, m)))
          else (d1, Inr m))"

definition record_duplicate_candidates ::
  "bool \<Rightarrow> int \<Rightarrow> id \<Rightarrow> bool \<Rightarrow> duplicate_candidate list \<Rightarrow> db \<Rightarrow> db \<times> reconciliation_match list result" where
  "record_duplicate_candidates automatic now user with_key = each_committed (record_duplicate automatic now user with_key)"

definition record_proposal ::
  "id \<Rightarrow> bool \<Rightarrow> match_proposal \<Rightarrow> db \<Rightarrow> (db \<times> reconciliation_match) result" where
  "record_proposal user with_key p =
     record_match user (mp_left p) (mp_right p) (mp_type p) (mp_score p) (mp_features p) with_key"

definition record_proposals ::
  "id \<Rightarrow> bool \<Rightarrow> match_proposal list \<Rightarrow> db \<Rightarrow> db \<times> reconciliation_match list result" where
  "record_proposals user with_key =
     each_committed (\<lambda>p d. committed d (record_proposal user with_key p d))"

section \<open>Statements\<close>

definition touches :: "id \<Rightarrow> reconciliation_match \<Rightarrow> bool" where
  "touches i m = (rm_left m = i \<or> rm_right m = i)"

definition active_membership :: "id \<Rightarrow> reconciliation_match \<Rightarrow> bool" where
  "active_membership purchase m =
     (touches purchase m \<and> rm_type m = STATEMENT_MEMBERSHIP \<and> rm_status m \<in> {PROPOSED, MATCH_CONFIRMED})"

definition joins :: "id \<Rightarrow> id \<Rightarrow> reconciliation_match \<Rightarrow> bool" where
  "joins a b m = (rm_left m = a \<and> rm_right m = b \<or> rm_left m = b \<and> rm_right m = a)"

definition record_membership ::
  "id \<Rightarrow> bool \<Rightarrow> match_proposal \<Rightarrow> db \<times> reconciliation_match list \<Rightarrow>
     (db \<times> reconciliation_match list) result" where
  "record_membership user with_key p s =
     raise_if (mp_type p \<noteq> STATEMENT_MEMBERSHIP) ReconciliationError
     (raise_if (\<not> owns_row (fst s) user (mp_right p)) ForbiddenError
     (raise_if (list_ex (\<lambda>m. active_membership (mp_right p) m \<and> \<not> joins (mp_left p) (mp_right p) m) (matches (fst s)))
        ConflictError
     (rbind (record_proposal user with_key p (fst s)) (\<lambda>(d1, m). Inr (d1, snd s @ [m])))))"

definition record_statement_memberships ::
  "id \<Rightarrow> bool \<Rightarrow> match_proposal list \<Rightarrow> db \<Rightarrow> (db \<times> reconciliation_match list) result" where
  "record_statement_memberships user with_key proposals d =
     rfold (record_membership user with_key) proposals (d, [])"

section \<open>Queues\<close>

definition open_matches :: "db \<Rightarrow> id \<Rightarrow> match_type option \<Rightarrow> reconciliation_match list" where
  "open_matches d user ty =
     sort_key (\<lambda>m. - int (rm_score m))
       (rev (filter (\<lambda>m. rm_user m = user \<and> rm_status m = PROPOSED \<and>
          (case ty of None \<Rightarrow> True | Some x \<Rightarrow> rm_type m = x)) (matches d)))"

fun QUEUE_FILTER_BY_MATCH_TYPE :: "match_type \<Rightarrow> string option" where
  "QUEUE_FILTER_BY_MATCH_TYPE DUPLICATE_OBSERVATION = Some ''duplicate''"
| "QUEUE_FILTER_BY_MATCH_TYPE INTERNAL_TRANSFER = Some ''transfer''"
| "QUEUE_FILTER_BY_MATCH_TYPE REFUND_MATCH = Some ''refund''"
| "QUEUE_FILTER_BY_MATCH_TYPE CREDIT_CARD_PAYMENT_MATCH = Some ''settlement''"
| "QUEUE_FILTER_BY_MATCH_TYPE STATEMENT_MEMBERSHIP = Some ''settlement''"
| "QUEUE_FILTER_BY_MATCH_TYPE DEBIT_CARD_BANK_MATCH = None"

definition queue_match_ids :: "db \<Rightarrow> id \<Rightarrow> string \<rightharpoonup> id list" where
  "queue_match_ids d user name =
     (let found = filter (\<lambda>m. QUEUE_FILTER_BY_MATCH_TYPE (rm_type m) = Some name) (open_matches d user None) in
      if found = [] then None
      else Some (sort_key show_nat (remdups (concat (map (\<lambda>m. [rm_left m, rm_right m]) found)))))"

section \<open>Unlinking\<close>

definition match_rows :: "db \<Rightarrow> id \<Rightarrow> reconciliation_match \<Rightarrow> imported_observation list" where
  "match_rows d user m =
     filter (\<lambda>ob. (ob_id ob = rm_left m \<or> ob_id ob = rm_right m) \<and> ob_user ob = user) (observations d)"

text \<open>The transaction the relationship made, if it is of a kind that makes one.\<close>

definition match_transaction :: "reconciliation_match \<Rightarrow> imported_observation list \<Rightarrow> id option result" where
  "match_transaction m rows =
     (if rm_type m = INTERNAL_TRANSFER
      then (case remdups (List.map_filter ob_canonical rows) of
              [i] \<Rightarrow> Inr (Some i) | _ \<Rightarrow> Inl ConflictError)
      else if rm_type m = REFUND_MATCH
      then (case find (\<lambda>ob. ob_direction ob = DIR_CREDIT) rows of
              None \<Rightarrow> Inl ConflictError
            | Some refund \<Rightarrow>
                (case ob_canonical refund of None \<Rightarrow> Inl ConflictError | Some i \<Rightarrow> Inr (Some i)))
      else Inr None)"

text \<open>
  \<open>save(update_fields=...)\<close> of a row read before the deletion: only the named columns of the stored
  row change.
\<close>

definition unmerge_row :: "imported_observation \<Rightarrow> imported_observation" where
  "unmerge_row ob =
     ob\<lparr>ob_merged_into := None, ob_review_status := UNREVIEWED, ob_reviewed_by := None, ob_reviewed_at := None\<rparr>"

definition unmerge_rows :: "reconciliation_match \<Rightarrow> imported_observation list \<Rightarrow> db \<Rightarrow> db" where
  "unmerge_rows m rows d =
     (let ids = map ob_id (filter (\<lambda>ob. ob_merged_into ob \<in> {Some (rm_left m), Some (rm_right m)}) rows) in
      d\<lparr>observations := map (\<lambda>ob. if ob_id ob \<in> set ids then unmerge_row ob else ob) (observations d)\<rparr>)"

definition unlink_match :: "int \<Rightarrow> id \<Rightarrow> id \<Rightarrow> db \<Rightarrow> (db \<times> reconciliation_match) result" where
  "unlink_match now k user d =
     rbind (lock_match d k user) (\<lambda>m.
     raise_if (rm_status m \<noteq> MATCH_CONFIRMED) ConflictError
     (let rows = match_rows d user m in
      rbind (match_transaction m rows) (\<lambda>made.
      rbind (case made of
               None \<Rightarrow> Inr d
             | Some i \<Rightarrow> rbind (delete_transaction i user ''reconciliation match unlinked'' True d) (\<lambda>(d1, r). Inr d1))
        (\<lambda>d1.
      decide now MATCH_REJECTED user MATCH_UNLINKED_EVENT
        [(''match_type'', MStr (match_value (rm_type m))), (''match_id'', MId (rm_id m))] m (unmerge_rows m rows d1)))))"

section \<open>Internal transfers\<close>

definition split_sides ::
  "direction \<Rightarrow> direction \<Rightarrow> imported_observation \<Rightarrow> imported_observation \<Rightarrow>
     (imported_observation \<times> imported_observation) result" where
  "split_sides x y first second =
     (if ob_direction first = x \<and> ob_direction second = y then Inr (first, second)
      else if ob_direction second = x \<and> ob_direction first = y then Inr (second, first)
      else Inl ReconciliationError)"

definition existing_event :: "db \<Rightarrow> imported_observation \<Rightarrow> canonical_transaction result" where
  "existing_event d ob =
     (case Option.bind (ob_canonical ob) (get_tx d) of None \<Rightarrow> Inl ConflictError | Some t \<Rightarrow> Inr t)"

definition assert_side_free :: "imported_observation \<Rightarrow> unit result" where
  "assert_side_free ob =
     raise_if (ob_review_status ob \<in> set RESOLVED_STATUSES) ConflictError
     (raise_if (ob_canonical ob \<noteq> None) ConflictError (Inr ()))"

definition guessed_account :: "db \<Rightarrow> imported_observation \<Rightarrow> financial_account option" where
  "guessed_account d ob = Option.bind (ob_financial_account_guess ob) (get_account d)"

text \<open>Both sides in accounts of the user, and in two different ones.\<close>

definition transfer_accounts ::
  "db \<Rightarrow> id \<Rightarrow> imported_observation \<Rightarrow> imported_observation \<Rightarrow> financial_account result" where
  "transfer_accounts d user outgoing incoming =
     (case (guessed_account d outgoing, guessed_account d incoming) of
        (Some source, Some destination) \<Rightarrow>
          raise_if (fa_user source \<noteq> user \<or> fa_user destination \<noteq> user) ForbiddenError
          (raise_if (fa_id source = fa_id destination) ReconciliationError (Inr source))
      | _ \<Rightarrow> Inl ReconciliationError)"

definition transfer_dates :: "imported_observation \<Rightarrow> imported_observation \<Rightarrow> (int \<times> int) option" where
  "transfer_dates outgoing incoming =
     (case ob_occurred_at outgoing of
        None \<Rightarrow> None
      | Some a \<Rightarrow>
          (case ob_occurred_at incoming of None \<Rightarrow> Some (a, a) | Some b \<Rightarrow> Some (min a b, max a b)))"

definition transfer_tx ::
  "id \<Rightarrow> id \<Rightarrow> money \<Rightarrow> int \<times> int \<Rightarrow> financial_account \<Rightarrow> string \<Rightarrow> canonical_transaction" where
  "transfer_tx n user amount dates source key =
     (blank_tx user amount)\<lparr>tx_id := n, tx_reviewed_by := Some user, tx_occurred_at := fst dates,
       tx_posted_at := Some (snd dates), tx_currency := currency amount, tx_type := T_INTERNAL_TRANSFER,
       tx_financial_account := fa_id source, tx_source_key := key\<rparr>"

text \<open>The shared end of both workflows: validate, save once, confirm and post what was created.\<close>

definition make_event ::
  "canonical_transaction \<Rightarrow> posting_rule_accounts option \<Rightarrow> db \<Rightarrow> (db \<times> canonical_transaction \<times> bool) result" where
  "make_event t accs d =
     rbind (reraise ValidationError ReconciliationError (validate_transaction_invariants d t)) (\<lambda>t1. make_once t1 accs d)"

definition confirm_internal_transfer ::
  "int \<Rightarrow> id \<Rightarrow> id \<Rightarrow> posting_rule_accounts option \<Rightarrow> db \<Rightarrow> (db \<times> canonical_transaction) result" where
  "confirm_internal_transfer now k user accs d =
     rbind (lock_match d k user) (\<lambda>m.
     raise_if (rm_type m \<noteq> INTERNAL_TRANSFER) ReconciliationError
     (raise_if (rm_status m = MATCH_REJECTED) ConflictError
     (rbind (lock_observation d (rm_left m) user) (\<lambda>l.
      rbind (lock_observation d (rm_right m) user) (\<lambda>r.
      if rm_status m = MATCH_CONFIRMED then rbind (existing_event d l) (\<lambda>t. Inr (d, t))
      else
        rbind (split_sides DIR_DEBIT DIR_CREDIT l r) (\<lambda>(outgoing, incoming).
        rbind (assert_side_free outgoing) (\<lambda>_.
        rbind (assert_side_free incoming) (\<lambda>_.
        rbind (transfer_accounts d user outgoing incoming) (\<lambda>source.
        rbind (usable_amount ReconciliationError (ob_amount outgoing)) (\<lambda>amount.
        case transfer_dates outgoing incoming of
          None \<Rightarrow> Inl ReconciliationError
        | Some dates \<Rightarrow>
            rbind (source_key TRANSFER_SOURCE (rm_id m)) (\<lambda>key.
            rbind (make_event (transfer_tx (next_id d) user amount dates source key) accs d) (\<lambda>(d1, t, created).
            rbind (link_accepted now user outgoing t d1) (\<lambda>d2.
            rbind (link_accepted now user incoming t d2) (\<lambda>d3.
            rbind (record_audit_event user INTERNAL_TRANSFER_CONFIRMED (Some k)
                     [(''canonical_transaction_id'', MId (tx_id t)),
                      (''outgoing_observation_id'', MId (ob_id outgoing)),
                      (''incoming_observation_id'', MId (ob_id incoming)),
                      (''score'', MInt (int (rm_score m))), (''posted'', MBool (created \<and> accs \<noteq> None))]
                     (put_match (decided now MATCH_CONFIRMED (Some user) m) d3)) (\<lambda>d4.
            Inr (d4, t))))))))))))))))"

section \<open>Refunds\<close>

text \<open>A posted date before the occurred date is dropped.\<close>

definition usable_posted_at :: "int \<Rightarrow> int option \<Rightarrow> int option" where
  "usable_posted_at occurred posted =
     (case posted of None \<Rightarrow> None | Some p \<Rightarrow> if p < occurred then None else Some p)"

definition purchase_category :: "db \<Rightarrow> imported_observation \<Rightarrow> id option" where
  "purchase_category d purchase =
     (case Option.bind (ob_canonical purchase) (get_tx d) of
        Some t \<Rightarrow> tx_category t | None \<Rightarrow> ob_category_guess purchase)"

definition refund_account ::
  "db \<Rightarrow> id \<Rightarrow> imported_observation \<Rightarrow> imported_observation \<Rightarrow> financial_account result" where
  "refund_account d user refund purchase =
     (case (case guessed_account d refund of Some a \<Rightarrow> Some a | None \<Rightarrow> guessed_account d purchase) of
        None \<Rightarrow> Inl ReconciliationError
      | Some a \<Rightarrow> raise_if (fa_user a \<noteq> user) ForbiddenError (Inr a))"

definition refund_tx ::
  "id \<Rightarrow> id \<Rightarrow> imported_observation \<Rightarrow> money \<Rightarrow> int \<Rightarrow> financial_account \<Rightarrow> id option \<Rightarrow> string \<Rightarrow>
     canonical_transaction" where
  "refund_tx n user refund amount occurred account category key =
     (blank_tx user amount)\<lparr>tx_id := n, tx_reviewed_by := Some user, tx_occurred_at := occurred,
       tx_posted_at := usable_posted_at occurred (ob_posted_at refund), tx_currency := currency amount,
       tx_type := T_REFUND, tx_financial_account := fa_id account,
       tx_payment_instrument := ob_payment_instrument_guess refund, tx_category := category,
       tx_merchant := ob_merchant_raw refund, tx_source_key := key\<rparr>"

definition competing :: "id \<Rightarrow> reconciliation_match \<Rightarrow> imported_observation \<Rightarrow> reconciliation_match \<Rightarrow> bool" where
  "competing user confirmed refund m =
     (rm_user m = user \<and> rm_type m = REFUND_MATCH \<and> rm_status m = PROPOSED \<and> touches (ob_id refund) m \<and>
      rm_id m \<noteq> rm_id confirmed)"

definition dismiss ::
  "int \<Rightarrow> id \<Rightarrow> reconciliation_match \<Rightarrow> reconciliation_match \<Rightarrow> db \<Rightarrow> db result" where
  "dismiss now user confirmed m d =
     record_audit_event user MATCH_REJECTED_EVENT (Some (rm_id m))
       (type_and_score m @ [(''superseded_by'', MId (rm_id confirmed))])
       (put_match (decided now MATCH_REJECTED (Some user) m) d)"

definition dismiss_competing_candidates ::
  "int \<Rightarrow> id \<Rightarrow> reconciliation_match \<Rightarrow> imported_observation \<Rightarrow> db \<Rightarrow> (db \<times> nat) result" where
  "dismiss_competing_candidates now user confirmed refund d =
     (let ms = filter (competing user confirmed refund) (matches d) in
      rbind (rfold (dismiss now user confirmed) ms d) (\<lambda>d1. Inr (d1, length ms)))"

definition confirm_refund_match ::
  "int \<Rightarrow> id \<Rightarrow> id \<Rightarrow> posting_rule_accounts option \<Rightarrow> db \<Rightarrow> (db \<times> canonical_transaction) result" where
  "confirm_refund_match now k user accs d =
     rbind (lock_match d k user) (\<lambda>m.
     raise_if (rm_type m \<noteq> REFUND_MATCH) ReconciliationError
     (raise_if (rm_status m = MATCH_REJECTED) ConflictError
     (rbind (lock_observation d (rm_left m) user) (\<lambda>l.
      rbind (lock_observation d (rm_right m) user) (\<lambda>r.
      rbind (split_sides DIR_CREDIT DIR_DEBIT l r) (\<lambda>(refund, purchase).
      if rm_status m = MATCH_CONFIRMED then rbind (existing_event d refund) (\<lambda>t. Inr (d, t))
      else
        rbind (assert_side_free refund) (\<lambda>_.
        rbind (refund_account d user refund purchase) (\<lambda>account.
        raise_if (\<not> instrument_fits d (ob_payment_instrument_guess refund) account) ReconciliationError
        (rbind (usable_amount ReconciliationError (ob_amount refund)) (\<lambda>amount.
         case ob_occurred_at refund of
           None \<Rightarrow> Inl ReconciliationError
         | Some occurred \<Rightarrow>
            rbind (source_key REFUND_SOURCE (rm_id m)) (\<lambda>key.
            rbind (make_event (refund_tx (next_id d) user refund amount occurred account
                     (purchase_category d purchase) key) accs d) (\<lambda>(d1, t, created).
            rbind (link_accepted now user refund t d1) (\<lambda>d2.
            rbind (dismiss_competing_candidates now user m refund
                     (put_match (decided now MATCH_CONFIRMED (Some user) m) d2)) (\<lambda>(d3, superseded).
            rbind (record_audit_event user REFUND_MATCHED (Some k)
                     [(''canonical_transaction_id'', MId (tx_id t)),
                      (''refund_observation_id'', MId (ob_id refund)),
                      (''purchase_observation_id'', MId (ob_id purchase)),
                      (''category_inherited'', MBool (tx_category t \<noteq> None)),
                      (''superseded_candidates'', MInt (int superseded)),
                      (''score'', MInt (int (rm_score m))), (''posted'', MBool (created \<and> accs \<noteq> None))] d3)
              (\<lambda>d4. Inr (d4, t))))))))))))))))"

text \<open>Credit rows that wait for review and that no live refund candidate claims.\<close>

definition unmatched_refunds :: "db \<Rightarrow> id \<Rightarrow> imported_observation list" where
  "unmatched_refunds d user =
     filter (\<lambda>ob. ob_user ob = user \<and> ob_direction ob = DIR_CREDIT \<and> ob_review_status ob = UNREVIEWED \<and>
        ob_canonical ob = None \<and>
        \<not> list_ex (\<lambda>m. rm_user m = user \<and> rm_type m = REFUND_MATCH \<and>
            rm_status m \<in> {PROPOSED, MATCH_CONFIRMED} \<and> touches (ob_id ob) m) (matches d))
       (observations d)"

section \<open>Detection over the stored rows\<close>

definition facts_from :: "imported_observation \<Rightarrow> string \<Rightarrow> observation_facts" where
  "facts_from ob merchant =
     \<lparr>of_id = ob_id ob, of_user = ob_user ob, of_date = ob_occurred_at ob,
      of_amount = map_option amount_minor (ob_amount ob), of_currency = ob_currency ob,
      of_direction = ob_direction ob, of_merchant = merchant, of_approval = [], of_balance = None,
      of_instrument = ob_payment_instrument_guess ob, of_account = ob_financial_account_guess ob,
      of_source_type = [], of_document = Some (ob_source_document ob)\<rparr>"

definition in_period :: "int option \<Rightarrow> int option \<Rightarrow> imported_observation \<Rightarrow> bool" where
  "in_period first last_day ob =
     (case ob_occurred_at ob of
        None \<Rightarrow> False
      | Some x \<Rightarrow>
          (case first of None \<Rightarrow> True | Some a \<Rightarrow> a \<le> x) \<and> (case last_day of None \<Rightarrow> True | Some b \<Rightarrow> x \<le> b))"

definition transfer_candidates :: "db \<Rightarrow> id \<Rightarrow> int option \<Rightarrow> int option \<Rightarrow> imported_observation list" where
  "transfer_candidates d user first last_day =
     filter (\<lambda>ob. ob_user ob = user \<and> ob_review_status ob = UNREVIEWED \<and> ob_canonical ob = None \<and>
        ob_financial_account_guess ob \<noteq> None \<and> ob_direction ob \<noteq> DIR_UNKNOWN \<and> in_period first last_day ob)
       (observations d)"

text \<open>\<open>for a in xs: for b in ys: if match is not None: append\<close>.\<close>

definition all_proposals ::
  "('a \<Rightarrow> 'a \<Rightarrow> match_proposal option) \<Rightarrow> 'a list \<Rightarrow> 'a list \<Rightarrow> match_proposal list" where
  "all_proposals f xs ys = concat (map (\<lambda>x. List.map_filter (f x) ys) xs)"

definition propose_internal_transfers ::
  "id \<Rightarrow> bool \<Rightarrow> transfer_tolerance option \<Rightarrow> int option \<Rightarrow> int option \<Rightarrow> db \<Rightarrow>
     db \<times> reconciliation_match list result" where
  "propose_internal_transfers user with_key tolerance first last_day d =
     (let rows = map (\<lambda>ob. facts_from ob []) (transfer_candidates d user first last_day) in
      record_proposals user with_key
        (all_proposals (\<lambda>outgoing incoming. match_internal_transfer outgoing incoming tolerance)
           (filter (\<lambda>f. of_direction f = DIR_DEBIT) rows) (filter (\<lambda>f. of_direction f = DIR_CREDIT) rows)) d)"

definition propose_refund_matches ::
  "(string \<Rightarrow> string \<Rightarrow> rat) \<Rightarrow> id \<Rightarrow> bool \<Rightarrow> int option \<Rightarrow> int option \<Rightarrow> db \<Rightarrow>
     db \<times> reconciliation_match list result" where
  "propose_refund_matches ratio user with_key first last_day d =
     (let rows = filter (\<lambda>ob. ob_user ob = user \<and> ob_review_status ob \<notin> set RESOLVED_STATUSES \<and>
                    in_period first last_day ob) (observations d);
          refunds = filter (\<lambda>ob. ob_direction ob = DIR_CREDIT \<and> ob_review_status ob = UNREVIEWED \<and>
                    ob_canonical ob = None) rows;
          purchases = filter (\<lambda>ob. ob_direction ob = DIR_DEBIT) rows;
          facts = (\<lambda>ob. facts_from ob (ob_merchant_raw ob)) in
      record_proposals user with_key
        (all_proposals (\<lambda>refund purchase. match_refund_to_purchase ratio (facts refund) (facts purchase))
           refunds purchases) d)"

section \<open>Facts about the operations\<close>

lemma lock_match_Inr [simp]:
  "lock_match d k user = Inr m \<longleftrightarrow> get_match d k = Some m \<and> rm_user m = user"
  by (auto simp: lock_match_def split: option.splits)

lemma decide_Inr:
  "decide now st user event metadata m d = Inr (d', m') \<longleftrightarrow>
     m' = decided now st (Some user) m \<and> user \<in> set (users d) \<and>
     d' = (put_match m' d)\<lparr>audits := audits d @
        [\<lparr>au_user = user, au_event = event, au_object = Some (rm_id m), au_metadata = metadata\<rparr>]\<rparr>"
  by (auto simp: decide_def record_audit_event_Inr put_match_def)

lemma decided_fields [simp]:
  "rm_id (decided now st u m) = rm_id m" "rm_user (decided now st u m) = rm_user m"
  "rm_left (decided now st u m) = rm_left m" "rm_right (decided now st u m) = rm_right m"
  "rm_type (decided now st u m) = rm_type m" "rm_score (decided now st u m) = rm_score m"
  "rm_status (decided now st u m) = st"
  by (simp_all add: decided_def)

lemma get_match_id: "get_match d k = Some m \<Longrightarrow> rm_id m = k"
  by (rule match_table.get_pk)

lemma get_put_match:
  "get_match d (rm_id m) = Some m0 \<Longrightarrow>
     get_match (put_match m d) j = (if j = rm_id m then Some m else get_match d j)"
  by (rule match_table.get_put)

lemma put_match_other [simp]:
  "observations (put_match m d) = observations d" "transactions (put_match m d) = transactions d"
  "entries (put_match m d) = entries d" "users (put_match m d) = users d" "next_id (put_match m d) = next_id d"
  "get_tx (put_match m d) = get_tx d" "get_observation (put_match m d) = get_observation d"
  "is_posted (put_match m d) i = is_posted d i"
  by (simp_all add: put_match_def get_tx_def get_observation_def is_posted_def)

lemma books_ok_cong:
  assumes "transactions d' = transactions d" "entries d' = entries d" "ledger_accounts d' = ledger_accounts d"
    and "next_id d \<le> next_id d'" "books_ok d"
  shows "books_ok d'"
proof -
  have "entry_ok d' = entry_ok d" using assms(1,3) by (simp add: fun_eq_iff entry_ok_def get_tx_def get_ledger_account_def)
  moreover have "table_ok en_id (entries d) (next_id d')" "table_ok tx_id (transactions d) (next_id d')"
    using assms(4,5) by (auto simp: books_ok_def ledger_ok_def intro: table_ok_mono)
  ultimately show ?thesis using assms by (simp add: books_ok_def ledger_ok_def origins_ok_def)
qed

lemma good_step_cong:
  assumes "transactions d' = transactions d1" "entries d' = entries d1" "ledger_accounts d' = ledger_accounts d1"
    and "next_id d1 \<le> next_id d'" "good_step d d1"
  shows "good_step d d'"
proof -
  have "books_ok d'" using books_ok_cong [OF assms(1-4)] assms(5) by (simp add: good_step_def)
  moreover have "get_tx d' = get_tx d1" "is_posted d' = is_posted d1"
    using assms(1,2) by (simp_all add: get_tx_def is_posted_def fun_eq_iff)
  ultimately show ?thesis using assms(5) by (simp add: good_step_def keeps_history_def)
qed

lemma bulk_create_other [simp]:
  "observations (fst (bulk_create es d)) = observations d" "matches (fst (bulk_create es d)) = matches d"
  "users (fst (bulk_create es d)) = users d" "transactions (fst (bulk_create es d)) = transactions d"
  "ledger_accounts (fst (bulk_create es d)) = ledger_accounts d" "accounts (fst (bulk_create es d)) = accounts d"
  "next_id d \<le> next_id (fst (bulk_create es d))"
  by (simp_all add: bulk_create_def Let_def)

lemma confirm_and_post_frame:
  assumes "confirm_and_post t accs d = Inr (d', t')"
  shows "tx_id t' = tx_id t \<and> next_id d \<le> next_id d' \<and> ledger_accounts d' = ledger_accounts d \<and>
    accounts d' = accounts d \<and> (\<forall>i. i \<noteq> tx_id t \<longrightarrow> get_tx d' i = get_tx d i)"
proof (cases accs)
  case None
  then show ?thesis using assms by (simp add: confirm_and_post_def)
next
  case (Some c)
  let ?t = "t\<lparr>tx_status := CONFIRMED\<rparr>"
  have "rbind (post_transaction_by_type ?t c (put_tx ?t d)) (\<lambda>(d1, _). Inr (d1, ?t)) = Inr (d', t')"
    using assms Some by (simp only: confirm_and_post_def option.case Let_def)
  then obtain r where "post_transaction_by_type ?t c (put_tx ?t d) = Inr r" "fst r = d'" "t' = ?t"
    by (cases "post_transaction_by_type ?t c (put_tx ?t d)") (simp_all add: split_beta)
  then obtain es where d': "d' = fst (bulk_create es (put_tx ?t d))" and t': "t' = ?t"
    by (auto simp: post_transaction_by_type_def post_balanced_Inr)
  have "get_tx d' i = get_tx d i" if "i \<noteq> tx_id t" for i
    using transaction_table.get_put_other [of i ?t d] that by (simp add: d' get_tx_def)
  then show ?thesis
    using t' bulk_create_other(7) [of "put_tx ?t d" es] by (simp add: d') (simp add: put_tx_def)
qed

lemma make_once_frame:
  assumes "make_once t accs d = Inr (d', t', created)" "books_ok d"
  shows "next_id d \<le> next_id d' \<and> ledger_accounts d' = ledger_accounts d \<and> accounts d' = accounts d \<and>
    (\<forall>i. i \<noteq> tx_id t' \<longrightarrow> get_tx d' i = get_tx d i)"
proof -
  obtain d1 t1 where s: "save_once t d = Inr (d1, t1, created)"
    and c: "confirm_and_post t1 (if created then accs else None) d1 = Inr (d', t')"
    using assms(1) by (auto simp: make_once_def)
  have tab: "table_ok tx_id (transactions d) (next_id d)" using assms(2) by (simp add: books_ok_def)
  have "next_id d \<le> next_id d1 \<and> ledger_accounts d1 = ledger_accounts d \<and> accounts d1 = accounts d \<and>
      (\<forall>i. i \<noteq> tx_id t1 \<longrightarrow> get_tx d1 i = get_tx d i)"
  proof (cases created)
    case True
    then have i: "d1 = fst (insert_tx t d)" "t1 = snd (insert_tx t d)"
      using s by (auto simp: save_once_Inr) (metis fst_conv snd_conv)+
    have "get_tx d1 i = get_tx d i" if "i \<noteq> tx_id t1" for i
      using that by (simp add: i insert_tx_def Let_def get_tx_def find_row_append split: option.split)
    then show ?thesis by (simp add: i insert_tx_def Let_def)
  qed (use s in \<open>simp add: save_once_Inr\<close>)
  then show ?thesis using confirm_and_post_frame [OF c] by auto
qed

lemma link_accepted_Inr:
  "link_accepted now user ob t d = Inr d' \<longleftrightarrow>
     observation_constraints (accepted_row now user ob (tx_id t)) \<and>
     d' = put_observation (accepted_row now user ob (tx_id t)) d"
  by (simp add: link_accepted_def save_observation_Inr accepted_row_def)

lemma split_sides_Inr:
  "split_sides x y l r = Inr (a, b) \<Longrightarrow>
     (a = l \<and> b = r \<or> a = r \<and> b = l) \<and> ob_direction a = x \<and> ob_direction b = y"
  by (auto simp: split_sides_def split: if_splits)

lemma assert_side_free_Inr [simp]:
  "assert_side_free ob = Inr u \<longleftrightarrow> ob_review_status ob \<notin> set RESOLVED_STATUSES \<and> ob_canonical ob = None"
  by (auto simp: assert_side_free_def)

lemma accepted_row_fields [simp]:
  "ob_id (accepted_row now user ob i) = ob_id ob" "ob_user (accepted_row now user ob i) = ob_user ob"
  "ob_canonical (accepted_row now user ob i) = Some i" "ob_direction (accepted_row now user ob i) = ob_direction ob"
  "ob_merged_into (accepted_row now user ob i) = ob_merged_into ob"
  "ob_review_status (accepted_row now user ob i) = reviewed_status ob"
  by (simp_all add: accepted_row_def)

lemma reviewed_accepted [simp]: "reviewed_status ob \<in> set ACCEPTED_STATUSES"
  by (simp add: reviewed_status_def ACCEPTED_STATUSES_def)

lemma observation_constraints_linked:
  "observation_constraints (accepted_row now user ob i) \<Longrightarrow> ob_merged_into ob = None"
  by (auto simp: observation_constraints_def accepted_row_def)

definition event_key :: "string \<Rightarrow> id \<Rightarrow> string" where
  "event_key source k = source @ '':'' @ show_nat k"

lemma event_key: "source \<noteq> [] \<Longrightarrow> source_key source k = Inr (event_key source k)"
  by (simp add: source_key_def event_key_def)

lemma event_key_ne [simp]: "event_key source k \<noteq> []"
  by (simp add: event_key_def)

definition transfer_draft ::
  "db \<Rightarrow> id \<Rightarrow> money \<Rightarrow> int \<times> int \<Rightarrow> financial_account \<Rightarrow> id \<Rightarrow> canonical_transaction" where
  "transfer_draft d user amount dates source k =
     (transfer_tx (next_id d) user amount dates source (event_key TRANSFER_SOURCE k))
       \<lparr>tx_currency := normalize_code (currency amount)\<rparr>"

lemma transfer_draft_fields [simp]:
  "tx_status (transfer_draft d user amount dates source k) = DRAFT"
  "tx_user (transfer_draft d user amount dates source k) = user"
  "tx_source_key (transfer_draft d user amount dates source k) = event_key TRANSFER_SOURCE k"
  "tx_amount (transfer_draft d user amount dates source k) = amount"
  "tx_type (transfer_draft d user amount dates source k) = T_INTERNAL_TRANSFER"
  "tx_financial_account (transfer_draft d user amount dates source k) = fa_id source"
  by (simp_all add: transfer_draft_def transfer_tx_def blank_tx_def)

lemma make_event_Inr:
  assumes "make_event t accs d = Inr r"
  obtains "make_once (t\<lparr>tx_currency := normalize_code (tx_currency t)\<rparr>) accs d = Inr r"
    "tx_relations_ok d t" "0 < amount_minor (tx_amount t)"
  using assms by (auto simp: make_event_def validate_Inr full_clean_Inr)

lemma confirm_transfer_newE:
  assumes "confirm_internal_transfer now k user accs d = Inr (d', t)"
    and "get_match d k = Some m" "rm_status m = PROPOSED"
  obtains l r outgoing incoming source amount dates d1 created a where
    "rm_user m = user" "rm_type m = INTERNAL_TRANSFER"
    "get_observation d (rm_left m) = Some l" "get_observation d (rm_right m) = Some r"
    "ob_user l = user" "ob_user r = user"
    "outgoing = l \<and> incoming = r \<or> outgoing = r \<and> incoming = l"
    "ob_direction outgoing = DIR_DEBIT" "ob_direction incoming = DIR_CREDIT"
    "ob_canonical l = None" "ob_canonical r = None" "ob_merged_into l = None" "ob_merged_into r = None"
    "transfer_accounts d user outgoing incoming = Inr source"
    "ob_amount outgoing = Some amount" "0 < amount_minor amount"
    "make_once (transfer_draft d user amount dates source k) accs d = Inr (d1, t, created)"
    "d' = (put_match (decided now MATCH_CONFIRMED (Some user) m)
       (put_observation (accepted_row now user incoming (tx_id t))
         (put_observation (accepted_row now user outgoing (tx_id t)) d1)))\<lparr>audits := a\<rparr>"
proof -
  note r = assms(1) [unfolded confirm_internal_transfer_def]
  have m: "lock_match d k user = Inr m"
    using r by (cases "lock_match d k user") (use assms(2) in auto)
  have id: "rm_id m = k" by (rule get_match_id [OF assms(2)])
  note r1 = r [unfolded m rbind.simps raise_if_Inr]
  obtain l where l: "lock_observation d (rm_left m) user = Inr l"
    using r1 by (cases "lock_observation d (rm_left m) user") simp_all
  obtain r where rr: "lock_observation d (rm_right m) user = Inr r"
    using r1 by (cases "lock_observation d (rm_right m) user") (simp_all add: l)
  have np: "rm_status m \<noteq> MATCH_CONFIRMED" by (simp add: assms(3))
  note r2 = r1 [unfolded l rr rbind.simps if_not_P [OF np]]
  obtain outgoing incoming where sp: "split_sides DIR_DEBIT DIR_CREDIT l r = Inr (outgoing, incoming)"
    using r2 by (cases "split_sides DIR_DEBIT DIR_CREDIT l r") auto
  note r3 = r2 [unfolded sp rbind.simps prod.case]
  have free: "assert_side_free outgoing = Inr ()" "assert_side_free incoming = Inr ()"
    using r3 by (auto simp del: assert_side_free_Inr)
  obtain source where src: "transfer_accounts d user outgoing incoming = Inr source"
    using r3 by (cases "transfer_accounts d user outgoing incoming") (simp_all add: free del: assert_side_free_Inr)
  obtain amount where am: "usable_amount ReconciliationError (ob_amount outgoing) = Inr amount"
    using r3 by (cases "usable_amount ReconciliationError (ob_amount outgoing)")
      (simp_all add: free src del: assert_side_free_Inr)
  note r4 = r3 [unfolded free src am rbind.simps]
  obtain dates where da: "transfer_dates outgoing incoming = Some dates"
    using r4 by (cases "transfer_dates outgoing incoming") simp_all
  have key: "source_key TRANSFER_SOURCE (rm_id m) = Inr (event_key TRANSFER_SOURCE k)"
    using event_key [of TRANSFER_SOURCE k] by (simp add: id TRANSFER_SOURCE_def)
  note r5 = r4 [unfolded da option.case key rbind.simps]
  let ?t = "transfer_tx (next_id d) user amount dates source (event_key TRANSFER_SOURCE k)"
  obtain d1 t1 created where ev: "make_event ?t accs d = Inr (d1, t1, created)"
    using r5 by (cases "make_event ?t accs d") auto
  note r6 = r5 [unfolded ev rbind.simps prod.case, THEN conjunct2, THEN conjunct2]
  have t1: "t1 = t" using r6 by auto
  have "\<exists>a. d' = (put_match (decided now MATCH_CONFIRMED (Some user) m)
       (put_observation (accepted_row now user incoming (tx_id t))
         (put_observation (accepted_row now user outgoing (tx_id t)) d1)))\<lparr>audits := a\<rparr>"
    using r6 unfolding rbind_Inr link_accepted_Inr record_audit_event_Inr t1 sum.inject prod.inject by blast
  then obtain a where d': "d' = (put_match (decided now MATCH_CONFIRMED (Some user) m)
       (put_observation (accepted_row now user incoming (tx_id t))
         (put_observation (accepted_row now user outgoing (tx_id t)) d1)))\<lparr>audits := a\<rparr>"
    by blast
  have "observation_constraints (accepted_row now user outgoing (tx_id t))"
      "observation_constraints (accepted_row now user incoming (tx_id t))"
    using r6 unfolding rbind_Inr link_accepted_Inr t1 by blast+
  then have mg: "ob_merged_into outgoing = None" "ob_merged_into incoming = None"
    using observation_constraints_linked by blast+
  have mk: "make_once (transfer_draft d user amount dates source k) accs d = Inr (d1, t, created)"
    using ev [unfolded t1] by (rule make_event_Inr) (simp add: transfer_draft_def transfer_tx_def)
  have side: "(outgoing = l \<and> incoming = r \<or> outgoing = r \<and> incoming = l)" "ob_direction outgoing = DIR_DEBIT"
      "ob_direction incoming = DIR_CREDIT"
    using split_sides_Inr [OF sp] by simp_all
  have none: "ob_canonical l = None" "ob_canonical r = None" "ob_merged_into l = None" "ob_merged_into r = None"
    using side(1) free mg by auto
  have am': "ob_amount outgoing = Some amount" "0 < amount_minor amount" using am by (simp_all add: usable_amount_Inr)
  have lk: "get_observation d (rm_left m) = Some l" "get_observation d (rm_right m) = Some r" "ob_user l = user"
      "ob_user r = user" "rm_user m = user" "rm_type m = INTERNAL_TRANSFER"
    using l rr m r1 by simp_all
  show thesis by (rule that [OF lk(5,6) lk(1,2,3,4) side none src am' mk d'])
qed

lemma get_observation_audits [simp]:
  "get_observation (d\<lparr>audits := a\<rparr>) = get_observation d" "get_match (d\<lparr>audits := a\<rparr>) = get_match d"
  by (simp_all add: get_observation_def get_match_def)

lemma get_match_put_observation [simp]: "get_match (put_observation ob d) = get_match d"
  by (simp add: get_match_def put_observation_def)

lemma get_two_rows:
  assumes "get_observation d (ob_id a) \<noteq> None" "get_observation d (ob_id b) \<noteq> None" "ob_id a \<noteq> ob_id b"
  shows "get_observation (put_observation b (put_observation a d)) j =
    (if j = ob_id a then Some a else if j = ob_id b then Some b else get_observation d j)"
proof -
  obtain a0 b0 where r: "get_observation d (ob_id a) = Some a0" "get_observation d (ob_id b) = Some b0"
    using assms(1,2) by blast
  then have "get_observation (put_observation a d) (ob_id b) = Some b0"
    using get_put_observation [of d a a0] assms(3) by auto
  then show ?thesis
    using get_put_observation [of "put_observation a d" b b0] get_put_observation [of d a a0] r assms(3) by auto
qed

text \<open>A confirmed transfer: the match, its transaction and both rows pointing at it.\<close>

definition transfer_made :: "db \<Rightarrow> id \<Rightarrow> id \<Rightarrow> reconciliation_match \<Rightarrow> canonical_transaction \<Rightarrow> bool" where
  "transfer_made d k user m t \<longleftrightarrow>
     get_match d k = Some m \<and> rm_user m = user \<and> rm_type m = INTERNAL_TRANSFER \<and> rm_status m = MATCH_CONFIRMED \<and>
     get_tx d (tx_id t) = Some t \<and> tx_user t = user \<and> tx_source_key t = event_key TRANSFER_SOURCE k \<and>
     rm_left m \<noteq> rm_right m \<and>
     (\<forall>j \<in> {rm_left m, rm_right m}. \<exists>ob. get_observation d j = Some ob \<and> ob_user ob = user \<and>
        ob_canonical ob = Some (tx_id t) \<and> ob_review_status ob \<in> set ACCEPTED_STATUSES \<and> ob_merged_into ob = None)"

text \<open>What a first confirmation leaves behind.\<close>

lemma confirm_transfer_made:
  assumes "confirm_internal_transfer now k user accs d = Inr (d', t)"
    and "get_match d k = Some m" "rm_status m = PROPOSED" "books_ok d" "accounts_loaded d accs"
  obtains l r outgoing incoming source amount dates d1 created where
    "transfer_made d' k user (decided now MATCH_CONFIRMED (Some user) m) t"
    "good_step d d'" "\<And>j. get_match d' j = (if j = k then Some (decided now MATCH_CONFIRMED (Some user) m) else get_match d j)"
    "get_observation d (rm_left m) = Some l" "get_observation d (rm_right m) = Some r" "rm_left m \<noteq> rm_right m"
    "\<And>j. get_observation d' j = (if j = rm_left m then Some (accepted_row now user l (tx_id t))
       else if j = rm_right m then Some (accepted_row now user r (tx_id t)) else get_observation d j)"
    "outgoing = l \<and> incoming = r \<or> outgoing = r \<and> incoming = l"
    "ob_direction outgoing = DIR_DEBIT" "ob_direction incoming = DIR_CREDIT" "ob_canonical l = None" "ob_canonical r = None"
    "ob_amount outgoing = Some amount" "0 < amount_minor amount" "transfer_accounts d user outgoing incoming = Inr source"
    "make_once (transfer_draft d user amount dates source k) accs d = Inr (d1, t, created)"
    "transactions d' = transactions d1" "entries d' = entries d1"
proof (rule confirm_transfer_newE [OF assms(1-3)])
  fix l r outgoing incoming source amount dates d1 created a
  let ?m = "decided now MATCH_CONFIRMED (Some user) m"
  let ?t0 = "transfer_draft d user amount dates source k"
  let ?out = "accepted_row now user outgoing (tx_id t)" and ?inc = "accepted_row now user incoming (tx_id t)"
  assume um: "rm_user m = user" "rm_type m = INTERNAL_TRANSFER"
    and lr: "get_observation d (rm_left m) = Some l" "get_observation d (rm_right m) = Some r"
    and own: "ob_user l = user" "ob_user r = user" and side: "outgoing = l \<and> incoming = r \<or> outgoing = r \<and> incoming = l"
    and dirs: "ob_direction outgoing = DIR_DEBIT" "ob_direction incoming = DIR_CREDIT"
    and none: "ob_canonical l = None" "ob_canonical r = None" and merged: "ob_merged_into l = None" "ob_merged_into r = None"
    and src: "transfer_accounts d user outgoing incoming = Inr source"
    and am: "ob_amount outgoing = Some amount" "0 < amount_minor amount"
    and mk: "make_once ?t0 accs d = Inr (d1, t, created)"
    and d': "d' = (put_match ?m (put_observation ?inc (put_observation ?out d1)))\<lparr>audits := a\<rparr>"
  have eff: "good_step d d1 \<and> get_tx d1 (tx_id t) = Some t \<and> observations d1 = observations d \<and> matches d1 = matches d"
    using make_once_effect [OF mk assms(4) transfer_draft_fields(1) _ assms(5)] by simp
  have ids: "ob_id l = rm_left m" "ob_id r = rm_right m" using get_observation_id lr by blast+
  have ne: "rm_left m \<noteq> rm_right m" using lr dirs side by auto
  have obs: "get_observation d1 = get_observation d" using eff by (simp add: get_observation_def fun_eq_iff)
  have rows: "get_observation d' j = (if j = rm_left m then Some (accepted_row now user l (tx_id t))
       else if j = rm_right m then Some (accepted_row now user r (tx_id t)) else get_observation d j)" for j
    using get_two_rows [of d1 ?out ?inc j] obs lr side ids ne by (auto simp: d')
  have "get_match d1 = get_match d" using eff by (simp add: get_match_def fun_eq_iff)
  then have gm: "get_match d' j = (if j = k then Some ?m else get_match d j)" for j
    using get_put_match [of "put_observation ?inc (put_observation ?out d1)" ?m m j] assms(2) get_match_id [OF assms(2)]
    by (simp add: d')
  have good: "good_step d d'"
    by (rule good_step_cong [of _ d1]) (use eff in \<open>simp_all add: d' put_match_def put_observation_def\<close>)
  have made: "tx_user t = user \<and> tx_source_key t = event_key TRANSFER_SOURCE k"
  proof -
    obtain d0 t1 where "save_once ?t0 d = Inr (d0, t1, created)"
      and "confirm_and_post t1 (if created then accs else None) d0 = Inr (d1, t)"
      using mk by (auto simp: make_once_def)
    moreover from this have "tx_user t1 = user \<and> tx_source_key t1 = event_key TRANSFER_SOURCE k"
      by (auto simp: save_once_Inr insert_tx_def Let_def same_origin_def find_Some_iff)
    ultimately show ?thesis
      by (auto simp: confirm_and_post_def Let_def split: option.splits if_splits prod.splits)
  qed
  have "get_tx d' (tx_id t) = Some t" using eff by (simp add: d')
  then have "transfer_made d' k user ?m t"
    using gm um rows ne own made merged by (auto simp: transfer_made_def)
  then show thesis
    by (rule that [OF _ good gm lr ne rows side dirs none am src mk]) (simp_all add: d')
qed

section \<open>A refund, step by step\<close>

definition refund_draft ::
  "db \<Rightarrow> id \<Rightarrow> imported_observation \<Rightarrow> money \<Rightarrow> int \<Rightarrow> financial_account \<Rightarrow> id option \<Rightarrow> id \<Rightarrow>
     canonical_transaction" where
  "refund_draft d user refund amount occurred account category k =
     (refund_tx (next_id d) user refund amount occurred account category (event_key REFUND_SOURCE k))
       \<lparr>tx_currency := normalize_code (currency amount)\<rparr>"

lemma refund_draft_fields [simp]:
  "tx_status (refund_draft d user refund amount occurred account category k) = DRAFT"
  "tx_user (refund_draft d user refund amount occurred account category k) = user"
  "tx_source_key (refund_draft d user refund amount occurred account category k) = event_key REFUND_SOURCE k"
  "tx_amount (refund_draft d user refund amount occurred account category k) = amount"
  "tx_type (refund_draft d user refund amount occurred account category k) = T_REFUND"
  "tx_category (refund_draft d user refund amount occurred account category k) = category"
  by (simp_all add: refund_draft_def refund_tx_def blank_tx_def)

lemma confirm_refund_newE:
  assumes "confirm_refund_match now k user accs d = Inr (d', t)"
    and "get_match d k = Some m" "rm_status m = PROPOSED"
  obtains l r refund purchase account amount occurred d1 d2 created n a where
    "rm_user m = user" "rm_type m = REFUND_MATCH"
    "get_observation d (rm_left m) = Some l" "get_observation d (rm_right m) = Some r"
    "ob_user l = user" "ob_user r = user" "refund = l \<and> purchase = r \<or> refund = r \<and> purchase = l"
    "ob_direction refund = DIR_CREDIT" "ob_direction purchase = DIR_DEBIT"
    "ob_canonical refund = None" "ob_amount refund = Some amount" "0 < amount_minor amount"
    "make_once (refund_draft d user refund amount occurred account (purchase_category d purchase) k) accs d
       = Inr (d1, t, created)"
    "observation_constraints (accepted_row now user refund (tx_id t))"
    "dismiss_competing_candidates now user m refund
       (put_match (decided now MATCH_CONFIRMED (Some user) m) (put_observation (accepted_row now user refund (tx_id t)) d1))
       = Inr (d2, n)"
    "d' = d2\<lparr>audits := a\<rparr>"
proof -
  note r = assms(1) [unfolded confirm_refund_match_def]
  have m: "lock_match d k user = Inr m"
    using r by (cases "lock_match d k user") (use assms(2) in auto)
  have id: "rm_id m = k" by (rule get_match_id [OF assms(2)])
  note r1 = r [unfolded m rbind.simps raise_if_Inr]
  obtain l where l: "lock_observation d (rm_left m) user = Inr l"
    using r1 by (cases "lock_observation d (rm_left m) user") simp_all
  obtain r where rr: "lock_observation d (rm_right m) user = Inr r"
    using r1 by (cases "lock_observation d (rm_right m) user") (simp_all add: l)
  have np: "rm_status m \<noteq> MATCH_CONFIRMED" by (simp add: assms(3))
  note r2 = r1 [unfolded l rr rbind.simps if_not_P [OF np]]
  obtain refund purchase where sp: "split_sides DIR_CREDIT DIR_DEBIT l r = Inr (refund, purchase)"
    using r2 by (cases "split_sides DIR_CREDIT DIR_DEBIT l r") auto
  note r3 = r2 [unfolded sp rbind.simps prod.case if_not_P [OF np]]
  have free: "assert_side_free refund = Inr ()" using r3 by (auto simp del: assert_side_free_Inr)
  obtain account where ac: "refund_account d user refund purchase = Inr account"
    using r3 by (cases "refund_account d user refund purchase") (simp_all add: free del: assert_side_free_Inr)
  obtain amount where am: "usable_amount ReconciliationError (ob_amount refund) = Inr amount"
    using r3 by (cases "usable_amount ReconciliationError (ob_amount refund)")
      (simp_all add: free ac del: assert_side_free_Inr)
  note r4 = r3 [unfolded free ac am rbind.simps raise_if_Inr]
  obtain occurred where oc: "ob_occurred_at refund = Some occurred"
    using r4 by (cases "ob_occurred_at refund") simp_all
  have key: "source_key REFUND_SOURCE (rm_id m) = Inr (event_key REFUND_SOURCE k)"
    using event_key [of REFUND_SOURCE k] by (simp add: id REFUND_SOURCE_def)
  note r5 = r4 [unfolded oc option.case key rbind.simps]
  let ?t = "refund_tx (next_id d) user refund amount occurred account (purchase_category d purchase)
      (event_key REFUND_SOURCE k)"
  obtain d1 t1 created where ev: "make_event ?t accs d = Inr (d1, t1, created)"
    using r5 by (cases "make_event ?t accs d") auto
  note r6 = r5 [unfolded ev rbind.simps prod.case, THEN conjunct2, THEN conjunct2, THEN conjunct2]
  have t1: "t1 = t" using r6 by auto
  let ?row = "accepted_row now user refund (tx_id t)" and ?m = "decided now MATCH_CONFIRMED (Some user) m"
  obtain dl where dl: "link_accepted now user refund t d1 = Inr dl"
    using r6 by (cases "link_accepted now user refund t1 d1") (simp_all add: t1)
  note dl1 = dl [unfolded link_accepted_Inr]
  note r7 = r6 [unfolded t1 dl rbind.simps]
  obtain d2 n where dc: "dismiss_competing_candidates now user m refund (put_match ?m dl) = Inr (d2, n)"
    using r7 by (cases "dismiss_competing_candidates now user m refund (put_match ?m dl)") auto
  have "\<exists>a. d' = d2\<lparr>audits := a\<rparr>"
    using r7 unfolding dc rbind.simps prod.case rbind_Inr record_audit_event_Inr sum.inject prod.inject by blast
  then obtain a where d': "d' = d2\<lparr>audits := a\<rparr>" by blast
  have mk: "make_once (refund_draft d user refund amount occurred account (purchase_category d purchase) k) accs d
      = Inr (d1, t, created)"
    using ev [unfolded t1] by (rule make_event_Inr) (simp add: refund_draft_def refund_tx_def)
  have side: "refund = l \<and> purchase = r \<or> refund = r \<and> purchase = l" "ob_direction refund = DIR_CREDIT"
      "ob_direction purchase = DIR_DEBIT"
    using split_sides_Inr [OF sp] by simp_all
  have none: "ob_canonical refund = None" using free by simp
  have am': "ob_amount refund = Some amount" "0 < amount_minor amount" using am by (simp_all add: usable_amount_Inr)
  have lk: "get_observation d (rm_left m) = Some l" "get_observation d (rm_right m) = Some r" "ob_user l = user"
      "ob_user r = user" "rm_user m = user" "rm_type m = REFUND_MATCH"
    using l rr m r1 by simp_all
  show thesis
    by (rule that [OF lk(5,6) lk(1,2,3,4) side none am' mk conjunct1 [OF dl1] dc [unfolded conjunct2 [OF dl1]] d'])
qed

text \<open>Dismissing: the listed candidates are rejected, nothing else changes.\<close>

lemma dismiss_Inr:
  "dismiss now user c m d = Inr d' \<longleftrightarrow>
     user \<in> set (users d) \<and>
     d' = (put_match (decided now MATCH_REJECTED (Some user) m) d)\<lparr>audits := audits d @
       [\<lparr>au_user = user, au_event = MATCH_REJECTED_EVENT, au_object = Some (rm_id m),
         au_metadata = type_and_score m @ [(''superseded_by'', MId (rm_id c))]\<rparr>]\<rparr>"
  by (auto simp: dismiss_def record_audit_event_Inr put_match_def)

lemma dismiss_fold:
  assumes "rfold (dismiss now user c) ms d = Inr d'"
    and "\<forall>m \<in> set ms. get_match d (rm_id m) = Some m" "distinct (map rm_id ms)"
  shows "(\<exists>x a. d' = d\<lparr>matches := x, audits := a\<rparr>) \<and>
    (\<forall>j. get_match d' j = (if j \<in> set (map rm_id ms) then map_option (decided now MATCH_REJECTED (Some user)) (get_match d j)
       else get_match d j))"
  using assms
proof (induction ms arbitrary: d)
  case Nil
  then have "d' = d" by simp
  moreover have "d = d\<lparr>matches := matches d, audits := audits d\<rparr>" by simp
  ultimately have "\<exists>x a. d' = d\<lparr>matches := x, audits := a\<rparr>" by blast
  then show ?case using \<open>d' = d\<close> by simp
next
  case (Cons m ms)
  obtain d1 where s: "dismiss now user c m d = Inr d1" and r: "rfold (dismiss now user c) ms d1 = Inr d'"
    using Cons.prems(1) by auto
  have m: "get_match d (rm_id m) = Some m" using Cons.prems(2) by simp
  have g1: "get_match d1 j = (if j = rm_id m then Some (decided now MATCH_REJECTED (Some user) m) else get_match d j)" for j
    using get_put_match [of d "decided now MATCH_REJECTED (Some user) m" m j] m s by (simp add: dismiss_Inr)
  have "get_match d1 (rm_id x) = Some x" if "x \<in> set ms" for x
  proof -
    have "rm_id x \<noteq> rm_id m" using Cons.prems(3) that by (metis distinct.simps(2) image_eqI list.set_map list.simps(9))
    then show ?thesis using Cons.prems(2) that g1 [of "rm_id x"] by simp
  qed
  then have "\<forall>x \<in> set ms. get_match d1 (rm_id x) = Some x" "distinct (map rm_id ms)"
    using Cons.prems(3) by simp_all
  from Cons.IH [OF r this] obtain x a where d': "d' = d1\<lparr>matches := x, audits := a\<rparr>"
    and g: "\<And>j. get_match d' j = (if j \<in> set (map rm_id ms)
       then map_option (decided now MATCH_REJECTED (Some user)) (get_match d1 j) else get_match d1 j)"
    by blast
  have "rm_id m \<notin> set (map rm_id ms)" using Cons.prems(3) by simp
  then have "get_match d' j = (if j \<in> set (map rm_id (m # ms))
       then map_option (decided now MATCH_REJECTED (Some user)) (get_match d j) else get_match d j)" for j
    using g [of j] g1 [of j] m by auto
  moreover have "\<exists>x a. d' = d\<lparr>matches := x, audits := a\<rparr>"
    using s by (simp add: d' dismiss_Inr put_match_def) blast
  ultimately show ?case by blast
qed

end
