(* ===== verification/Review.thy ===== *)
theory Review
  imports Reconcile
begin

text \<open>
  What holds of the review data whatever sequence of services runs: rows, candidates and
  transactions stay consistent with each other. The services are those of \<open>apps/observations\<close>,
  \<open>apps/reconciliation\<close> and \<open>apps/transactions\<close>.
\<close>

section \<open>The invariant\<close>

definition row_ok :: "db \<Rightarrow> imported_observation \<Rightarrow> bool" where
  "row_ok d ob \<longleftrightarrow>
     observation_constraints ob \<and> (ob_review_status ob = MERGED \<longleftrightarrow> ob_merged_into ob \<noteq> None) \<and>
     (\<forall>i. ob_canonical ob = Some i \<longrightarrow>
        ob_review_status ob \<in> set ACCEPTED_STATUSES \<and> (\<exists>t. get_tx d i = Some t \<and> tx_user t = ob_user ob))"

definition pair_of :: "reconciliation_match \<Rightarrow> id \<times> id \<times> match_type" where
  "pair_of m = (rm_left m, rm_right m, rm_type m)"

definition match_ok :: "db \<Rightarrow> reconciliation_match \<Rightarrow> bool" where
  "match_ok d m \<longleftrightarrow>
     rm_left m \<noteq> rm_right m \<and> show_nat (rm_left m) \<le> show_nat (rm_right m) \<and> rm_score m \<le> 100 \<and>
     owns_row d (rm_user m) (rm_left m) \<and> owns_row d (rm_user m) (rm_right m)"

definition review_ok :: "db \<Rightarrow> bool" where
  "review_ok d \<longleftrightarrow>
     books_ok d \<and> table_ok ob_id (observations d) (next_id d) \<and> (\<forall>ob \<in> set (observations d). row_ok d ob) \<and>
     table_ok rm_id (matches d) (next_id d) \<and> distinct (map pair_of (matches d)) \<and>
     (\<forall>m \<in> set (matches d). match_ok d m)"

definition tx_persists :: "db \<Rightarrow> db \<Rightarrow> bool" where
  "tx_persists d d' \<longleftrightarrow>
     (\<forall>k t. get_tx d k = Some t \<longrightarrow> (\<exists>t'. get_tx d' k = Some t' \<and> tx_user t' = tx_user t))"

lemma tx_persists_refl: "get_tx d' = get_tx d \<Longrightarrow> tx_persists d d'"
  by (simp add: tx_persists_def)

lemma row_ok_persists: "tx_persists d d' \<Longrightarrow> row_ok d ob \<Longrightarrow> row_ok d' ob"
  unfolding row_ok_def tx_persists_def by metis

text \<open>The three ways a step changes the review data: rows in place, matches in place, a new match.\<close>

lemma review_rows:
  assumes "review_ok d" "books_ok d'" "next_id d \<le> next_id d'" "matches d' = matches d"
    and "observations d' = map f (observations d)"
    and "\<And>ob. ob_id (f ob) = ob_id ob \<and> ob_user (f ob) = ob_user ob"
    and "\<And>ob. ob \<in> set (observations d) \<Longrightarrow> row_ok d ob \<Longrightarrow> row_ok d' (f ob)"
  shows "review_ok d'"
proof -
  have "keys ob_id (observations d') = keys ob_id (observations d)" using assms(5,6) by (simp add: keys_def)
  then have "table_ok ob_id (observations d') (next_id d')"
    using assms(1,3) table_ok_mono [of ob_id "observations d" "next_id d" "next_id d'"]
    by (simp add: review_ok_def table_ok_def)
  moreover have "owns_row d' u k = owns_row d u k" for u k
    using assms(5,6) find_row_map [of ob_id f "observations d" k]
    by (simp add: owns_row_def owned_def get_observation_def split: option.split)
  then have "match_ok d' m = match_ok d m" for m by (simp add: match_ok_def)
  moreover have "table_ok rm_id (matches d) (next_id d')"
    using assms(1,3) table_ok_mono by (auto simp: review_ok_def)
  ultimately show ?thesis using assms by (simp add: review_ok_def)
qed

lemma review_books:
  assumes "review_ok d" "books_ok d'" "next_id d \<le> next_id d'" "matches d' = matches d"
    and "observations d' = observations d" "tx_persists d d'"
  shows "review_ok d'"
  by (rule review_rows [OF assms(1-4), of "\<lambda>x. x"]) (use assms(5,6) row_ok_persists in auto)

lemma review_put_row:
  assumes "review_ok d" "get_observation d k = Some ob" "ob_id ob' = k" "ob_user ob' = ob_user ob" "row_ok d ob'"
  shows "review_ok (put_observation ob' d)"
proof (rule review_rows [OF assms(1)])
  let ?f = "\<lambda>x. if ob_id x = k then (if x = ob then ob' else x) else x"
  have uniq: "x = ob" if "x \<in> set (observations d)" "ob_id x = k" for x
    using that assms(1,2) table_ok_find [of ob_id "observations d" "next_id d" x]
    by (simp add: review_ok_def get_observation_def)
  show "observations (put_observation ob' d) = map ?f (observations d)"
    using uniq assms(3) by (auto simp: put_observation_def put_row_def)
  show "ob_id (?f x) = ob_id x \<and> ob_user (?f x) = ob_user x" for x using assms(3,4) by simp
  show "row_ok (put_observation ob' d) (?f x)" if "row_ok d x" for x
    using that assms(5) row_ok_persists [OF tx_persists_refl] by simp
  show "books_ok (put_observation ob' d)" using assms(1) by (simp add: review_ok_def put_observation_def)
qed (simp_all add: put_observation_def)

lemma review_audits [simp]: "review_ok (d\<lparr>audits := a\<rparr>) = review_ok d"
proof -
  have "row_ok (d\<lparr>audits := a\<rparr>) = row_ok d" "match_ok (d\<lparr>audits := a\<rparr>) = match_ok d"
    by (simp_all add: fun_eq_iff row_ok_def match_ok_def owns_row_def)
  then show ?thesis by (simp add: review_ok_def)
qed

lemma review_put_match:
  assumes "review_ok d" "get_match d k = Some m" "rm_id m' = k" "pair_of m' = pair_of m"
    and "rm_user m' = rm_user m" "rm_score m' \<le> 100"
  shows "review_ok (put_match m' d)"
proof -
  let ?f = "\<lambda>x. if rm_id x = k then m' else x"
  have uniq: "x = m" if "x \<in> set (matches d)" "rm_id x = k" for x
    using that assms(1,2) table_ok_find [of rm_id "matches d" "next_id d" x]
    by (simp add: review_ok_def get_match_def)
  have ms: "matches (put_match m' d) = map ?f (matches d)" using assms(3) by (simp add: put_match_def put_row_def)
  have pairs: "map pair_of (map ?f (matches d)) = map pair_of (matches d)" using uniq assms(4) by auto
  have ok: "match_ok (put_match m' d) (?f x)" if "x \<in> set (matches d)" for x
  proof -
    have "match_ok d x" using that assms(1) by (simp add: review_ok_def)
    moreover have "rm_id x = k \<Longrightarrow> match_ok d x \<Longrightarrow> match_ok d m'"
      using uniq [OF that] assms(4-6) by (simp add: match_ok_def pair_of_def)
    ultimately show ?thesis by (simp add: match_ok_def owns_row_def)
  qed
  have "row_ok (put_match m' d) = row_ok d" by (simp add: fun_eq_iff row_ok_def)
  moreover have "books_ok (put_match m' d)"
    by (rule books_ok_cong [of _ d]) (use assms(1) in \<open>simp_all add: review_ok_def put_match_def\<close>)
  moreover have "table_ok rm_id (matches (put_match m' d)) (next_id d)"
    using assms(1) by (simp add: review_ok_def put_match_def)
  moreover have "distinct (map pair_of (matches (put_match m' d)))"
    using assms(1) pairs by (simp only: ms review_ok_def)
  moreover have "\<forall>x \<in> set (matches (put_match m' d)). match_ok (put_match m' d) x"
    unfolding ms set_map by (rule ballI, erule imageE, simp only:, rule ok)
  ultimately show ?thesis using assms(1) by (simp add: review_ok_def)
qed

lemma review_insert_match:
  assumes "review_ok d" "insert_match m d = Inr (d', m')" "show_nat (rm_left m) \<le> show_nat (rm_right m)"
  shows "review_ok d'"
proof -
  have m: "match_clean d m" "same_pair d (rm_left m, rm_right m) (rm_type m) = None" "rm_score m \<le> 100"
    and m': "m' = m\<lparr>rm_id := next_id d\<rparr>" and d': "d' = d\<lparr>matches := matches d @ [m'], next_id := Suc (next_id d)\<rparr>"
    using assms(2) by (auto simp: insert_match_def Let_def)
  have "pair_of m' \<notin> set (map pair_of (matches d))"
    using m(2) by (auto simp: m' same_pair_def find_None_iff pair_of_def)
  moreover have "row_ok d' = row_ok d" by (simp add: fun_eq_iff row_ok_def d' get_tx_def)
  moreover have own: "owns_row d' = owns_row d" by (simp add: fun_eq_iff owns_row_def get_observation_def d')
  moreover have "match_ok d' = match_ok d" by (simp add: fun_eq_iff match_ok_def own)
  moreover have "match_ok d m'" using m assms(3) by (simp add: match_ok_def match_clean_def m' owns_row_def)
  moreover have "table_ok rm_id (matches d @ [m']) (Suc (next_id d))"
    using assms(1) by (intro table_ok_append [of _ _ "next_id d"]) (simp_all add: review_ok_def m')
  moreover have "table_ok ob_id (observations d) (Suc (next_id d))"
    using assms(1) table_ok_mono [of ob_id "observations d" "next_id d" "Suc (next_id d)"] by (simp add: review_ok_def)
  moreover have "books_ok d'"
    by (rule books_ok_cong [of _ d]) (use assms(1) in \<open>simp_all add: review_ok_def d'\<close>)
  ultimately show ?thesis using assms(1) by (simp add: review_ok_def d')
qed

section \<open>Candidates\<close>

lemma ordered_pair_le:
  "show_nat (fst (ordered_pair l r)) \<le> show_nat (snd (ordered_pair l r))"
  using linear [of "show_nat l" "show_nat r"] by (auto simp: ordered_pair_def)

lemma record_match_Inr:
  assumes "record_match user l r ty score features with_key d = Inr (d', m)"
  obtains m0 where "same_pair d (ordered_pair l r) ty = Some m0" "rm_status m0 \<noteq> PROPOSED" "d' = d" "m = m0"
  | m0 where "same_pair d (ordered_pair l r) ty = Some m0" "rm_status m0 = PROPOSED"
      "m = m0\<lparr>rm_score := min 100 score, rm_features := stored_features with_key features\<rparr>" "d' = put_match m d"
  | d1 a where "same_pair d (ordered_pair l r) ty = None"
      "insert_match (new_match user (ordered_pair l r) ty score (stored_features with_key features)) d = Inr (d1, m)"
      "d' = d1\<lparr>audits := a\<rparr>"
proof (cases "same_pair d (ordered_pair l r) ty")
  case None
  note r = assms [unfolded record_match_def None option.case raise_if_Inr]
  obtain d1 m1 where i: "insert_match (new_match user (ordered_pair l r) ty score (stored_features with_key features)) d = Inr (d1, m1)"
    using r by (cases "insert_match (new_match user (ordered_pair l r) ty score (stored_features with_key features)) d") auto
  have "m1 = m \<and> (\<exists>a. d' = d1\<lparr>audits := a\<rparr>)"
    using r unfolding i rbind.simps prod.case rbind_Inr record_audit_event_Inr sum.inject prod.inject by blast
  then show thesis using that(3) [OF None] i by blast
next
  case (Some m0)
  note r = assms [unfolded record_match_def Some option.case raise_if_Inr]
  show thesis
  proof (cases "rm_status m0 = PROPOSED")
    case True
    let ?m = "m0\<lparr>rm_score := min 100 score, rm_features := stored_features with_key features\<rparr>"
    have "m = ?m \<and> d' = put_match ?m d" using r True by (simp add: Let_def) blast
    then show thesis using that(2) [OF Some True] by blast
  next
    case False
    then show thesis using that(1) [OF Some] r by simp
  qed
qed

lemma same_pair_Some:
  assumes "same_pair d p ty = Some m" "review_ok d"
  shows "get_match d (rm_id m) = Some m \<and> rm_left m = fst p \<and> rm_right m = snd p \<and> rm_type m = ty"
proof -
  have "m \<in> set (matches d)" "rm_left m = fst p" "rm_right m = snd p" "rm_type m = ty"
    using assms(1) by (auto simp: same_pair_def find_Some_iff)
  then show ?thesis
    using assms(2) table_ok_find [of rm_id "matches d" "next_id d" m] by (simp add: review_ok_def get_match_def)
qed

lemma review_record_match:
  assumes "review_ok d" "record_match user l r ty score features with_key d = Inr (d', m)"
  shows "review_ok d'"
  using assms(2)
proof (cases rule: record_match_Inr)
  case (2 m0)
  then show ?thesis
    using review_put_match [OF assms(1), of "rm_id m0" m0 m] same_pair_Some [OF 2(1) assms(1)]
    by (simp add: pair_of_def)
next
  case (3 d1 a)
  then show ?thesis
    using review_insert_match [OF assms(1) 3(2)] ordered_pair_le [of l r] by (simp add: new_match_def)
qed (use assms(1) in simp)

lemma link_Inr:
  assumes "link_observations user l r ty_opt with_key d = Inr (d', m)"
  obtains ty where "ty_opt = Some ty" "record_match user l r ty MANUAL_LINK_SCORE [''manual_link''] with_key d = Inr (d', m)"
  | ty m0 where "ty_opt = Some ty" "same_pair d (ordered_pair l r) ty = Some m0" "rm_status m0 \<noteq> MATCH_REJECTED" "d' = d" "m = m0"
  | ty m0 a where "ty_opt = Some ty" "same_pair d (ordered_pair l r) ty = Some m0" "rm_status m0 = MATCH_REJECTED"
      "m = m0\<lparr>rm_status := PROPOSED, rm_score := MANUAL_LINK_SCORE, rm_reviewed_by := None,
          rm_reviewed_at := None, rm_features := stored_features with_key [''manual_link'']\<rparr>"
      "d' = (put_match m d)\<lparr>audits := a\<rparr>"
proof -
  obtain ty where ty: "ty_opt = Some ty" using assms by (cases ty_opt) (simp_all add: link_observations_def)
  note r = assms [unfolded link_observations_def ty option.case]
  show thesis
  proof (cases "same_pair d (ordered_pair l r) ty")
    case None
    then show thesis using that(1) [OF ty] r by simp
  next
    case (Some m0)
    note r1 = r [unfolded Some option.case]
    show thesis
    proof (cases "rm_status m0 = MATCH_REJECTED")
      case False
      then show thesis using that(2) [OF ty Some] r1 by simp
    next
      case True
      let ?m = "m0\<lparr>rm_status := PROPOSED, rm_score := MANUAL_LINK_SCORE, rm_reviewed_by := None,
          rm_reviewed_at := None, rm_features := stored_features with_key [''manual_link'']\<rparr>"
      have "m = ?m \<and> (\<exists>a. d' = (put_match ?m d)\<lparr>audits := a\<rparr>)"
        using r1 True unfolding Let_def by (auto simp: record_audit_event_Inr put_match_def)
      then show thesis using that(3) [OF ty Some True] by blast
    qed
  qed
qed

lemma review_link:
  assumes "review_ok d" "link_observations user l r ty with_key d = Inr (d', m)"
  shows "review_ok d'"
  using assms(2)
proof (cases rule: link_Inr)
  case (1 x)
  then show ?thesis using review_record_match assms(1) by blast
next
  case (3 x m0 a)
  have "review_ok (put_match m d)"
    using review_put_match [OF assms(1), of "rm_id m0" m0 m] same_pair_Some [OF 3(2) assms(1)] 3(4)
    by (simp add: pair_of_def MANUAL_LINK_SCORE_def)
  then show ?thesis by (simp add: 3(5))
qed (use assms(1) in simp)

lemma review_decide:
  assumes "review_ok d" "decide now st user event metadata m d = Inr (d', m')" "get_match d k = Some m0"
    and "rm_id m = k" "pair_of m = pair_of m0" "rm_user m = rm_user m0" "rm_score m \<le> 100"
  shows "review_ok d'"
proof -
  have "review_ok (put_match m' d)"
    using assms by (intro review_put_match [OF assms(1,3)]) (simp_all add: decide_Inr pair_of_def)
  then show ?thesis using assms(2) by (simp add: decide_Inr)
qed

lemma match_score:
  assumes "review_ok d" "get_match d k = Some m"
  shows "rm_score m \<le> 100"
proof -
  have "m \<in> set (matches d)" using assms(2) find_row_SomeD by (fastforce simp: get_match_def)
  then show ?thesis using assms(1) by (auto simp: review_ok_def match_ok_def)
qed

lemma review_decide_stored:
  assumes "review_ok d" "decide now st user event metadata m d = Inr (d', m')" "get_match d k = Some m"
  shows "review_ok d'"
  by (rule review_decide [OF assms(1,2,3) get_match_id [OF assms(3)] refl refl match_score [OF assms(1,3)]])

lemma review_confirm_match:
  "review_ok d \<Longrightarrow> confirm_match now k user d = Inr (d', m) \<Longrightarrow> review_ok d'"
  by (auto simp: confirm_match_def review_decide_stored split: if_splits)

lemma review_reject_match:
  "review_ok d \<Longrightarrow> reject_match now k user d = Inr (d', m) \<Longrightarrow> review_ok d'"
  by (auto simp: reject_match_def review_decide_stored split: if_splits)

section \<open>Rows\<close>

lemma row_in: "get_observation d k = Some ob \<Longrightarrow> review_ok d \<Longrightarrow> row_ok d ob"
  using find_row_SomeD by (fastforce simp: get_observation_def review_ok_def)

lemma review_correct:
  assumes "review_ok d" "correct_observation now k user cs d = Inr (d', ob')"
  shows "review_ok d'"
proof -
  obtain ob where ob: "get_observation d k = Some ob"
    using assms(2) by (auto simp: correct_observation_def)
  from assms(2) ob show ?thesis
  proof (cases rule: correct_observation_Inr)
    case (2 ob1 changed a c)
    have e: "same_evidence ob ob1" using correction_fold [OF 2(1)] by simp
    have f: "ob_id ob' = ob_id ob \<and> ob_user ob' = ob_user ob \<and> ob_canonical ob' = ob_canonical ob \<and>
        ob_merged_into ob' = ob_merged_into ob \<and> ob_review_status ob' = CORRECTED"
      using e 2(5) by (simp add: same_evidence_def rescored_def project_flags_def)
    have "row_ok d ob" by (rule row_in [OF ob assms(1)])
    then have "row_ok d ob'"
      using f 2(4,9) by (auto simp: row_ok_def RESOLVED_STATUSES_def ACCEPTED_STATUSES_def)
    then have "review_ok (put_observation ob' d)"
      using review_put_row [OF assms(1) ob] f get_observation_id [OF ob] by simp
    then show ?thesis by (simp add: 2(8))
  qed (use assms(1) in simp)
qed

lemma review_reject:
  assumes "review_ok d" "reject_observation now k user reason d = Inr (d', ob')"
  shows "review_ok d'"
proof -
  note u = assms(2) [unfolded reject_observation_def Let_def rbind_Inr raise_if_Inr lock_observation_Inr]
  then obtain ob where ob: "get_observation d k = Some ob" "ob_canonical ob = None" by blast
  let ?ob = "ob\<lparr>ob_review_status := REJECTED, ob_reviewed_by := Some user, ob_reviewed_at := Some now\<rparr>"
  have v: "(if ob_review_status ob = REJECTED then Inr (d, ob)
      else rbind (save_observation ?ob d) (\<lambda>d1.
           rbind (record_audit_event user OBSERVATION_REJECTED (Some k)
             [(''reason_length'', MInt (int (length reason)))] d1) (\<lambda>d2. Inr (d2, ?ob)))) = Inr (d', ob')"
    using u ob by (auto simp del: rbind_Inr)
  have r: "ob' = ?ob \<and> observation_constraints ?ob \<and> (\<exists>a. d' = (put_observation ?ob d)\<lparr>audits := a\<rparr>)"
    if ne: "ob_review_status ob \<noteq> REJECTED"
    using v [unfolded if_not_P [OF ne] rbind_Inr save_observation_Inr record_audit_event_Inr sum.inject prod.inject]
    by blast
  have same: "ob_review_status ob = REJECTED \<Longrightarrow> d' = d" using v by simp
  show ?thesis
  proof (cases "ob_review_status ob = REJECTED")
    case False
    note r = r [OF False]
    have "ob_merged_into ob' = None" using r by (auto simp: observation_constraints_def)
    then have "row_ok d ob'" using r ob(2) by (auto simp: row_ok_def)
    then have "review_ok (put_observation ob' d)"
      using review_put_row [OF assms(1) ob(1), of ob'] r get_observation_id [OF ob(1)] by simp
    then show ?thesis using r by auto
  qed (use same assms(1) in simp)
qed

lemma review_merge_step:
  assumes "review_ok d" "merge_step now user winner k (d, m) = Inr (d1, m1)"
  shows "review_ok d1"
proof -
  note r = assms(2) [unfolded merge_step_def raise_if_Inr rbind_Inr lock_observation_Inr fst_conv snd_conv]
  then obtain ob where ob: "get_observation d k = Some ob" "ob_canonical ob = None" by blast
  show ?thesis
  proof (cases "ob_review_status ob = MERGED")
    case True
    then show ?thesis using r ob assms(1) by (auto split: if_splits)
  next
    case False
    let ?ob = "ob\<lparr>ob_merged_into := Some winner, ob_review_status := MERGED, ob_reviewed_by := Some user,
        ob_reviewed_at := Some now\<rparr>"
    have s: "observation_constraints ?ob" "d1 = put_observation ?ob d"
      using r ob False by (auto simp: save_observation_Inr Let_def)
    have "row_ok d ?ob" using s(1) ob(2) by (simp add: row_ok_def)
    then show ?thesis
      using review_put_row [OF assms(1) ob(1), of ?ob] get_observation_id [OF ob(1)] by (simp add: s(2))
  qed
qed

lemma review_merge:
  assumes "review_ok d" "merge_observations now user winner ks d = Inr (d', w)"
  shows "review_ok d'"
  using assms(2)
proof (rule merge_Inr)
  fix d1 m a
  assume f: "rfold (merge_step now user winner) ks (d, []) = Inr (d1, m)" and d': "d' = d1\<lparr>audits := a\<rparr>"
  have "rfold (merge_step now user winner) ks s = Inr s' \<Longrightarrow> review_ok (fst s) \<Longrightarrow> review_ok (fst s')" for s s'
  proof (induction ks arbitrary: s)
    case (Cons k ks)
    obtain s1 where "merge_step now user winner k s = Inr s1" "rfold (merge_step now user winner) ks s1 = Inr s'"
      using Cons.prems(1) by auto
    moreover from this have "review_ok (fst s1)"
      using review_merge_step [of "fst s" now user winner k "snd s" "fst s1" "snd s1"] Cons.prems(2) by simp
    ultimately show ?case using Cons.IH by blast
  qed simp
  from this [OF f] show ?thesis using assms(1) d' by simp
qed

section \<open>Transactions\<close>

lemma make_once_persists:
  assumes "make_once t accs d = Inr (d', t', created)" "books_ok d" "tx_status t = DRAFT" "tx_source_key t \<noteq> []"
    and "accounts_loaded d accs"
  shows "tx_persists d d'"
  unfolding tx_persists_def
proof (intro allI impI)
  fix k x
  assume k: "get_tx d k = Some x"
  show "\<exists>x'. get_tx d' k = Some x' \<and> tx_user x' = tx_user x"
  proof (cases "k = tx_id t'")
    case True
    then have "\<not> created" using make_once_effect [OF assms] k by auto
    then show ?thesis using make_once_effect [OF assms] k by auto
  next
    case False
    then show ?thesis using make_once_frame [OF assms(1,2)] k by simp
  qed
qed

lemma make_once_user:
  assumes "make_once t accs d = Inr (d', t', created)"
  shows "tx_user t' = tx_user t \<and> tx_source_key t' = tx_source_key t"
proof -
  obtain d0 t1 where "save_once t d = Inr (d0, t1, created)"
    and c: "confirm_and_post t1 (if created then accs else None) d0 = Inr (d', t')"
    using assms by (auto simp: make_once_def)
  then have "tx_user t1 = tx_user t \<and> tx_source_key t1 = tx_source_key t"
    by (auto simp: save_once_Inr insert_tx_def Let_def same_origin_def find_Some_iff)
  moreover have "tx_user t' = tx_user t1 \<and> tx_source_key t' = tx_source_key t1"
    using c by (auto simp: confirm_and_post_def Let_def split: option.splits if_splits prod.splits)
  ultimately show ?thesis by simp
qed

lemma review_make_once:
  assumes "review_ok d" "make_once t accs d = Inr (d', t', created)" "tx_status t = DRAFT" "tx_source_key t \<noteq> []"
    and "accounts_loaded d accs"
  shows "review_ok d' \<and> get_tx d' (tx_id t') = Some t' \<and> tx_user t' = tx_user t \<and>
    observations d' = observations d \<and> matches d' = matches d"
proof -
  have ok: "books_ok d" using assms(1) by (simp add: review_ok_def)
  note e = make_once_effect [OF assms(2) ok assms(3-5)]
  have "books_ok d'" using e by (simp add: good_step_def)
  then have "review_ok d'"
    using review_books [OF assms(1)] e make_once_frame [OF assms(2) ok] make_once_persists [OF assms(2) ok assms(3-5)]
    by simp
  then show ?thesis using e make_once_user [OF assms(2)] by simp
qed

text \<open>Pointing a row at a stored transaction of its owner.\<close>

lemma review_link_row:
  assumes "review_ok d" "get_observation d k = Some ob" "get_tx d i = Some t" "tx_user t = ob_user ob"
    and "observation_constraints (accepted_row now user ob i)"
  shows "review_ok (put_observation (accepted_row now user ob i) d)"
proof (rule review_put_row [OF assms(1,2)])
  have "ob_merged_into ob = None" by (rule observation_constraints_linked [OF assms(5)])
  moreover have "reviewed_status ob \<noteq> MERGED" by (simp add: reviewed_status_def)
  ultimately show "row_ok d (accepted_row now user ob i)" using assms(3-5) by (simp add: row_ok_def)
qed (use get_observation_id [OF assms(2)] in simp_all)

lemma review_accept:
  assumes "review_ok d" "accept_observation now k user given ty accs confirmed d = Inr (d', t)" "accounts_loaded d accs"
  shows "review_ok d'"
proof -
  obtain ob where ob: "get_observation d k = Some ob"
    using assms(2) by (auto simp: accept_observation_def)
  show ?thesis
  proof (cases "ob_canonical ob")
    case None
    from accept_newE [OF assms(2) ob None] obtain account amount occurred d2 created a where
      u: "ob_user ob = user" and m: "make_once (draft_of user ob account amount occurred ty (next_id d)) accs d = Inr (d2, t, created)"
      and c: "observation_constraints (accepted_row now user ob (tx_id t))"
      and d': "d' = (put_observation (accepted_row now user ob (tx_id t)) d2)\<lparr>audits := a\<rparr>"
      by metis
    note e = review_make_once [OF assms(1) m draft_fields(1) _ assms(3)]
    have "get_observation d2 k = Some ob" using e ob by (simp add: get_observation_def)
    then show ?thesis using review_link_row [of d2 k ob "tx_id t" t] e u c by (simp add: d')
  next
    case (Some i)
    then show ?thesis
      using assms(1,2) ob by (auto simp: accept_observation_def split: option.splits)
  qed
qed

section \<open>Deletion and unlinking\<close>

lemma delete_frame:
  assumes "delete_transaction i user reason confirmed d = Inr (d', res)"
  shows "matches d' = matches d \<and> next_id d \<le> next_id d' \<and> tx_persists d d'"
  using assms
proof (rule delete_Inr)
  fix t d1 es d2 d3 t3
  assume r: "reverse_transaction_postings t d = Inr (d1, es)"
    and d2: "d2 = d1\<lparr>observations := map (\<lambda>o'. if fed_by i user o' then release_observation o' else o') (observations d1)\<rparr>"
    and m: "transition_transaction_status i user ''voided'' d2 = Inr (d3, t3)" and d': "\<exists>a. d' = d3\<lparr>audits := a\<rparr>"
  have d1: "transactions d1 = transactions d" "matches d1 = matches d" "next_id d \<le> next_id d1"
    using r by (auto simp: reverse_Inr bulk_create_def Let_def split: if_splits)
  obtain t2 b where t2: "get_tx d2 i = Some t2"
    and d3: "d3 = (put_tx (t2\<lparr>tx_status := VOIDED, tx_reviewed_by := Some user\<rparr>) d2)\<lparr>audits := b\<rparr>"
    using transition_put [of i user VOIDED d2 d3 t3] m by auto
  let ?t = "t2\<lparr>tx_status := VOIDED, tx_reviewed_by := Some user\<rparr>"
  have same: "get_tx d2 = get_tx d" by (simp add: d2 d1 get_tx_def fun_eq_iff)
  have "get_tx d3 j = (if j = i then Some ?t else get_tx d2 j)" for j
    using get_tx_put [of d2 ?t t2 j] t2 get_tx_id [OF t2] by (simp add: d3)
  then have "tx_persists d d3" using t2 same by (auto simp: tx_persists_def)
  moreover obtain a where "d' = d3\<lparr>audits := a\<rparr>" using d' by blast
  ultimately show ?thesis using d1 by (simp add: d3 d2 put_tx_def tx_persists_def)
qed

lemma release_row_ok:
  assumes "row_ok d ob"
  shows "row_ok d (if fed_by i user ob then release_observation ob else ob)"
  using assms by (auto simp: row_ok_def fed_by_def release_observation_def observation_constraints_def)

lemma review_delete:
  assumes "review_ok d" "delete_transaction i user reason confirmed d = Inr (d', res)"
  shows "review_ok d'"
proof -
  let ?f = "\<lambda>o'. if fed_by i user o' then release_observation o' else o'"
  note fr = delete_frame [OF assms(2)]
  obtain t where "get_tx d i = Some t" using assms(2) by (rule delete_Inr)
  note dr = delete_row [OF assms(2) this]
  have "good_step d d'" using good_delete [OF _ assms(2)] assms(1) by (simp add: review_ok_def)
  then show ?thesis
  proof (intro review_rows [OF assms(1), of d' ?f])
    fix ob assume "row_ok d ob"
    then show "row_ok d' (?f ob)" using release_row_ok row_ok_persists fr by blast
  qed (use fr dr in \<open>simp_all add: good_step_def release_observation_def\<close>)
qed

lemma review_unmerge:
  assumes "review_ok d" "review_ok d0" "rows = match_rows d0 user m"
    and "observations d = map f (observations d0)" "\<And>ob. ob_id (f ob) = ob_id ob"
    and "\<And>ob. ob_canonical ob = None \<Longrightarrow> ob_canonical (f ob) = None"
  shows "review_ok (unmerge_rows m rows d)"
proof (rule review_rows [OF assms(1)])
  let ?ids = "map ob_id (filter (\<lambda>ob. ob_merged_into ob \<in> {Some (rm_left m), Some (rm_right m)}) rows)"
  let ?g = "\<lambda>ob. if ob_id ob \<in> set ?ids then unmerge_row ob else ob"
  show "observations (unmerge_rows m rows d) = map ?g (observations d)" by (simp add: unmerge_rows_def Let_def)
  show "ob_id (?g ob) = ob_id ob \<and> ob_user (?g ob) = ob_user ob" for ob by (simp add: unmerge_row_def)
  show "books_ok (unmerge_rows m rows d)"
    by (rule books_ok_cong [of _ d]) (use assms(1) in \<open>simp_all add: review_ok_def unmerge_rows_def Let_def\<close>)
  show "row_ok (unmerge_rows m rows d) (?g ob)" if ob: "ob \<in> set (observations d)" "row_ok d ob" for ob
  proof -
    have p: "tx_persists d (unmerge_rows m rows d)"
      by (rule tx_persists_refl) (simp add: unmerge_rows_def Let_def get_tx_def fun_eq_iff)
    have "ob_canonical ob = None" if listed: "ob_id ob \<in> set ?ids"
    proof -
      have tab: "table_ok ob_id (observations d0) (next_id d0)" using assms(2) by (simp add: review_ok_def)
      obtain x where x: "x \<in> set (observations d0)" "ob = f x" using ob(1) assms(4) by auto
      obtain y where y: "y \<in> set (observations d0)" "ob_id y = ob_id ob" "ob_merged_into y \<noteq> None"
        using listed assms(3) by (auto simp: match_rows_def)
      have "y = x"
        using table_ok_find [OF tab x(1)] table_ok_find [OF tab y(1)] x(2) y(2) assms(5) by simp
      moreover have "row_ok d0 y" using y(1) assms(2) by (simp add: review_ok_def)
      ultimately have "ob_canonical x = None" using y(3) by (auto simp: row_ok_def observation_constraints_def)
      then show ?thesis using assms(6) x(2) by simp
    qed
    then have "row_ok d (?g ob)"
      using ob(2) by (auto simp: row_ok_def unmerge_row_def observation_constraints_def)
    then show ?thesis by (rule row_ok_persists [OF p])
  qed
qed (simp_all add: unmerge_rows_def Let_def)

lemma unlink_Inr:
  assumes "unlink_match now k user d = Inr (d', m')"
  obtains m d1 where "get_match d k = Some m" "rm_user m = user" "rm_status m = MATCH_CONFIRMED"
    "match_transaction m (match_rows d user m) = Inr None \<and> d1 = d \<or>
     (\<exists>i res. match_transaction m (match_rows d user m) = Inr (Some i) \<and>
        delete_transaction i user ''reconciliation match unlinked'' True d = Inr (d1, res))"
    "decide now MATCH_REJECTED user MATCH_UNLINKED_EVENT
        [(''match_type'', MStr (match_value (rm_type m))), (''match_id'', MId (rm_id m))] m
        (unmerge_rows m (match_rows d user m) d1) = Inr (d', m')"
proof -
  note r = assms [unfolded unlink_match_def Let_def]
  obtain m where m: "lock_match d k user = Inr m" using r by (cases "lock_match d k user") auto
  note r1 = r [unfolded m rbind.simps raise_if_Inr]
  obtain made where made: "match_transaction m (match_rows d user m) = Inr made"
    using r1 by (cases "match_transaction m (match_rows d user m)") auto
  note r2 = r1 [unfolded made rbind.simps, THEN conjunct2]
  show thesis
  proof (cases made)
    case None
    then show thesis using that [of m d] r1 r2 m made by simp
  next
    case (Some i)
    obtain d1 res where "delete_transaction i user ''reconciliation match unlinked'' True d = Inr (d1, res)"
      using r2 by (cases "delete_transaction i user ''reconciliation match unlinked'' True d") (auto simp: Some)
    then show thesis using that [of m d1] r1 r2 m made Some by simp
  qed
qed

lemma review_unlink:
  assumes "review_ok d" "unlink_match now k user d = Inr (d', m')"
  shows "review_ok d'"
  using assms(2)
proof (rule unlink_Inr)
  fix m d1
  assume m: "get_match d k = Some m"
    and d1: "match_transaction m (match_rows d user m) = Inr None \<and> d1 = d \<or>
     (\<exists>i res. match_transaction m (match_rows d user m) = Inr (Some i) \<and>
        delete_transaction i user ''reconciliation match unlinked'' True d = Inr (d1, res))"
    and dec: "decide now MATCH_REJECTED user MATCH_UNLINKED_EVENT
        [(''match_type'', MStr (match_value (rm_type m))), (''match_id'', MId (rm_id m))] m
        (unmerge_rows m (match_rows d user m) d1) = Inr (d', m')"
  have ms: "matches (unmerge_rows m rows x) = matches x" for rows x by (simp add: unmerge_rows_def Let_def)
  have "review_ok (unmerge_rows m (match_rows d user m) d1) \<and> matches d1 = matches d"
    using d1
  proof (elim disjE exE conjE)
    assume "d1 = d"
    then show ?thesis using review_unmerge [OF assms(1,1) refl, of "\<lambda>x. x"] by simp
  next
    fix i res
    assume del: "delete_transaction i user ''reconciliation match unlinked'' True d = Inr (d1, res)"
    obtain t where "get_tx d i = Some t" using del by (rule delete_Inr)
    note dr = delete_row [OF del this]
    show ?thesis
      using review_unmerge [OF review_delete [OF assms(1) del] assms(1) refl, of "\<lambda>o'. if fed_by i user o' then release_observation o' else o'"]
        dr delete_frame [OF del] by (simp add: release_observation_def)
  qed
  then show ?thesis
    using review_decide_stored [OF _ dec] m by (simp add: get_match_def ms)
qed

section \<open>Confirmations\<close>

lemma merge_matches:
  assumes "merge_observations now user winner ks d = Inr (d', w)"
  shows "matches d' = matches d"
  using assms
proof (rule merge_Inr)
  fix d1 m a
  assume "rfold (merge_step now user winner) ks (d, []) = Inr (d1, m)" "d' = d1\<lparr>audits := a\<rparr>"
  then show ?thesis using merge_fold [of now user winner ks d "[]" d1 m] by auto
qed

lemma review_confirm_duplicate:
  assumes "review_ok d" "confirm_duplicate_match now k user winner d = Inr (d', m')"
  shows "review_ok d'"
proof -
  note r = assms(2) [unfolded confirm_duplicate_match_def Let_def]
  obtain m where m: "lock_match d k user = Inr m" using r by (cases "lock_match d k user") auto
  show ?thesis
  proof (cases "rm_status m = MATCH_CONFIRMED")
    case True
    then show ?thesis using r m assms(1) by simp
  next
    case False
    let ?loser = "if winner = rm_left m then rm_right m else rm_left m"
    obtain d1 w where g: "merge_observations now user winner [?loser] d = Inr (d1, w)"
      and dec: "decide now MATCH_CONFIRMED user DUPLICATE_MERGED (merged_metadata winner ?loser m) m d1 = Inr (d', m')"
      using r unfolding m rbind.simps raise_if_Inr if_not_P [OF False] by auto
    have "get_match d1 k = Some m" using m merge_matches [OF g] by (simp add: get_match_def)
    then show ?thesis using review_decide_stored [OF review_merge [OF assms(1) g] dec] by simp
  qed
qed

lemma review_automatic:
  assumes "review_ok d" "automatically_merge_duplicate now user features m d = Inr d'" "get_match d (rm_id m) = Some m"
  shows "review_ok d'"
proof (cases "rm_status m = PROPOSED \<and> (\<exists>w l. unmerged_pair d user m = [w, l])")
  case False
  then show ?thesis
    using assms(1,2) by (auto simp: automatically_merge_duplicate_def split: if_splits list.splits)
next
  case True
  then obtain w l where wl: "rm_status m = PROPOSED" "unmerged_pair d user m = [w, l]" by blast
  obtain d1 x where g: "merge_observations now user (ob_id w) [ob_id l] d = Inr (d1, x)"
    using assms(2) wl by (cases "merge_observations now user (ob_id w) [ob_id l] d") (auto simp: automatically_merge_duplicate_def)
  have "\<exists>a. d' = (put_match (decided now MATCH_CONFIRMED None m) d1)\<lparr>audits := a\<rparr>"
    using assms(2) wl g by (simp add: automatically_merge_duplicate_def record_audit_event_Inr put_match_def) blast
  moreover have "review_ok (put_match (decided now MATCH_CONFIRMED None m) d1)"
  proof (rule review_put_match [OF review_merge [OF assms(1) g]])
    show "get_match d1 (rm_id m) = Some m" using assms(3) merge_matches [OF g] by (simp add: get_match_def)
    show "rm_score (decided now MATCH_CONFIRMED None m) \<le> 100" using match_score [OF assms(1,3)] by simp
  qed (simp_all add: pair_of_def)
  ultimately show ?thesis by auto
qed

lemma transfer_links:
  assumes "review_ok d" "get_observation d k1 = Some a" "get_observation d k2 = Some b" "k1 \<noteq> k2"
    and "get_tx d i = Some t" "tx_user t = ob_user a" "tx_user t = ob_user b"
    and "observation_constraints (accepted_row now user a i)" "observation_constraints (accepted_row now user b i)"
  shows "review_ok (put_observation (accepted_row now user b i) (put_observation (accepted_row now user a i) d))"
proof (rule review_link_row [of _ k2])
  show "review_ok (put_observation (accepted_row now user a i) d)"
    by (rule review_link_row [OF assms(1,2,5,6,8)])
  have "ob_id a = k1" by (rule get_observation_id [OF assms(2)])
  then show "get_observation (put_observation (accepted_row now user a i) d) k2 = Some b"
    using get_put_observation [of d "accepted_row now user a i" a k2] assms(2-4) by simp
  show "get_tx (put_observation (accepted_row now user a i) d) i = Some t" using assms(5) by simp
qed (use assms in simp_all)

lemma unlinked_constraints:
  "row_ok d ob \<Longrightarrow> ob_merged_into ob = None \<Longrightarrow> observation_constraints (accepted_row now user ob i)"
  by (simp add: row_ok_def observation_constraints_def accepted_row_def)

lemma review_transfer:
  assumes "review_ok d" "confirm_internal_transfer now k user accs d = Inr (d', t)" "accounts_loaded d accs"
  shows "review_ok d'"
proof -
  note r = assms(2) [unfolded confirm_internal_transfer_def]
  obtain m where m: "lock_match d k user = Inr m" using r by (cases "lock_match d k user") auto
  have st: "rm_status m \<noteq> MATCH_REJECTED" using r by (simp add: m)
  show ?thesis
  proof (cases "rm_status m = MATCH_CONFIRMED")
    case True
    note r1 = r [unfolded m rbind.simps raise_if_Inr if_P [OF True]]
    then have "d' = d" by auto
    then show ?thesis using assms(1) by simp
  next
    case False
    then have open_still: "rm_status m = PROPOSED" using st by (cases "rm_status m") simp_all
    have gm: "get_match d k = Some m" using m by simp
    show ?thesis
    proof (rule confirm_transfer_newE [OF assms(2) gm open_still])
      fix l r outgoing incoming source amount dates d1 created a
      let ?out = "accepted_row now user outgoing (tx_id t)" and ?inc = "accepted_row now user incoming (tx_id t)"
      assume lr: "get_observation d (rm_left m) = Some l" "get_observation d (rm_right m) = Some r"
        and own: "ob_user l = user" "ob_user r = user" and side: "outgoing = l \<and> incoming = r \<or> outgoing = r \<and> incoming = l"
        and dirs: "ob_direction outgoing = DIR_DEBIT" "ob_direction incoming = DIR_CREDIT"
        and merged: "ob_merged_into l = None" "ob_merged_into r = None"
        and mk: "make_once (transfer_draft d user amount dates source k) accs d = Inr (d1, t, created)"
        and d': "d' = (put_match (decided now MATCH_CONFIRMED (Some user) m)
           (put_observation ?inc (put_observation ?out d1)))\<lparr>audits := a\<rparr>"
      note e = review_make_once [OF assms(1) mk transfer_draft_fields(1) _ assms(3)]
      have gets: "get_observation d1 = get_observation d" "get_match d1 = get_match d"
        using e by (simp_all add: fun_eq_iff get_observation_def get_match_def)
      obtain k1 k2 where k: "get_observation d k1 = Some outgoing" "get_observation d k2 = Some incoming"
        using side lr by auto
      then have "k1 \<noteq> k2" using dirs by auto
      moreover have "observation_constraints ?out" "observation_constraints ?inc"
        using unlinked_constraints [OF row_in [OF k(1) assms(1)]] unlinked_constraints [OF row_in [OF k(2) assms(1)]]
          side merged by auto
      moreover have "get_observation d1 k1 = Some outgoing" "get_observation d1 k2 = Some incoming" using k gets by simp_all
      moreover have "ob_user outgoing = user" "ob_user incoming = user" using side own by auto
      moreover have "review_ok d1" "get_tx d1 (tx_id t) = Some t" "tx_user t = user" using e by simp_all
      ultimately have "review_ok (put_observation ?inc (put_observation ?out d1))" by (intro transfer_links) simp_all
      then have "review_ok (put_match (decided now MATCH_CONFIRMED (Some user) m)
           (put_observation ?inc (put_observation ?out d1)))"
        by (rule review_put_match [of _ k m])
          (use gm gets match_score [OF assms(1) gm] get_match_id [OF gm] in \<open>simp_all add: pair_of_def\<close>)
      then show ?thesis by (simp add: d')
    qed
  qed
qed

lemma review_dismiss:
  assumes "review_ok d" "rfold (dismiss now user c) ms d = Inr d'" "\<forall>m \<in> set ms. get_match d (rm_id m) = Some m"
    and "distinct (map rm_id ms)"
  shows "review_ok d'"
  using assms
proof (induction ms arbitrary: d)
  case (Cons m ms)
  obtain d1 where s: "dismiss now user c m d = Inr d1" and r: "rfold (dismiss now user c) ms d1 = Inr d'"
    using Cons.prems(2) by auto
  have m: "get_match d (rm_id m) = Some m" using Cons.prems(3) by simp
  have "review_ok (put_match (decided now MATCH_REJECTED (Some user) m) d)"
    by (rule review_put_match [OF Cons.prems(1) m]) (use match_score [OF Cons.prems(1) m] in \<open>simp_all add: pair_of_def\<close>)
  then have ok1: "review_ok d1" using s by (simp add: dismiss_Inr)
  have g1: "get_match d1 j = (if j = rm_id m then Some (decided now MATCH_REJECTED (Some user) m) else get_match d j)" for j
    using get_put_match [of d "decided now MATCH_REJECTED (Some user) m" m j] m s by (simp add: dismiss_Inr)
  have "get_match d1 (rm_id x) = Some x" if "x \<in> set ms" for x
  proof -
    have "rm_id x \<noteq> rm_id m" using Cons.prems(4) that by (metis distinct.simps(2) image_eqI list.set_map list.simps(9))
    then show ?thesis using Cons.prems(3) that g1 [of "rm_id x"] by simp
  qed
  then show ?case using Cons.IH [OF ok1 r] Cons.prems(4) by simp
qed simp

text \<open>The candidates a query lists are the stored rows, each once.\<close>

lemma listed_matches:
  assumes "review_ok d"
  shows "(\<forall>m \<in> set (filter P (matches d)). get_match d (rm_id m) = Some m) \<and> distinct (map rm_id (filter P (matches d)))"
  using assms table_ok_find [of rm_id "matches d" "next_id d"]
  by (auto simp: review_ok_def get_match_def table_ok_def keys_def distinct_map inj_on_def)

lemma refund_stage:
  assumes "review_ok d" "make_once (refund_draft d user refund amount occurred account category k) accs d = Inr (d1, t, created)"
    and "accounts_loaded d accs" "get_observation d j = Some refund" "ob_user refund = user"
    and "observation_constraints (accepted_row now user refund (tx_id t))" "get_match d i = Some m"
  shows "review_ok (put_match (decided now MATCH_CONFIRMED (Some user) m)
      (put_observation (accepted_row now user refund (tx_id t)) d1))"
proof (rule review_put_match [of _ i m])
  note e = review_make_once [OF assms(1,2) refund_draft_fields(1) _ assms(3)]
  have gets: "get_observation d1 = get_observation d" "get_match d1 = get_match d"
    using e by (simp_all add: fun_eq_iff get_observation_def get_match_def)
  have "tx_user t = ob_user refund" using e assms(5) by simp
  moreover have "review_ok d1" "get_tx d1 (tx_id t) = Some t" using e by simp_all
  moreover have "get_observation d1 j = Some refund" using assms(4) gets by simp
  ultimately show "review_ok (put_observation (accepted_row now user refund (tx_id t)) d1)"
    using review_link_row [OF _ _ _ _ assms(6)] by blast
  show "get_match (put_observation (accepted_row now user refund (tx_id t)) d1) i = Some m" using assms(7) gets by simp
qed (use match_score [OF assms(1,7)] get_match_id [OF assms(7)] in \<open>simp_all add: pair_of_def\<close>)

lemma review_refund:
  assumes "review_ok d" "confirm_refund_match now k user accs d = Inr (d', t)" "accounts_loaded d accs"
  shows "review_ok d'"
proof -
  note r = assms(2) [unfolded confirm_refund_match_def]
  obtain m where m: "lock_match d k user = Inr m" using r by (cases "lock_match d k user") auto
  have st: "rm_status m \<noteq> MATCH_REJECTED" using r by (simp add: m)
  show ?thesis
  proof (cases "rm_status m = MATCH_CONFIRMED")
    case True
    note r1 = r [unfolded m rbind.simps raise_if_Inr if_P [OF True]]
    then have "d' = d" by auto
    then show ?thesis using assms(1) by simp
  next
    case False
    then have open_still: "rm_status m = PROPOSED" using st by (cases "rm_status m") simp_all
    have gm: "get_match d k = Some m" using m by simp
    show ?thesis
    proof (rule confirm_refund_newE [OF assms(2) gm open_still])
      fix l r refund purchase account amount occurred d1 d2 created n a
      let ?row = "accepted_row now user refund (tx_id t)" and ?m = "decided now MATCH_CONFIRMED (Some user) m"
      assume lr: "get_observation d (rm_left m) = Some l" "get_observation d (rm_right m) = Some r"
        and own: "ob_user l = user" "ob_user r = user" and side: "refund = l \<and> purchase = r \<or> refund = r \<and> purchase = l"
        and mk: "make_once (refund_draft d user refund amount occurred account (purchase_category d purchase) k) accs d
            = Inr (d1, t, created)"
        and c: "observation_constraints ?row"
        and dc: "dismiss_competing_candidates now user m refund (put_match ?m (put_observation ?row d1)) = Inr (d2, n)"
        and d': "d' = d2\<lparr>audits := a\<rparr>"
      have "\<exists>j. get_observation d j = Some refund" "ob_user refund = user" using side lr own by auto
      then have ok: "review_ok (put_match ?m (put_observation ?row d1))"
        using refund_stage [OF assms(1) mk assms(3) _ _ c gm] by blast
      have "rfold (dismiss now user m) (filter (competing user m refund) (matches (put_match ?m (put_observation ?row d1))))
          (put_match ?m (put_observation ?row d1)) = Inr d2"
        using dc by (auto simp: dismiss_competing_candidates_def Let_def)
      then have "review_ok d2" using review_dismiss [OF ok] listed_matches [OF ok] by blast
      then show ?thesis by (simp add: d')
    qed
  qed
qed

section \<open>Loops of separate transactions\<close>

lemma review_each:
  assumes "\<And>x d. review_ok d \<Longrightarrow> review_ok (fst (f x d))"
  shows "review_ok d \<Longrightarrow> review_ok (fst (each_committed f xs d))"
proof (induction xs arbitrary: d)
  case (Cons x xs)
  obtain d1 r where f: "f x d = (d1, r)" by (cases "f x d")
  then have ok: "review_ok d1" using assms [OF Cons.prems, of x] by simp
  show ?case
  proof (cases r)
    case (Inl e)
    then show ?thesis using ok by (simp add: f)
  next
    case (Inr y)
    obtain d2 r2 where "each_committed f xs d1 = (d2, r2)" by (cases "each_committed f xs d1")
    then show ?thesis using Cons.IH [OF ok] by (simp add: f Inr)
  qed
qed simp

lemma committed_fst: "fst (committed d r) = (case r of Inl e \<Rightarrow> d | Inr p \<Rightarrow> fst p)"
  by (auto simp: committed_def split: sum.splits)

lemma review_committed:
  "review_ok d \<Longrightarrow> (\<And>d' y. r = Inr (d', y) \<Longrightarrow> review_ok d') \<Longrightarrow> review_ok (fst (committed d r))"
  by (auto simp: committed_fst split: sum.splits)

lemma review_record_proposals:
  "review_ok d \<Longrightarrow> review_ok (fst (record_proposals user with_key ps d))"
  unfolding record_proposals_def
  by (rule review_each, rule review_committed, assumption) (simp add: record_proposal_def review_record_match)

lemma recorded_match:
  assumes "review_ok d" "record_match user l r ty score features with_key d = Inr (d', m)"
  shows "get_match d' (rm_id m) = Some m"
  using assms(2)
proof (cases rule: record_match_Inr)
  case (1 m0)
  then show ?thesis using same_pair_Some [OF 1(1) assms(1)] by simp
next
  case (2 m0)
  then have "get_match d (rm_id m) = Some m0" using same_pair_Some [OF 2(1) assms(1)] by simp
  then show ?thesis using get_put_match [of d m m0 "rm_id m"] 2(4) by simp
next
  case (3 d1 a)
  have "table_ok rm_id (matches d) (next_id d)" using assms(1) by (simp add: review_ok_def)
  then have "find_row rm_id (matches d) (next_id d) = None" by (rule table_ok_find_new) simp
  then show ?thesis
    using 3(2) by (auto simp: 3(3) insert_match_def Let_def get_match_def find_row_append)
qed

lemma review_record_duplicate:
  assumes "review_ok d"
  shows "review_ok (fst (record_duplicate automatic now user with_key c d))"
proof (cases "record_match user (of_id (dc_left c)) (of_id (dc_right c)) DUPLICATE_OBSERVATION
    (ds_score (dc_score c)) (dc_features c) with_key d")
  case (Inl e)
  then show ?thesis using assms by (simp add: record_duplicate_def committed_def)
next
  case (Inr p)
  obtain d1 m where p: "p = (d1, m)" by (cases p)
  note r = Inr [unfolded p]
  have ok: "review_ok d1" by (rule review_record_match [OF assms r])
  have "review_ok (fst (committed d1 (rbind (automatically_merge_duplicate now user (dc_features c) m d1) (\<lambda>d2. Inr (d2, m)))))"
    using review_automatic [OF ok _ recorded_match [OF assms r]] by (intro review_committed ok) auto
  then show ?thesis using ok by (simp add: record_duplicate_def r committed_def)
qed

lemma review_record_memberships:
  assumes "review_ok d" "record_statement_memberships user with_key ps d = Inr (d', ms)"
  shows "review_ok d'"
proof -
  have "rfold (record_membership user with_key) ps s = Inr s' \<Longrightarrow> review_ok (fst s) \<Longrightarrow> review_ok (fst s')" for s s'
  proof (induction ps arbitrary: s)
    case (Cons p ps)
    then obtain s1 where s: "record_membership user with_key p s = Inr s1" "rfold (record_membership user with_key) ps s1 = Inr s'"
      by auto
    then have "review_ok (fst s1)"
      using Cons.prems(2) review_record_match by (fastforce simp: record_membership_def record_proposal_def)
    then show ?case using Cons.IH s(2) by blast
  qed simp
  then show ?thesis using assms by (fastforce simp: record_statement_memberships_def)
qed

section \<open>The steps\<close>

inductive review_step :: "db \<Rightarrow> db \<Rightarrow> bool" where
  correct: "correct_observation now k u cs d = Inr (d', ob) \<Longrightarrow> review_step d d'"
| accept: "accept_observation now k u given ty accs confirmed d = Inr (d', t) \<Longrightarrow> accounts_loaded d accs \<Longrightarrow> review_step d d'"
| reject: "reject_observation now k u reason d = Inr (d', ob) \<Longrightarrow> review_step d d'"
| merge: "merge_observations now u winner ks d = Inr (d', w) \<Longrightarrow> review_step d d'"
| delete: "delete_transaction i u reason confirmed d = Inr (d', res) \<Longrightarrow> review_step d d'"
| link: "link_observations u l r ty with_key d = Inr (d', m) \<Longrightarrow> review_step d d'"
| duplicates: "review_step d (fst (record_duplicate_candidates automatic now u with_key cs d))"
| proposals: "review_step d (fst (record_proposals u with_key ps d))"
| memberships: "record_statement_memberships u with_key ps d = Inr (d', ms) \<Longrightarrow> review_step d d'"
| confirm: "confirm_match now k u d = Inr (d', m) \<Longrightarrow> review_step d d'"
| dismissal: "reject_match now k u d = Inr (d', m) \<Longrightarrow> review_step d d'"
| duplicate: "confirm_duplicate_match now k u winner d = Inr (d', m) \<Longrightarrow> review_step d d'"
| unlink: "unlink_match now k u d = Inr (d', m) \<Longrightarrow> review_step d d'"
| transfer: "confirm_internal_transfer now k u accs d = Inr (d', t) \<Longrightarrow> accounts_loaded d accs \<Longrightarrow> review_step d d'"
| refund: "confirm_refund_match now k u accs d = Inr (d', t) \<Longrightarrow> accounts_loaded d accs \<Longrightarrow> review_step d d'"

lemma review_step_ok: "review_step d d' \<Longrightarrow> review_ok d \<Longrightarrow> review_ok d'"
proof (induction rule: review_step.induct)
  case (duplicates d automatic now u with_key cs)
  then show ?case
    unfolding record_duplicate_candidates_def by (intro review_each review_record_duplicate)
qed (blast intro: review_correct review_accept review_reject review_merge review_delete review_link
    review_record_proposals review_record_memberships review_confirm_match review_reject_match
    review_confirm_duplicate review_unlink review_transfer review_refund)+

lemma review_steps_ok: "review_step\<^sup>*\<^sup>* d d' \<Longrightarrow> review_ok d \<Longrightarrow> review_ok d'"
  by (induction rule: rtranclp_induct) (auto intro: review_step_ok)

section \<open>A withdrawal and its arrival, for the witnesses\<close>

definition sample_savings :: financial_account where
  "sample_savings = sample_account\<lparr>fa_id := 11, fa_name_index := ''savings-index'', fa_type := SAVINGS\<rparr>"

definition sample_savings_asset :: ledger_account where
  "sample_savings_asset = sample_asset\<lparr>la_id := 22, la_code := ''1010'', la_name_index := ''savings-index'',
     la_financial_account := Some 11\<rparr>"

definition transfer_rule :: posting_rule_accounts where
  "transfer_rule = \<lparr>pra_account = sample_asset, pra_offset = None,
     pra_transfer_account = Some sample_savings_asset, pra_liability_account = None\<rparr>"

definition sample_arrival :: imported_observation where
  "sample_arrival = sample_row\<lparr>ob_id := 63, ob_row_index := 3, ob_direction := DIR_CREDIT,
     ob_financial_account_guess := Some 11, ob_occurred_at := Some 201\<rparr>"

definition sample_candidate :: reconciliation_match where
  "sample_candidate = \<lparr>rm_id = 70, rm_user = 1, rm_left = 60, rm_right = 63, rm_type = INTERNAL_TRANSFER,
     rm_score = 85, rm_features = [''same_amount''], rm_status = PROPOSED, rm_reviewed_by = None, rm_reviewed_at = None\<rparr>"

definition pair_db :: db where
  "pair_db = review_db\<lparr>accounts := [sample_account, sample_savings],
     ledger_accounts := [sample_asset, sample_expense, sample_savings_asset],
     observations := [sample_row, sample_arrival], matches := [sample_candidate]\<rparr>"

lemma pair_books: "books_ok pair_db"
proof -
  have "entries pair_db = []" "entries review_db = []"
    by (simp_all add: pair_db_def review_db_def sample_db_def empty_db_def)
  then show ?thesis
    using queue_books by (simp add: books_ok_def origins_ok_def ledger_ok_def) (simp add: pair_db_def)
qed

lemma pair_loaded: "accounts_loaded pair_db (Some transfer_rule)"
  by code_simp

lemma pair_ok: "review_ok pair_db"
proof -
  have obs: "observations pair_db = [sample_row, sample_arrival]" and ms: "matches pair_db = [sample_candidate]"
    and next_id: "next_id pair_db = 100"
    by (simp_all add: pair_db_def review_db_def sample_db_def)
  have "table_ok ob_id [sample_row, sample_arrival] 100" "table_ok rm_id [sample_candidate] 100"
    by (simp_all add: table_ok_def keys_def sample_arrival_def sample_row_def sample_candidate_def)
  moreover have "row_ok pair_db sample_row" "row_ok pair_db sample_arrival"
    by (simp_all add: row_ok_def sample_arrival_def sample_row_def observation_constraints_def)
  moreover have "match_ok pair_db sample_candidate"
    unfolding match_ok_def by (intro conjI; code_simp)
  ultimately show ?thesis using pair_books by (simp add: review_ok_def obs ms next_id)
qed

lemma pair_confirm: "succeeds (confirm_internal_transfer 500 70 1 (Some transfer_rule) pair_db)"
  by code_simp

section \<open>Property\<close>

text \<open>
  C24. The review data stays consistent under every sequence of services: whatever rows are corrected,
  accepted, rejected, merged, released by a deletion, linked, proposed, confirmed, dismissed or
  unlinked, and whichever of these fail, every row that names a transaction is accepted and owns it,
  merged rows and only they point at a winner, and the candidates are at most one per pair and type,
  over two different rows of their own user, with a score of at most 100; the books stay balanced.
\<close>

theorem review_data_stays_consistent:
  assumes "review_step\<^sup>*\<^sup>* d d'" "review_ok d"
  shows "books_ok d' \<and> distinct (map pair_of (matches d')) \<and>
    (\<forall>m \<in> set (matches d'). rm_left m \<noteq> rm_right m \<and> rm_score m \<le> 100 \<and>
       owns_row d' (rm_user m) (rm_left m) \<and> owns_row d' (rm_user m) (rm_right m)) \<and>
    (\<forall>ob \<in> set (observations d'). (ob_review_status ob = MERGED \<longleftrightarrow> ob_merged_into ob \<noteq> None) \<and>
       (\<forall>i. ob_canonical ob = Some i \<longrightarrow> ob_review_status ob \<in> set ACCEPTED_STATUSES \<and>
          (\<exists>t. get_tx d' i = Some t \<and> tx_user t = ob_user ob)))"
  using review_steps_ok [OF assms] by (auto simp: review_ok_def match_ok_def row_ok_def)

theorem review_data_stays_consistent_witness:
  "\<exists>d' t. confirm_internal_transfer 500 70 1 (Some transfer_rule) pair_db = Inr (d', t) \<and> books_ok d' \<and>
     distinct (map pair_of (matches d'))"
proof -
  obtain d' t where r: "confirm_internal_transfer 500 70 1 (Some transfer_rule) pair_db = Inr (d', t)"
    using succeedsE [OF pair_confirm] by (metis surj_pair)
  have "review_step\<^sup>*\<^sup>* pair_db d'" using review_step.transfer [OF r pair_loaded] by blast
  from review_data_stays_consistent [OF this pair_ok] show ?thesis using r by blast
qed

end
