(* ===== verification/Events.thy ===== *)
theory Events
  imports Review
begin

text \<open>
  What confirming a transfer or a refund amounts to, and what undoing it leaves behind
  (\<open>apps/reconciliation/transfers.py\<close>, \<open>refunds.py\<close> and \<open>services.py\<close> with
  \<open>apps/transactions/deletion.py\<close>).
\<close>

section \<open>Repeating a confirmation\<close>

lemma accept_again:
  assumes "get_observation d j = Some ob" "ob_user ob = user" "ob_canonical ob = Some i" "get_tx d i = Some t"
  shows "accept_observation now j user given ty accs confirmed d = Inr (d, t)"
proof -
  have "lock_observation d j user = Inr ob" using assms(1,2) by simp
  then show ?thesis by (simp add: accept_observation_def assms(3,4) del: lock_observation_Inr)
qed

lemma made_rows:
  assumes "transfer_made d k user m t"
  obtains l r where "get_observation d (rm_left m) = Some l" "get_observation d (rm_right m) = Some r"
    "ob_user l = user" "ob_user r = user" "ob_canonical l = Some (tx_id t)" "ob_canonical r = Some (tx_id t)"
    "ob_merged_into l = None" "ob_merged_into r = None"
  using assms unfolding transfer_made_def by blast

lemma confirm_transfer_again:
  assumes "transfer_made d k user m t"
  shows "confirm_internal_transfer now k user accs d = Inr (d, t)"
proof (rule made_rows [OF assms])
  fix l r
  assume rows: "get_observation d (rm_left m) = Some l" "get_observation d (rm_right m) = Some r"
    "ob_user l = user" "ob_user r = user" "ob_canonical l = Some (tx_id t)"
  have m: "lock_match d k user = Inr m" "lock_observation d (rm_left m) user = Inr l"
    "lock_observation d (rm_right m) user = Inr r"
    using assms rows by (simp_all add: transfer_made_def)
  have "existing_event d l = Inr t" using assms rows by (simp add: existing_event_def transfer_made_def)
  then show ?thesis
    using assms by (simp add: confirm_internal_transfer_def m transfer_made_def
        del: lock_match_Inr lock_observation_Inr)
qed

text \<open>Saving under an origin that has a row already returns that row, whatever its status.\<close>

lemma make_once_converges:
  assumes "make_once t0 accs d = Inr (d', t', created)" "books_ok d" "get_tx d i = Some v"
    and "tx_user v = tx_user t0" "tx_source_key v = tx_source_key t0" "tx_source_key t0 \<noteq> []"
  shows "d' = d \<and> t' = v \<and> \<not> created"
proof -
  have "v \<in> set (transactions d)" using assms(3) find_row_SomeD by (fastforce simp: get_tx_def)
  then have "same_origin d t0 = Some v"
    using same_origin_of_row [of d v t0] assms by (simp add: books_ok_def origin_def)
  then have "save_once t0 d = Inr (d, v, False)" using assms(6) by (simp add: save_once_Inr)
  then show ?thesis using assms(1) by (simp add: make_once_def confirm_and_post_def)
qed

section \<open>Undoing a transfer\<close>

lemma stored_pair:
  assumes "review_ok d" "get_match d k = Some m"
  shows "same_pair d (ordered_pair (rm_left m) (rm_right m)) (rm_type m) = Some m"
proof -
  have m: "m \<in> set (matches d)" using assms(2) find_row_SomeD by (fastforce simp: get_match_def)
  then have "ordered_pair (rm_left m) (rm_right m) = (rm_left m, rm_right m)"
    using assms(1) by (auto simp: review_ok_def match_ok_def ordered_pair_def)
  moreover have "x = m" if "x \<in> set (matches d)" "pair_of x = pair_of m" for x
    using assms(1) m that by (auto simp: review_ok_def distinct_map dest: inj_onD)
  moreover obtain x where "same_pair d (rm_left m, rm_right m) (rm_type m) = Some x"
    using m by (cases "same_pair d (rm_left m, rm_right m) (rm_type m)") (auto simp: same_pair_def find_None_iff)
  moreover from this have "x \<in> set (matches d) \<and> pair_of x = pair_of m"
    by (auto simp: same_pair_def find_Some_iff pair_of_def)
  ultimately show ?thesis by simp
qed

text \<open>The rows of a match, listed: each is the stored one.\<close>

lemma match_rows_member:
  assumes "review_ok d" "ob \<in> set (match_rows d user m)"
  shows "(ob_id ob = rm_left m \<or> ob_id ob = rm_right m) \<and> get_observation d (ob_id ob) = Some ob"
  using assms table_ok_find [of ob_id "observations d" "next_id d" ob]
  by (auto simp: match_rows_def review_ok_def get_observation_def)

lemma match_rows_complete:
  assumes "get_observation d k = Some ob" "ob_user ob = user" "k = rm_left m \<or> k = rm_right m"
  shows "ob \<in> set (match_rows d user m)"
  using assms find_row_SomeD [of ob_id "observations d" k ob] by (auto simp: match_rows_def get_observation_def)

lemma remdups_constant: "set xs = {x} \<Longrightarrow> remdups xs = [x]"
proof -
  assume s: "set xs = {x}"
  have "distinct (remdups xs)" "set (remdups xs) = {x}" using s by simp_all
  then have "length (remdups xs) = 1" by (metis card.empty card.insert distinct_card empty_iff finite.emptyI One_nat_def)
  then obtain y where "remdups xs = [y]" by (metis One_nat_def length_0_conv length_Suc_conv)
  then show ?thesis using \<open>set (remdups xs) = {x}\<close> by simp
qed

lemma made_transaction:
  assumes "review_ok d" "transfer_made d k user m t"
  shows "match_transaction m (match_rows d user m) = Inr (Some (tx_id t))"
proof -
  let ?rows = "match_rows d user m"
  have each: "ob_canonical ob = Some (tx_id t)" if ob: "ob \<in> set ?rows" for ob
  proof -
    obtain x where "get_observation d (ob_id ob) = Some x" "ob_canonical x = Some (tx_id t)"
      using match_rows_member [OF assms(1) ob] assms(2) unfolding transfer_made_def by blast
    then show ?thesis using match_rows_member [OF assms(1) ob] by simp
  qed
  obtain l where "get_observation d (rm_left m) = Some l" "ob_user l = user"
    using assms(2) unfolding transfer_made_def by blast
  then have "l \<in> set ?rows" by (rule match_rows_complete) simp
  then have "set (List.map_filter ob_canonical ?rows) = {tx_id t}"
    using each by (force simp: map_filter_def)
  then have "remdups (List.map_filter ob_canonical ?rows) = [tx_id t]" by (rule remdups_constant)
  then show ?thesis using assms(2) by (simp add: match_transaction_def transfer_made_def)
qed

text \<open>Deleting the transaction frees both rows and leaves the match as it was.\<close>

lemma delete_made:
  assumes "transfer_made d k user m t" "delete_transaction (tx_id t) user reason True d = Inr (d', res)"
  shows "get_match d' k = Some m \<and>
    get_tx d' (tx_id t) = Some (t\<lparr>tx_status := VOIDED, tx_reviewed_by := Some user\<rparr>) \<and>
    (\<forall>j \<in> {rm_left m, rm_right m}. \<exists>ob. get_observation d' j = Some (release_observation ob) \<and> ob_user ob = user)"
proof -
  have "get_tx d (tx_id t) = Some t" using assms(1) by (simp add: transfer_made_def)
  note del = delete_row [OF assms(2) this]
  have "\<exists>ob. get_observation d' j = Some (release_observation ob) \<and> ob_user ob = user"
    if j: "j \<in> {rm_left m, rm_right m}" for j
  proof -
    obtain ob where ob: "get_observation d j = Some ob" "ob_user ob = user" "ob_canonical ob = Some (tx_id t)"
      using assms(1) j unfolding transfer_made_def by blast
    then have "fed_by (tx_id t) user ob" by (simp add: fed_by_def)
    from released_row [OF conjunct2 [OF del] ob(1) this] ob(2) show ?thesis by blast
  qed
  moreover have "get_match d' k = Some m"
    using delete_frame [OF assms(2)] assms(1) by (simp add: get_match_def transfer_made_def)
  ultimately show ?thesis using del by blast
qed

section \<open>Unlinking a transfer and linking it again\<close>

text \<open>Unlinking deletes the transaction; the match stays in the table, rejected.\<close>

lemma unlink_made:
  assumes "transfer_made d k user m t" "review_ok d" "unlink_match now k user d = Inr (d', m')"
  shows "m' = decided now MATCH_REJECTED (Some user) m \<and> get_match d' k = Some m' \<and>
    get_tx d' (tx_id t) = Some (t\<lparr>tx_status := VOIDED, tx_reviewed_by := Some user\<rparr>)"
proof (rule unlink_Inr [OF assms(3)])
  fix m0 d1
  assume m0: "get_match d k = Some m0"
    and how: "match_transaction m0 (match_rows d user m0) = Inr None \<and> d1 = d \<or>
     (\<exists>i res. match_transaction m0 (match_rows d user m0) = Inr (Some i) \<and>
        delete_transaction i user ''reconciliation match unlinked'' True d = Inr (d1, res))"
    and dec: "decide now MATCH_REJECTED user MATCH_UNLINKED_EVENT
        [(''match_type'', MStr (match_value (rm_type m0))), (''match_id'', MId (rm_id m0))] m0
        (unmerge_rows m0 (match_rows d user m0) d1) = Inr (d', m')"
  have m: "m0 = m" using m0 assms(1) by (simp add: transfer_made_def)
  obtain res where del: "delete_transaction (tx_id t) user ''reconciliation match unlinked'' True d = Inr (d1, res)"
    using how made_transaction [OF assms(2,1)] by (auto simp: m)
  note after = delete_made [OF assms(1) del]
  let ?u = "unmerge_rows m (match_rows d user m) d1"
  have u: "get_match ?u = get_match d1" "get_tx ?u = get_tx d1"
    by (simp_all add: unmerge_rows_def Let_def get_match_def get_tx_def fun_eq_iff)
  have id: "rm_id m = k" using after by (auto dest: get_match_id)
  have d': "d' = (put_match m' ?u)\<lparr>audits := audits d'\<rparr>" "m' = decided now MATCH_REJECTED (Some user) m"
    using dec by (auto simp: decide_Inr m)
  have "get_match d' k = Some m'"
    using get_put_match [of ?u m' m k] after u id d'(2)
    by (subst d'(1)) simp
  moreover have "get_tx d' = get_tx ?u" by (subst d'(1)) simp
  ultimately show ?thesis using d'(2) u after by simp
qed

text \<open>Linking by hand reopens a rejected candidate.\<close>

lemma reopened:
  assumes "link_observations user l r (Some ty) with_key d = Inr (d', m')"
    and "same_pair d (ordered_pair l r) ty = Some m" "rm_status m = MATCH_REJECTED"
  shows "\<exists>a. d' = (put_match m' d)\<lparr>audits := a\<rparr> \<and>
    (rm_id m' = rm_id m \<and> rm_status m' = PROPOSED \<and> rm_left m' = rm_left m \<and> rm_right m' = rm_right m)"
proof -
  let ?m = "m\<lparr>rm_status := PROPOSED, rm_score := MANUAL_LINK_SCORE, rm_reviewed_by := None,
      rm_reviewed_at := None, rm_features := stored_features with_key [''manual_link'']\<rparr>"
  have "\<not> rm_status m \<noteq> MATCH_REJECTED" using assms(3) by simp
  note r = assms(1) [unfolded link_observations_def option.case assms(2) Let_def if_not_P [OF this] rbind_Inr
      record_audit_event_Inr sum.inject prod.inject]
  from r obtain a where "d' = (put_match ?m d)\<lparr>audits := a\<rparr>" and m': "m' = ?m" by blast
  then have "d' = (put_match m' d)\<lparr>audits := a\<rparr>" by (simp only:)
  moreover have "rm_id m' = rm_id m \<and> rm_status m' = PROPOSED \<and> rm_left m' = rm_left m \<and> rm_right m' = rm_right m"
    by (simp add: m')
  ultimately show ?thesis by blast
qed

section \<open>A refund\<close>

text \<open>What the dismissal does to the candidates: the competing ones and only they are rejected.\<close>

lemma dismissed:
  assumes "dismiss_competing_candidates now user m refund d = Inr (d', n)" "review_ok d"
  shows "(\<exists>x a. d' = d\<lparr>matches := x, audits := a\<rparr>) \<and>
    (\<forall>j x. get_match d j = Some x \<longrightarrow>
       get_match d' j = Some (if competing user m refund x then decided now MATCH_REJECTED (Some user) x else x))"
proof -
  let ?ms = "filter (competing user m refund) (matches d)"
  have "rfold (dismiss now user m) ?ms d = Inr d'"
    using assms(1) by (auto simp: dismiss_competing_candidates_def Let_def)
  note f = dismiss_fold [OF this listed_matches [OF assms(2), THEN conjunct1] listed_matches [OF assms(2), THEN conjunct2]]
  have "get_match d' j = Some (if competing user m refund x then decided now MATCH_REJECTED (Some user) x else x)"
    if x: "get_match d j = Some x" for j x
  proof -
    have "x \<in> set (matches d)" "rm_id x = j" using x find_row_SomeD by (fastforce simp: get_match_def)+
    moreover have "y = x" if y: "y \<in> set ?ms" "rm_id y = j" for y
      using listed_matches [OF assms(2)] y x by fastforce
    ultimately have "j \<in> set (map rm_id ?ms) \<longleftrightarrow> competing user m refund x" by (auto simp: image_iff)
    moreover have "get_match d' j = (if j \<in> set (map rm_id ?ms)
        then map_option (decided now MATCH_REJECTED (Some user)) (get_match d j) else get_match d j)"
      using f by blast
    ultimately show ?thesis using x by simp
  qed
  then show ?thesis using f by blast
qed

section \<open>Statements\<close>

text \<open>All active memberships of a purchase are the same pair.\<close>

definition one_statement :: "id \<Rightarrow> db \<Rightarrow> bool" where
  "one_statement x d \<longleftrightarrow>
     (\<forall>m \<in> set (matches d). \<forall>m' \<in> set (matches d).
        active_membership x m \<longrightarrow> active_membership x m' \<longrightarrow> pair_of m = pair_of m')"

lemma joined_pair:
  assumes "joins l r m" "show_nat (rm_left m) \<le> show_nat (rm_right m)"
  shows "(rm_left m, rm_right m) = ordered_pair l r"
proof -
  have inj: "x = y" if "show_nat x = show_nat y" for x y
    using that by (metis digits_val_show_nat option.inject)
  show ?thesis using assms unfolding joins_def ordered_pair_def by (elim disjE conjE) (auto dest: inj)
qed

text \<open>Recording a membership: every active one was there or is of the recorded pair.\<close>

lemma recorded_memberships:
  assumes "record_match user l r STATEMENT_MEMBERSHIP score features with_key d = Inr (d', m)" "review_ok d"
    and "x \<in> set (matches d')" "active_membership k x"
  shows "(\<exists>y \<in> set (matches d). pair_of y = pair_of x \<and> active_membership k y) \<or>
    pair_of x = (fst (ordered_pair l r), snd (ordered_pair l r), STATEMENT_MEMBERSHIP)"
  using assms(1)
proof (cases rule: record_match_Inr)
  case (2 m0)
  have m0: "get_match d (rm_id m0) = Some m0" using same_pair_Some [OF 2(1) assms(2)] by simp
  have "x \<in> set (matches d) \<or> x = m" using assms(3) 2(4) by (auto simp: put_match_def put_row_def)
  moreover have "m0 \<in> set (matches d)" using m0 find_row_SomeD by (fastforce simp: get_match_def)
  moreover have "pair_of m0 = pair_of m" "active_membership k m0 = active_membership k m"
    using 2(3) by (simp_all add: pair_of_def active_membership_def touches_def)
  ultimately show ?thesis using assms(4) by auto
next
  case (3 d1 a)
  then have "set (matches d') \<subseteq> insert m (set (matches d))" "pair_of m = (fst (ordered_pair l r), snd (ordered_pair l r), STATEMENT_MEMBERSHIP)"
    by (auto simp: insert_match_def Let_def new_match_def pair_of_def)
  then show ?thesis using assms(3,4) by auto
qed (use assms(3,4) in auto)

lemma record_membership_one:
  assumes "record_membership user with_key p s = Inr s'" "review_ok (fst s)"
  shows "review_ok (fst s') \<and> length (snd s') = Suc (length (snd s)) \<and>
    (\<forall>k. k \<noteq> mp_left p \<longrightarrow> k = mp_right p \<or> one_statement k (fst s) \<longrightarrow> one_statement k (fst s'))"
proof -
  let ?d = "fst s" and ?op = "ordered_pair (mp_left p) (mp_right p)"
  note r = assms(1) [unfolded record_membership_def raise_if_Inr record_proposal_def rbind_Inr]
  have free: "joins (mp_left p) (mp_right p) m" if "m \<in> set (matches ?d)" "active_membership (mp_right p) m" for m
    using r that by (auto simp: list_ex_iff)
  have ty: "mp_type p = STATEMENT_MEMBERSHIP" using r by simp
  obtain d1 m where rec: "record_match user (mp_left p) (mp_right p) STATEMENT_MEMBERSHIP (mp_score p) (mp_features p) with_key ?d
      = Inr (d1, m)" and s': "s' = (d1, snd s @ [m])"
    using r ty by auto
  have ok: "review_ok d1" by (rule review_record_match [OF assms(2) rec])
  have "one_statement k d1" if k: "k \<noteq> mp_left p" "k = mp_right p \<or> one_statement k ?d" for k
  proof (cases "k = mp_right p")
    case True
    have "pair_of x = (fst ?op, snd ?op, STATEMENT_MEMBERSHIP)" if x: "x \<in> set (matches d1)" "active_membership k x" for x
    proof -
      have "pair_of y = (fst ?op, snd ?op, STATEMENT_MEMBERSHIP)" if y: "y \<in> set (matches ?d)" "active_membership k y" for y
      proof -
        have "show_nat (rm_left y) \<le> show_nat (rm_right y)" using assms(2) y(1) by (simp add: review_ok_def match_ok_def)
        with free [of y] y True have "(rm_left y, rm_right y) = ?op" by (blast intro: joined_pair)
        then show ?thesis using y(2) by (simp add: pair_of_def active_membership_def) (metis fst_conv snd_conv)
      qed
      then show ?thesis using recorded_memberships [OF rec assms(2) x] by metis
    qed
    then show ?thesis by (simp add: one_statement_def)
  next
    case False
    then have one: "one_statement k ?d" using k by simp
    have "\<exists>y \<in> set (matches ?d). pair_of y = pair_of x \<and> active_membership k y"
      if x: "x \<in> set (matches d1)" "active_membership k x" for x
    proof (rule ccontr)
      assume "\<not> ?thesis"
      then have "pair_of x = (fst ?op, snd ?op, STATEMENT_MEMBERSHIP)" using recorded_memberships [OF rec assms(2) x] by blast
      then have "rm_left x = fst ?op \<and> rm_right x = snd ?op" by (simp add: pair_of_def)
      then show False using x(2) k(1) False by (auto simp: active_membership_def touches_def ordered_pair_def split: if_splits)
    qed
    then show ?thesis using one unfolding one_statement_def by metis
  qed
  then show ?thesis using ok by (simp add: s')
qed

lemma memberships_fold:
  assumes "rfold (record_membership user with_key) ps s = Inr s'" "review_ok (fst s)"
    and "set (map mp_left ps) \<inter> set (map mp_right ps) = {}"
  shows "review_ok (fst s') \<and> length (snd s') = length (snd s) + length ps \<and>
    (\<forall>k. k \<notin> set (map mp_left ps) \<longrightarrow> k \<in> set (map mp_right ps) \<or> one_statement k (fst s) \<longrightarrow> one_statement k (fst s'))"
  using assms
proof (induction ps arbitrary: s)
  case (Cons p ps)
  obtain s1 where s1: "record_membership user with_key p s = Inr s1" "rfold (record_membership user with_key) ps s1 = Inr s'"
    using Cons.prems(1) by auto
  note step = record_membership_one [OF s1(1) Cons.prems(2)]
  have "set (map mp_left ps) \<inter> set (map mp_right ps) = {}" using Cons.prems(3) by auto
  from Cons.IH [OF s1(2) conjunct1 [OF step] this] step show ?case by auto
qed simp

section \<open>Chains of services, for the witnesses\<close>

definition then_confirm :: "db \<times> 'a \<Rightarrow> (db \<times> canonical_transaction) result" where
  "then_confirm s = confirm_internal_transfer 500 70 1 (Some transfer_rule) (fst s)"

definition then_undo :: "db \<times> 'a \<Rightarrow> (db \<times> reconciliation_match) result" where
  "then_undo s = unlink_match 600 70 1 (fst s)"

definition then_link :: "db \<times> 'a \<Rightarrow> (db \<times> reconciliation_match) result" where
  "then_link s = link_observations 1 60 63 (Some INTERNAL_TRANSFER) True (fst s)"

definition then_loaded :: "db \<times> 'a \<Rightarrow> (db \<times> 'a) result" where
  "then_loaded s = raise_if (\<not> accounts_loaded (fst s) (Some transfer_rule)) ValueError (Inr s)"

lemma pair_delete: "succeeds (rbind (then_confirm (pair_db, ())) then_delete)"
  by code_simp

lemma pair_reconfirm:
  "succeeds (rbind (rbind (rbind (rbind (then_confirm (pair_db, ())) then_undo) then_link) then_loaded) then_confirm)"
  by code_simp

lemma pair_match: "get_match pair_db 70 = Some sample_candidate" "rm_status sample_candidate = PROPOSED"
  "rm_left sample_candidate = 60" "rm_right sample_candidate = 63" "rm_type sample_candidate = INTERNAL_TRANSFER"
  by (simp_all add: pair_db_def sample_candidate_def get_match_def)

definition sample_refund :: imported_observation where
  "sample_refund = sample_row\<lparr>ob_id := 64, ob_row_index := 4, ob_direction := DIR_CREDIT,
     ob_occurred_at := Some 210, ob_amount := Some \<lparr>amount_minor = 20000, currency = ''KRW''\<rparr>\<rparr>"

definition refund_candidate :: "id \<Rightarrow> id \<Rightarrow> reconciliation_match" where
  "refund_candidate i purchase = \<lparr>rm_id = i, rm_user = 1, rm_left = purchase, rm_right = 64, rm_type = REFUND_MATCH,
     rm_score = 80, rm_features = [''exact_amount''], rm_status = PROPOSED, rm_reviewed_by = None, rm_reviewed_at = None\<rparr>"

definition refund_db :: db where
  "refund_db = review_db\<lparr>observations := sample_rows @ [sample_refund],
     matches := [refund_candidate 71 60, refund_candidate 72 61]\<rparr>"

lemma refund_confirm: "succeeds (confirm_refund_match 500 71 1 (Some sample_rule) refund_db)"
  by code_simp

lemma refund_loaded: "accounts_loaded refund_db (Some sample_rule)"
  by code_simp

lemma refund_fresh: "\<forall>x \<in> set (transactions refund_db). tx_source_key x \<noteq> event_key REFUND_SOURCE 71"
  by code_simp

lemma refund_matches: "get_match refund_db 71 = Some (refund_candidate 71 60)"
  "get_match refund_db 72 = Some (refund_candidate 72 61)" "rm_status (refund_candidate i j) = PROPOSED"
  by (simp_all add: refund_db_def refund_candidate_def get_match_def)

lemma refund_ok: "review_ok refund_db"
proof -
  have fields: "observations refund_db = sample_rows @ [sample_refund]"
      "matches refund_db = [refund_candidate 71 60, refund_candidate 72 61]" "next_id refund_db = 100"
    by (simp_all add: refund_db_def review_db_def sample_db_def)
  have "entries refund_db = []" "entries review_db = []"
    by (simp_all add: refund_db_def review_db_def sample_db_def empty_db_def)
  then have "books_ok refund_db"
    using queue_books by (simp add: books_ok_def origins_ok_def ledger_ok_def) (simp add: refund_db_def)
  moreover have "table_ok ob_id (sample_rows @ [sample_refund]) 100"
    "table_ok rm_id [refund_candidate 71 60, refund_candidate 72 61] 100"
    by (simp_all add: table_ok_def keys_def sample_rows_def sample_refund_def sample_row_def refund_candidate_def)
  moreover have "\<forall>ob \<in> set (sample_rows @ [sample_refund]). row_ok refund_db ob"
    by (simp add: sample_rows_def row_ok_def sample_refund_def sample_row_def observation_constraints_def)
  moreover have "match_ok refund_db (refund_candidate 71 60)" "match_ok refund_db (refund_candidate 72 61)"
    unfolding match_ok_def by (intro conjI; code_simp)+
  moreover have "distinct (map pair_of [refund_candidate 71 60, refund_candidate 72 61])"
    by (simp add: pair_of_def refund_candidate_def)
  ultimately show ?thesis by (simp add: review_ok_def fields)
qed

definition membership :: "id \<Rightarrow> id \<Rightarrow> match_proposal" where
  "membership statement purchase = \<lparr>mp_left = statement, mp_right = purchase, mp_type = STATEMENT_MEMBERSHIP,
     mp_score = 100, mp_features = [''same_card'']\<rparr>"

definition then_member :: "db \<times> 'a \<Rightarrow> (db \<times> reconciliation_match list) result" where
  "then_member s = record_statement_memberships 1 True [membership 60 61] (fst s)"

definition then_second :: "db \<times> 'a \<Rightarrow> (db \<times> reconciliation_match) result" where
  "then_second s = rbind (link_observations 1 64 61 (Some STATEMENT_MEMBERSHIP) True (fst s)) (\<lambda>(d, m).
     raise_if (length (filter (active_membership 61) (matches d)) \<noteq> 2) ValueError (Inr (d, m)))"

lemma refund_members: "succeeds (record_statement_memberships 1 True [membership 60 61, membership 60 62] refund_db)"
  by code_simp

text \<open>Linking by hand does not look at other statements: a purchase then has two.\<close>

lemma linking_adds_a_second_statement: "succeeds (rbind (then_member (refund_db, ())) then_second)"
  by code_simp

section \<open>Properties\<close>

text \<open>
  C25. Confirming a transfer makes one event of two rows: the match is confirmed, both rows are accepted
  on the same transaction of the user, the books stay balanced, and confirming the match or accepting
  either row again returns that transaction and changes nothing. Unless an earlier attempt left one
  under the match, the transaction is a new internal transfer of the outgoing row's amount from the
  outgoing row's account, and it is posted when ledger accounts are given.
\<close>

theorem confirmed_transfer_is_one_event:
  assumes "confirm_internal_transfer now k user accs d = Inr (d', t)"
    and "get_match d k = Some m" "rm_status m = PROPOSED" "books_ok d" "accounts_loaded d accs"
  shows "transfer_made d' k user (decided now MATCH_CONFIRMED (Some user) m) t \<and> books_ok d' \<and>
    confirm_internal_transfer now' k user accs' d' = Inr (d', t) \<and>
    (\<forall>j \<in> {rm_left m, rm_right m}. accept_observation now' j user given ty accs' confirmed d' = Inr (d', t)) \<and>
    ((\<forall>x \<in> set (transactions d). tx_source_key x \<noteq> event_key TRANSFER_SOURCE k) \<longrightarrow>
      get_tx d (tx_id t) = None \<and> tx_type t = T_INTERNAL_TRANSFER \<and> (accs \<noteq> None \<longrightarrow> is_posted d' (tx_id t)) \<and>
      (\<exists>outgoing \<in> set (observations d). ob_direction outgoing = DIR_DEBIT \<and>
         (ob_id outgoing = rm_left m \<or> ob_id outgoing = rm_right m) \<and> ob_amount outgoing = Some (tx_amount t) \<and>
         ob_financial_account_guess outgoing = Some (tx_financial_account t)))"
proof (rule confirm_transfer_made [OF assms])
  fix l r outgoing incoming source amount dates d1 created
  let ?m = "decided now MATCH_CONFIRMED (Some user) m" and ?t0 = "transfer_draft d user amount dates source k"
  assume made: "transfer_made d' k user ?m t" and good: "good_step d d'"
    and lr: "get_observation d (rm_left m) = Some l" "get_observation d (rm_right m) = Some r"
    and side: "outgoing = l \<and> incoming = r \<or> outgoing = r \<and> incoming = l" "ob_direction outgoing = DIR_DEBIT"
    and am: "ob_amount outgoing = Some amount" and src: "transfer_accounts d user outgoing incoming = Inr source"
    and mk: "make_once ?t0 accs d = Inr (d1, t, created)" and d1: "transactions d' = transactions d1" "entries d' = entries d1"
  have again: "accept_observation now' j user given ty accs' confirmed d' = Inr (d', t)"
    if j: "j \<in> {rm_left m, rm_right m}" for j
  proof -
    obtain ob where "get_observation d' j = Some ob" "ob_user ob = user" "ob_canonical ob = Some (tx_id t)"
      using made j unfolding transfer_made_def by (auto simp del: accepted_row_fields)
    moreover have "get_tx d' (tx_id t) = Some t" using made by (simp add: transfer_made_def)
    ultimately show ?thesis by (rule accept_again)
  qed
  have row: "outgoing \<in> set (observations d)" "ob_id outgoing = rm_left m \<or> ob_id outgoing = rm_right m"
    using lr side find_row_SomeD [of ob_id "observations d"] unfolding get_observation_def by blast+
  have acc: "ob_financial_account_guess outgoing = Some (fa_id source)"
    using src by (auto simp: transfer_accounts_def guessed_account_def get_account_def dest!: find_row_SomeD
        split: option.splits bind_splits)
  have new: "get_tx d (tx_id t) = None \<and> tx_type t = T_INTERNAL_TRANSFER \<and> (accs \<noteq> None \<longrightarrow> is_posted d' (tx_id t)) \<and>
      tx_amount t = amount \<and> tx_financial_account t = fa_id source"
    if free: "\<forall>x \<in> set (transactions d). tx_source_key x \<noteq> event_key TRANSFER_SOURCE k"
  proof -
    have none: "same_origin d ?t0 = None" using free by (auto simp: same_origin_def find_None_iff)
    have "is_posted d' = is_posted d1" using d1 by (simp add: is_posted_def fun_eq_iff)
    then show ?thesis
      using make_once_effect [OF mk assms(4) transfer_draft_fields(1) _ assms(5)] none
      by (cases created) auto
  qed
  show ?thesis
    using made good again confirm_transfer_again [OF made] new row acc side(2) am by (auto simp: good_step_def)
qed

theorem confirmed_transfer_witness:
  "\<exists>d' t. confirm_internal_transfer 500 70 1 (Some transfer_rule) pair_db = Inr (d', t) \<and>
     confirm_internal_transfer 501 70 1 None d' = Inr (d', t) \<and> books_ok d'"
proof -
  obtain d' t where r: "confirm_internal_transfer 500 70 1 (Some transfer_rule) pair_db = Inr (d', t)"
    using succeedsE [OF pair_confirm] by (metis surj_pair)
  show ?thesis
    using confirmed_transfer_is_one_event [OF r pair_match(1,2) pair_books pair_loaded, of 501 None] r by blast
qed

text \<open>
  Deleting a transfer strands its match: once the transaction of a confirmed transfer is deleted,
  both rows are back in the queue without a transaction but the match stays confirmed, and nothing can
  bring it back: confirming, unlinking and rejecting it all fail with a conflict, and linking the two
  rows by hand returns it unchanged.
\<close>

theorem deleting_a_transfer_strands_its_match:
  assumes "confirm_internal_transfer now k user accs d = Inr (d1, t)"
    and "get_match d k = Some m" "rm_status m = PROPOSED" "review_ok d" "accounts_loaded d accs"
    and "delete_transaction (tx_id t) user reason True d1 = Inr (d2, res)"
  shows "(\<forall>j \<in> {rm_left m, rm_right m}. \<exists>ob. get_observation d2 j = Some ob \<and> ob_canonical ob = None \<and>
      ob_review_status ob = UNREVIEWED) \<and>
    confirm_internal_transfer now' k user accs' d2 = Inl ConflictError \<and>
    unlink_match now' k user d2 = Inl ConflictError \<and> reject_match now' k user d2 = Inl ConflictError \<and>
    (\<exists>m'. get_match d2 k = Some m' \<and> rm_status m' = MATCH_CONFIRMED \<and>
      link_observations user (rm_left m) (rm_right m) (Some INTERNAL_TRANSFER) with_key d2 = Inr (d2, m'))"
proof -
  let ?m = "decided now MATCH_CONFIRMED (Some user) m"
  have books: "books_ok d" using assms(4) by (simp add: review_ok_def)
  have made: "transfer_made d1 k user ?m t" by (rule confirm_transfer_made [OF assms(1-3) books assms(5)])
  note after = delete_made [OF made assms(6)]
  have ok: "review_ok d2" by (rule review_delete [OF review_transfer [OF assms(4,1,5)] assms(6)])
  have m: "lock_match d2 k user = Inr ?m" "rm_type m = INTERNAL_TRANSFER"
    using after made by (simp_all add: transfer_made_def)
  obtain l r where rows: "get_observation d2 (rm_left m) = Some (release_observation l)" "ob_user l = user"
      "get_observation d2 (rm_right m) = Some (release_observation r)" "ob_user r = user"
    using after by auto
  have locks: "lock_observation d2 (rm_left m) user = Inr (release_observation l)"
      "lock_observation d2 (rm_right m) user = Inr (release_observation r)"
    using rows by (simp_all add: release_observation_def)
  have free: "ob_canonical (release_observation ob) = None" "ob_review_status (release_observation ob) = UNREVIEWED" for ob
    by (simp_all add: release_observation_def)
  have "ob_canonical ob = None" if ob: "ob \<in> set (match_rows d2 user ?m)" for ob
    using match_rows_member [OF ok ob] rows free by auto
  then have "List.map_filter ob_canonical (match_rows d2 user ?m) = []" by (auto simp: map_filter_def filter_empty_conv)
  then have made_none: "match_transaction ?m (match_rows d2 user ?m) = Inl ConflictError"
    using m(2) by (simp add: match_transaction_def)
  have "same_pair d2 (ordered_pair (rm_left m) (rm_right m)) INTERNAL_TRANSFER = Some ?m"
    using stored_pair [OF ok, of k ?m] after m(2) by simp
  then have "link_observations user (rm_left m) (rm_right m) (Some INTERNAL_TRANSFER) with_key d2 = Inr (d2, ?m)"
    by (simp add: link_observations_def)
  moreover have "confirm_internal_transfer now' k user accs' d2 = Inl ConflictError"
    by (simp add: confirm_internal_transfer_def m locks existing_event_def free del: lock_match_Inr lock_observation_Inr)
  moreover have "unlink_match now' k user d2 = Inl ConflictError"
    by (simp add: unlink_match_def m made_none del: lock_match_Inr)
  moreover have "reject_match now' k user d2 = Inl ConflictError"
    by (simp add: reject_match_def m del: lock_match_Inr)
  ultimately show ?thesis using after rows free by auto
qed

theorem deleting_a_transfer_witness:
  "\<exists>d1 t d2 res. confirm_internal_transfer 500 70 1 (Some transfer_rule) pair_db = Inr (d1, t) \<and>
     delete_transaction (tx_id t) 1 ''mistake'' True d1 = Inr (d2, res) \<and> unlink_match 600 70 1 d2 = Inl ConflictError"
proof -
  obtain d1 t d2 res where r: "confirm_internal_transfer 500 70 1 (Some transfer_rule) pair_db = Inr (d1, t)"
    "delete_transaction (tx_id t) 1 ''mistake'' True d1 = Inr (d2, res)"
    using succeedsE [OF pair_delete] by (auto simp: then_confirm_def then_delete_def)
  show ?thesis
    using deleting_a_transfer_strands_its_match [OF r(1) pair_match(1,2) pair_ok pair_loaded r(2), of 600] r by blast
qed

text \<open>
  C27. A transfer that was unlinked and linked again comes back void: \<open>link_observations\<close> reopens the
  candidate the user once unlinked, and confirming it succeeds, but under the candidate's key the
  voided transaction of the first confirmation is found, so both rows are accepted on a void
  transaction, and nothing is created or posted although ledger accounts are given.
\<close>

theorem relinked_transfer_comes_back_void:
  assumes "confirm_internal_transfer now k user accs d = Inr (d1, t)"
    and "get_match d k = Some m" "rm_status m = PROPOSED" "review_ok d" "accounts_loaded d accs"
    and "unlink_match now2 k user d1 = Inr (d2, m2)"
    and "link_observations user (rm_left m) (rm_right m) (Some INTERNAL_TRANSFER) with_key d2 = Inr (d3, m3)"
    and "confirm_internal_transfer now4 k user accs' d3 = Inr (d4, t4)" "accounts_loaded d3 accs'"
  shows "rm_status m3 = PROPOSED \<and> tx_id t4 = tx_id t \<and> tx_status t4 = VOIDED \<and>
    transactions d4 = transactions d3 \<and> entries d4 = entries d3 \<and>
    (\<forall>j \<in> {rm_left m, rm_right m}. \<exists>ob. get_observation d4 j = Some ob \<and> ob_canonical ob = Some (tx_id t) \<and>
       feeds_reports ob)"
proof -
  let ?v = "t\<lparr>tx_status := VOIDED, tx_reviewed_by := Some user\<rparr>"
  have books: "books_ok d" using assms(4) by (simp add: review_ok_def)
  have made: "transfer_made d1 k user (decided now MATCH_CONFIRMED (Some user) m) t"
    by (rule confirm_transfer_made [OF assms(1-3) books assms(5)])
  have ok1: "review_ok d1" by (rule review_transfer [OF assms(4,1,5)])
  have ok2: "review_ok d2" by (rule review_unlink [OF ok1 assms(6)])
  have ok3: "review_ok d3" by (rule review_link [OF ok2 assms(7)])
  have ty: "rm_type m = INTERNAL_TRANSFER" using made by (simp add: transfer_made_def)
  note un = unlink_made [OF made ok1 assms(6)]
  have id2: "rm_id m2 = k" using un by (auto dest: get_match_id)
  have sp: "same_pair d2 (ordered_pair (rm_left m) (rm_right m)) INTERNAL_TRANSFER = Some m2"
    using stored_pair [OF ok2, of k m2] un ty by simp
  have "rm_status m2 = MATCH_REJECTED" using un by simp
  from reopened [OF assms(7) sp this] obtain a where d3: "d3 = (put_match m3 d2)\<lparr>audits := a\<rparr>"
    and "rm_id m3 = rm_id m2 \<and> rm_status m3 = PROPOSED \<and> rm_left m3 = rm_left m2 \<and> rm_right m3 = rm_right m2" by blast
  then have m3: "rm_id m3 = k" "rm_status m3 = PROPOSED" "rm_left m3 = rm_left m" "rm_right m3 = rm_right m"
    using un id2 by simp_all
  have m3': "get_match d3 k = Some m3" using get_put_match [of d2 m3 m2 k] un m3(1) by (simp add: d3)
  have v: "get_tx d3 (tx_id t) = Some ?v" using un by (simp add: d3)
  have books3: "books_ok d3" using ok3 by (simp add: review_ok_def)
  show ?thesis
  proof (rule confirm_transfer_made [OF assms(8) m3' m3(2) books3 assms(9)])
    fix l r outgoing incoming source amount dates dm created
    assume made4: "transfer_made d4 k user (decided now4 MATCH_CONFIRMED (Some user) m3) t4"
      and mk: "make_once (transfer_draft d3 user amount dates source k) accs' d3 = Inr (dm, t4, created)"
      and d4: "transactions d4 = transactions dm" "entries d4 = entries dm"
    have "dm = d3 \<and> t4 = ?v \<and> \<not> created"
      by (rule make_once_converges [OF mk books3 v]) (use made in \<open>simp_all add: transfer_made_def\<close>)
    moreover have "\<exists>ob. get_observation d4 j = Some ob \<and> ob_canonical ob = Some (tx_id t4) \<and> feeds_reports ob"
      if j: "j \<in> {rm_left m, rm_right m}" for j
      using made4 j m3(3,4) unfolding transfer_made_def feeds_reports_def by auto
    ultimately show ?thesis using d4 m3(2) by simp
  qed
qed

theorem relinked_transfer_witness:
  "\<exists>d1 t d2 m2 d3 m3 d4 t4. confirm_internal_transfer 500 70 1 (Some transfer_rule) pair_db = Inr (d1, t) \<and>
     unlink_match 600 70 1 d1 = Inr (d2, m2) \<and>
     link_observations 1 60 63 (Some INTERNAL_TRANSFER) True d2 = Inr (d3, m3) \<and>
     confirm_internal_transfer 500 70 1 (Some transfer_rule) d3 = Inr (d4, t4) \<and> tx_status t4 = VOIDED"
proof -
  obtain d1 t d2 m2 d3 m3 d4 t4 where r:
    "confirm_internal_transfer 500 70 1 (Some transfer_rule) pair_db = Inr (d1, t)"
    "unlink_match 600 70 1 d1 = Inr (d2, m2)"
    "link_observations 1 60 63 (Some INTERNAL_TRANSFER) True d2 = Inr (d3, m3)"
    "accounts_loaded d3 (Some transfer_rule)"
    "confirm_internal_transfer 500 70 1 (Some transfer_rule) d3 = Inr (d4, t4)"
    using succeedsE [OF pair_reconfirm] by (auto simp: then_confirm_def then_undo_def then_link_def then_loaded_def)
  have "link_observations 1 (rm_left sample_candidate) (rm_right sample_candidate) (Some INTERNAL_TRANSFER) True d2
      = Inr (d3, m3)"
    using r(3) by (simp only: pair_match)
  from relinked_transfer_comes_back_void [OF r(1) pair_match(1,2) pair_ok pair_loaded r(2) this r(5,4)]
  have "tx_status t4 = VOIDED" by (elim conjE)
  then show ?thesis using r by blast
qed

text \<open>
  C26. Confirming a refund reverses one purchase: the credit row becomes a new refund, never income, of
  its own amount in the category of the purchase it is matched with, posted when ledger accounts are
  given; the match is confirmed, every other open refund candidate of that row is rejected and no other
  candidate changes; the purchase row and all others stay as they are, and the books stay balanced.
\<close>

theorem confirmed_refund_reverses_one_purchase:
  assumes "confirm_refund_match now k user accs d = Inr (d', t)"
    and "get_match d k = Some m" "rm_status m = PROPOSED" "review_ok d" "accounts_loaded d accs"
    and "\<forall>x \<in> set (transactions d). tx_source_key x \<noteq> event_key REFUND_SOURCE k"
  shows "\<exists>refund purchase. {get_observation d (rm_left m), get_observation d (rm_right m)} = {Some refund, Some purchase} \<and>
    ob_direction refund = DIR_CREDIT \<and> ob_direction purchase = DIR_DEBIT \<and>
    get_tx d (tx_id t) = None \<and> get_tx d' (tx_id t) = Some t \<and> tx_type t = T_REFUND \<and>
    ob_amount refund = Some (tx_amount t) \<and> tx_category t = purchase_category d purchase \<and>
    (accs \<noteq> None \<longrightarrow> is_posted d' (tx_id t)) \<and> books_ok d' \<and>
    (\<forall>j. get_observation d' j =
       (if j = ob_id refund then Some (accepted_row now user refund (tx_id t)) else get_observation d j)) \<and>
    get_match d' k = Some (decided now MATCH_CONFIRMED (Some user) m) \<and>
    (\<forall>j x. j \<noteq> k \<longrightarrow> get_match d j = Some x \<longrightarrow>
       get_match d' j = Some
         (if rm_user x = user \<and> rm_type x = REFUND_MATCH \<and> rm_status x = PROPOSED \<and>
             (rm_left x = ob_id refund \<or> rm_right x = ob_id refund)
          then decided now MATCH_REJECTED (Some user) x else x))"
proof (rule confirm_refund_newE [OF assms(1-3)])
  fix l r refund purchase account amount occurred d1 d2 created n a
  let ?row = "accepted_row now user refund (tx_id t)" and ?m = "decided now MATCH_CONFIRMED (Some user) m"
  let ?t0 = "refund_draft d user refund amount occurred account (purchase_category d purchase) k"
  let ?s = "put_match ?m (put_observation ?row d1)"
  assume lr: "get_observation d (rm_left m) = Some l" "get_observation d (rm_right m) = Some r"
    and own: "ob_user l = user" "ob_user r = user" and side: "refund = l \<and> purchase = r \<or> refund = r \<and> purchase = l"
    and dirs: "ob_direction refund = DIR_CREDIT" "ob_direction purchase = DIR_DEBIT" and am: "ob_amount refund = Some amount"
    and mk: "make_once ?t0 accs d = Inr (d1, t, created)" and c: "observation_constraints ?row"
    and dc: "dismiss_competing_candidates now user m refund ?s = Inr (d2, n)" and d': "d' = d2\<lparr>audits := a\<rparr>"
  obtain j where j: "get_observation d j = Some refund" "ob_user refund = user" using side lr own by blast
  have id: "ob_id refund = j" by (rule get_observation_id [OF j(1)])
  have books: "books_ok d" using assms(4) by (simp add: review_ok_def)
  have stage: "review_ok ?s" by (rule refund_stage [OF assms(4) mk assms(5) j c assms(2)])
  have none: "same_origin d ?t0 = None" using assms(6) by (auto simp: same_origin_def find_None_iff)
  note e = make_once_effect [OF mk books refund_draft_fields(1) _ assms(5)]
  have new: "get_tx d (tx_id t) = None \<and> get_tx d1 (tx_id t) = Some t \<and> tx_type t = T_REFUND \<and> tx_amount t = amount \<and>
      tx_category t = purchase_category d purchase \<and> (accs \<noteq> None \<longrightarrow> is_posted d1 (tx_id t)) \<and>
      observations d1 = observations d \<and> matches d1 = matches d"
    using e none by (cases created) auto
  have gets: "get_observation d1 = get_observation d" "get_match d1 = get_match d"
    using new by (simp_all add: fun_eq_iff get_observation_def get_match_def)
  obtain x b where d2: "d2 = ?s\<lparr>matches := x, audits := b\<rparr>" using dismissed [OF dc stage] by blast
  have same: "get_tx d' = get_tx d1" "is_posted d' = is_posted d1" "get_observation d' = get_observation ?s"
      "get_match d' = get_match d2"
    by (simp_all add: d' d2 fun_eq_iff get_tx_def is_posted_def get_observation_def get_match_def put_match_def put_observation_def)
  have rows: "get_observation d' i = (if i = ob_id refund then Some ?row else get_observation d i)" for i
    using get_put_observation [of d1 ?row refund i] j id by (simp add: same gets)
  have ms: "get_match ?s i = (if i = k then Some ?m else get_match d i)" for i
    using get_put_match [of "put_observation ?row d1" ?m m i] assms(2) get_match_id [OF assms(2)] by (simp add: gets)
  have after: "get_match d' i = Some (if competing user m refund y then decided now MATCH_REJECTED (Some user) y else y)"
    if y: "get_match ?s i = Some y" for i y
    using dismissed [OF dc stage] y same(4) by simp
  have "\<not> competing user m refund ?m" by (simp add: competing_def)
  then have "get_match d' k = Some ?m" using after [of k ?m] ms by simp
  moreover have "get_match d' i = Some (if rm_user y = user \<and> rm_type y = REFUND_MATCH \<and> rm_status y = PROPOSED \<and>
             (rm_left y = ob_id refund \<or> rm_right y = ob_id refund)
          then decided now MATCH_REJECTED (Some user) y else y)"
    if "i \<noteq> k" "get_match d i = Some y" for i y
    using after [of i y] ms [of i] that get_match_id [OF assms(2)] get_match_id [OF that(2)]
    by (simp add: competing_def touches_def)
  moreover have "books_ok d'"
    using review_refund [OF assms(4,1,5)] by (simp add: review_ok_def)
  moreover have "{get_observation d (rm_left m), get_observation d (rm_right m)} = {Some refund, Some purchase}"
    using side lr by auto
  ultimately show ?thesis
    using dirs am new rows same(1,2) by (intro exI [of _ refund] exI [of _ purchase]) simp
qed

theorem confirmed_refund_witness:
  "\<exists>d' t. confirm_refund_match 500 71 1 (Some sample_rule) refund_db = Inr (d', t) \<and> tx_type t = T_REFUND \<and>
     get_match d' 72 = Some (decided 500 MATCH_REJECTED (Some 1) (refund_candidate 72 61))"
proof -
  obtain d' t where r: "confirm_refund_match 500 71 1 (Some sample_rule) refund_db = Inr (d', t)"
    using succeedsE [OF refund_confirm] by (metis surj_pair)
  obtain refund purchase where e: "tx_type t = T_REFUND" "ob_direction refund = DIR_CREDIT"
      "{get_observation refund_db 60, get_observation refund_db 64} = {Some refund, Some purchase}"
      "\<forall>j x. j \<noteq> 71 \<longrightarrow> get_match refund_db j = Some x \<longrightarrow> get_match d' j = Some
         (if rm_user x = 1 \<and> rm_type x = REFUND_MATCH \<and> rm_status x = PROPOSED \<and>
             (rm_left x = ob_id refund \<or> rm_right x = ob_id refund)
          then decided 500 MATCH_REJECTED (Some 1) x else x)"
    using confirmed_refund_reverses_one_purchase [OF r refund_matches(1,3) refund_ok refund_loaded refund_fresh]
    by (auto simp: refund_candidate_def)
  have "get_observation refund_db 60 = Some sample_row" "get_observation refund_db 64 = Some sample_refund"
    by (simp_all add: refund_db_def sample_rows_def sample_refund_def sample_row_def get_observation_def)
  then have "refund = sample_refund"
    using e(2,3) by (auto simp: doubleton_eq_iff sample_row_def)
  then have "rm_user (refund_candidate 72 61) = 1 \<and> rm_type (refund_candidate 72 61) = REFUND_MATCH \<and>
      rm_status (refund_candidate 72 61) = PROPOSED \<and>
      (rm_left (refund_candidate 72 61) = ob_id refund \<or> rm_right (refund_candidate 72 61) = ob_id refund)"
    by (simp add: refund_candidate_def sample_refund_def)
  moreover have "(72::nat) \<noteq> 71" by simp
  ultimately have "get_match d' 72 = Some (decided 500 MATCH_REJECTED (Some 1) (refund_candidate 72 61))"
    using e(4) refund_matches(2) by presburger
  then show ?thesis using r e(1) by blast
qed

text \<open>
  C28. One active statement per purchase: when \<open>record_statement_memberships\<close> succeeds on proposals
  whose statements are not themselves purchases, every proposal has its stored match and no purchase
  among them is in two memberships that are proposed or confirmed, whatever there was before.
\<close>

theorem one_active_statement_per_purchase:
  assumes "record_statement_memberships user with_key ps d = Inr (d', ms)" "review_ok d"
    and "set (map mp_left ps) \<inter> set (map mp_right ps) = {}"
  shows "length ms = length ps \<and>
    (\<forall>k \<in> set (map mp_right ps). \<forall>m \<in> set (matches d'). \<forall>m' \<in> set (matches d').
       (rm_left m = k \<or> rm_right m = k) \<and> rm_type m = STATEMENT_MEMBERSHIP \<and> rm_status m \<noteq> MATCH_REJECTED \<longrightarrow>
       (rm_left m' = k \<or> rm_right m' = k) \<and> rm_type m' = STATEMENT_MEMBERSHIP \<and> rm_status m' \<noteq> MATCH_REJECTED \<longrightarrow>
       m = m')"
proof -
  have act: "active_membership k m" if "(rm_left m = k \<or> rm_right m = k) \<and> rm_type m = STATEMENT_MEMBERSHIP \<and> rm_status m \<noteq> MATCH_REJECTED"
    for k m
    using that by (cases "rm_status m") (auto simp: active_membership_def touches_def)
  have "rfold (record_membership user with_key) ps (d, []) = Inr (d', ms)"
    using assms(1) by (simp add: record_statement_memberships_def)
  from memberships_fold [OF this _ assms(3)] assms(2)
  have ok: "review_ok d'" and n: "length ms = length ps"
    and one: "\<And>k. k \<notin> set (map mp_left ps) \<Longrightarrow> k \<in> set (map mp_right ps) \<Longrightarrow> one_statement k d'"
    by simp_all
  have "inj_on pair_of (set (matches d'))" using ok by (simp add: review_ok_def distinct_map)
  then have "m = m'" if "k \<in> set (map mp_right ps)" "m \<in> set (matches d')" "m' \<in> set (matches d')"
      "active_membership k m" "active_membership k m'" for k m m'
    using one [of k] assms(3) that unfolding one_statement_def by (meson disjoint_iff inj_onD)
  then show ?thesis using n act by blast
qed

theorem one_active_statement_witness:
  "\<exists>d' ms. record_statement_memberships 1 True [membership 60 61, membership 60 62] refund_db = Inr (d', ms) \<and>
     length ms = 2"
proof -
  obtain d' ms where r: "record_statement_memberships 1 True [membership 60 61, membership 60 62] refund_db = Inr (d', ms)"
    using succeedsE [OF refund_members] by (metis surj_pair)
  have "set (map mp_left [membership 60 61, membership 60 62]) \<inter> set (map mp_right [membership 60 61, membership 60 62]) = {}"
    by (simp add: membership_def)
  from one_active_statement_per_purchase [OF r refund_ok this] show ?thesis using r by simp
qed

end
