(* ===== verification/Reports.thy ===== *)
theory Reports
  imports Transactions Balances
begin

text \<open>
  Reports over the transactions of one user: which types count as what
  (\<open>apps/transactions/classification.py\<close>), monthly totals (\<open>apps/reports/spending.py\<close>), the grouping the
  reports share (\<open>grouping.py\<close>), the breakdown by category and merchant (\<open>breakdown.py\<close>), activity by
  account and card (\<open>activity.py\<close>) and the overview of a period (\<open>overview.py\<close>). Dates are proleptic
  ordinals, as \<open>date.toordinal\<close>; reading a decrypted name is a parameter.
\<close>

section \<open>Buckets\<close>

definition SPENDING_TYPES :: "transaction_type set" where
  "SPENDING_TYPES = {T_PURCHASE, T_FEE, T_INTEREST}"

definition INCOME_TYPES :: "transaction_type set" where
  "INCOME_TYPES = {T_INCOME}"

definition REFUND_TYPES :: "transaction_type set" where
  "REFUND_TYPES = {T_REFUND}"

definition NEUTRAL_TYPES :: "transaction_type set" where
  "NEUTRAL_TYPES = {T_INTERNAL_TRANSFER, T_BANK_TRANSFER, T_CREDIT_CARD_PAYMENT, T_CASH_WITHDRAWAL,
     T_LOAN_PAYMENT, T_OPENING_BALANCE}"

definition OPENING_TYPES :: "transaction_type set" where
  "OPENING_TYPES = {T_OPENING_BALANCE}"

definition SETTLEMENT_TYPES :: "transaction_type set" where
  "SETTLEMENT_TYPES = {T_CREDIT_CARD_PAYMENT, T_LOAN_PAYMENT}"

definition UNRESOLVED_TYPES :: "transaction_type set" where
  "UNRESOLVED_TYPES = {T_ADJUSTMENT, T_UNKNOWN}"

definition is_spending :: "transaction_type \<Rightarrow> bool" where
  "is_spending ty = (ty \<in> SPENDING_TYPES)"

definition is_income :: "transaction_type \<Rightarrow> bool" where
  "is_income ty = (ty \<in> INCOME_TYPES)"

definition is_spending_reduction :: "transaction_type \<Rightarrow> bool" where
  "is_spending_reduction ty = (ty \<in> REFUND_TYPES)"

definition is_neutral :: "transaction_type \<Rightarrow> bool" where
  "is_neutral ty = (ty \<in> NEUTRAL_TYPES)"

definition is_opening_balance :: "transaction_type \<Rightarrow> bool" where
  "is_opening_balance ty = (ty \<in> OPENING_TYPES)"

definition is_settlement :: "transaction_type \<Rightarrow> bool" where
  "is_settlement ty = (ty \<in> SETTLEMENT_TYPES)"

definition is_unresolved :: "transaction_type \<Rightarrow> bool" where
  "is_unresolved ty = (ty \<in> UNRESOLVED_TYPES)"

definition BUCKETS :: "(string \<times> transaction_type set) list" where
  "BUCKETS = [(''spending'', SPENDING_TYPES), (''income'', INCOME_TYPES), (''refund'', REFUND_TYPES),
     (''neutral'', NEUTRAL_TYPES), (''unresolved'', UNRESOLVED_TYPES)]"

definition bucket_of :: "transaction_type \<Rightarrow> string result" where
  "bucket_of ty =
     (case find (\<lambda>(name, members). ty \<in> members) BUCKETS of None \<Rightarrow> Inl ValueError | Some p \<Rightarrow> Inr (fst p))"

section \<open>Periods\<close>

text \<open>The calendar of \<open>datetime\<close>: days before a year, before a month of it, and in a month.\<close>

definition is_leap :: "int \<Rightarrow> bool" where
  "is_leap y = (y mod 4 = 0 \<and> (y mod 100 \<noteq> 0 \<or> y mod 400 = 0))"

definition days_in_month :: "int \<Rightarrow> nat \<Rightarrow> int" where
  "days_in_month y m =
     (if m = 2 \<and> is_leap y then 29
      else [31, 28, 31, 30, 31, 30, 31, 31, 30, 31, 30, 31] ! (m - 1))"

definition days_before_year :: "int \<Rightarrow> int" where
  "days_before_year y = (let n = y - 1 in n * 365 + n div 4 - n div 100 + n div 400)"

definition days_before_month :: "int \<Rightarrow> nat \<Rightarrow> int" where
  "days_before_month y m = sum_list (map (days_in_month y) [1..<m])"

definition ordinal :: "int \<Rightarrow> nat \<Rightarrow> int \<Rightarrow> int" where
  "ordinal y m day = days_before_year y + days_before_month y m + day"

definition month_bounds :: "int \<Rightarrow> nat \<Rightarrow> (int \<times> int) result" where
  "month_bounds y m =
     raise_if (\<not> (1 \<le> m \<and> m \<le> 12)) ValueError
     (raise_if (\<not> (1 \<le> y \<and> y \<le> 9999)) ValueError
     (Inr (ordinal y m 1, ordinal y m (days_in_month y m))))"

section \<open>Reportable transactions\<close>

definition REPORTABLE_STATUSES :: "transaction_status set" where
  "REPORTABLE_STATUSES = {DRAFT, CONFIRMED}"

text \<open>The table's default order: latest first, then the latest created.\<close>

definition reportable_transactions :: "db \<Rightarrow> id \<Rightarrow> int option \<Rightarrow> int option \<Rightarrow> canonical_transaction list" where
  "reportable_transactions d user first last_day =
     sort_key (\<lambda>t. - tx_occurred_at t) (rev (filter (\<lambda>t. tx_user t = user \<and>
        tx_status t \<in> REPORTABLE_STATUSES \<and> tx_type t \<notin> OPENING_TYPES \<and>
        (case first of None \<Rightarrow> True | Some a \<Rightarrow> a \<le> tx_occurred_at t) \<and>
        (case last_day of None \<Rightarrow> True | Some b \<Rightarrow> tx_occurred_at t \<le> b)) (transactions d)))"

section \<open>Monthly totals\<close>

record spending_totals =
  st_gross :: int
  st_refunds :: int
  st_income :: int
  st_neutral :: int
  st_unresolved :: int
  st_count :: int

definition no_spending :: spending_totals where
  "no_spending = \<lparr>st_gross = 0, st_refunds = 0, st_income = 0, st_neutral = 0, st_unresolved = 0, st_count = 0\<rparr>"

definition net_spending_minor :: "spending_totals \<Rightarrow> int" where
  "net_spending_minor s = st_gross s - st_refunds s"

definition net_position_minor :: "spending_totals \<Rightarrow> int" where
  "net_position_minor s = st_income s - net_spending_minor s"

text \<open>\<open>_BUCKET_FIELDS\<close>: the field of each bucket, with the addition to it.\<close>

definition add_to_bucket :: "string \<Rightarrow> int \<Rightarrow> spending_totals \<Rightarrow> spending_totals" where
  "add_to_bucket name n s =
     (if name = ''spending'' then s\<lparr>st_gross := st_gross s + n\<rparr>
      else if name = ''refund'' then s\<lparr>st_refunds := st_refunds s + n\<rparr>
      else if name = ''income'' then s\<lparr>st_income := st_income s + n\<rparr>
      else if name = ''neutral'' then s\<lparr>st_neutral := st_neutral s + n\<rparr>
      else s\<lparr>st_unresolved := st_unresolved s + n\<rparr>)"

text \<open>\<open>values = d.setdefault(k, z)\<close> and an update of \<open>values\<close> in place.\<close>

fun update_default :: "'v \<Rightarrow> ('v \<Rightarrow> 'v) \<Rightarrow> 'k \<Rightarrow> ('k \<times> 'v) list \<Rightarrow> ('k \<times> 'v) list" where
  "update_default z f k [] = [(k, f z)]"
| "update_default z f k ((j, v) # rest) =
     (if j = k then (j, f v) # rest else (j, v) # update_default z f k rest)"

definition accumulate_step ::
  "canonical_transaction \<Rightarrow> (string \<times> spending_totals) list \<Rightarrow> (string \<times> spending_totals) list result" where
  "accumulate_step t running =
     rbind (Currency (currency (tx_amount t))) (\<lambda>cur.
     raise_if (tx_currency t \<noteq> [] \<and> upper (tx_currency t) \<noteq> cur) ValueError
     (rbind (bucket_of (tx_type t)) (\<lambda>name.
      Inr (update_default no_spending
        (\<lambda>s. (add_to_bucket name (amount_minor (tx_amount t)) s)\<lparr>st_count := st_count s + 1\<rparr>) cur running))))"

definition accumulate :: "canonical_transaction list \<Rightarrow> (string \<times> spending_totals) list result" where
  "accumulate ts = rfold accumulate_step ts []"

text \<open>\<open>MonthlySpending.totals\<close>: nothing in a currency is an empty total.\<close>

definition totals_in :: "(string \<times> spending_totals) list \<Rightarrow> string \<Rightarrow> spending_totals" where
  "totals_in by_currency cur = (case map_of by_currency (upper cur) of None \<Rightarrow> no_spending | Some s \<Rightarrow> s)"

definition monthly_spending :: "db \<Rightarrow> id \<Rightarrow> int \<Rightarrow> nat \<Rightarrow> (string \<times> spending_totals) list result" where
  "monthly_spending d user y m =
     rbind (month_bounds y m) (\<lambda>(a, b). accumulate (reportable_transactions d user (Some a) (Some b)))"

section \<open>Grouping\<close>

definition amount_in :: "canonical_transaction \<Rightarrow> string \<Rightarrow> money result" where
  "amount_in t cur =
     rbind (Currency (currency (tx_amount t))) (\<lambda>c. raise_if (c \<noteq> cur) ValueError (Inr (tx_amount t)))"

text \<open>
  The values of one group: its label, the sums of its columns and the number of rows. The label is
  computed for every row, and kept for the first.
\<close>

record group =
  gr_label :: string
  gr_sums :: "string \<Rightarrow> int"
  gr_count :: int

definition group_step ::
  "string \<Rightarrow> (canonical_transaction \<Rightarrow> string) \<Rightarrow> (canonical_transaction \<Rightarrow> string result) \<Rightarrow>
     (canonical_transaction \<Rightarrow> string) \<Rightarrow> canonical_transaction \<Rightarrow> (string \<times> group) list \<Rightarrow>
     (string \<times> group) list result" where
  "group_step cur key_of label_of column_for t grouped =
     rbind (amount_in t cur) (\<lambda>amount.
     rbind (label_of t) (\<lambda>label.
     Inr (update_default \<lparr>gr_label = label, gr_sums = (\<lambda>_. 0), gr_count = 0\<rparr>
       (\<lambda>g. g\<lparr>gr_sums := (gr_sums g)(column_for t := gr_sums g (column_for t) + amount_minor amount),
             gr_count := gr_count g + 1\<rparr>) (key_of t) grouped)))"

definition group_rows ::
  "canonical_transaction list \<Rightarrow> string \<Rightarrow> (canonical_transaction \<Rightarrow> string) \<Rightarrow>
     (canonical_transaction \<Rightarrow> string result) \<Rightarrow> (canonical_transaction \<Rightarrow> string) \<Rightarrow> (string \<times> group) list result" where
  "group_rows ts cur key_of label_of column_for = rfold (group_step cur key_of label_of column_for) ts []"

record line =
  ln_key :: string
  ln_label :: string
  ln_sums :: "string \<Rightarrow> int"
  ln_count :: int

definition line_net :: "line \<Rightarrow> int" where
  "line_net l = ln_sums l ''gross_spending_minor'' - ln_sums l ''refunds_minor''"

definition line_of :: "string \<times> group \<Rightarrow> line" where
  "line_of p = \<lparr>ln_key = fst p, ln_label = gr_label (snd p), ln_sums = gr_sums (snd p), ln_count = gr_count (snd p)\<rparr>"

text \<open>\<open>sorted(lines, key=(not key, -net, label))\<close>: three stable sorts, the weakest key first.\<close>

definition sorted_lines :: "line list \<Rightarrow> line list" where
  "sorted_lines ls =
     sort_key (\<lambda>l. if ln_key l = [] then 1 else (0::nat)) (sort_key (\<lambda>l. - line_net l) (sort_key ln_label ls))"

definition lines_sum :: "string \<Rightarrow> line list \<Rightarrow> int" where
  "lines_sum column ls = sum_list (map (\<lambda>l. ln_sums l column) ls)"

definition lines_count :: "line list \<Rightarrow> int" where
  "lines_count ls = sum_list (map ln_count ls)"

definition lines_net :: "line list \<Rightarrow> int" where
  "lines_net ls = lines_sum ''gross_spending_minor'' ls - lines_sum ''refunds_minor'' ls"

text \<open>The line without a key: spending nobody categorised, activity without a card.\<close>

definition unassigned :: "line list \<Rightarrow> line option" where
  "unassigned ls = find (\<lambda>l. ln_key l = []) ls"

definition in_currency :: "string \<Rightarrow> canonical_transaction list \<Rightarrow> canonical_transaction list" where
  "in_currency cur ts = filter (\<lambda>t. tx_currency t = upper cur) ts"

definition key_text :: "id option \<Rightarrow> string" where
  "key_text k = (case k of None \<Rightarrow> [] | Some i \<Rightarrow> show_nat i)"

section \<open>Breakdown\<close>

definition breakdown_column :: "canonical_transaction \<Rightarrow> string" where
  "breakdown_column t =
     (if bucket_of (tx_type t) = Inr ''refund'' then ''refunds_minor'' else ''gross_spending_minor'')"

definition spending_rows :: "canonical_transaction list \<Rightarrow> canonical_transaction list" where
  "spending_rows ts = filter (\<lambda>t. tx_type t \<in> SPENDING_TYPES \<or> tx_type t \<in> REFUND_TYPES) ts"

definition of_category :: "id option \<Rightarrow> canonical_transaction list \<Rightarrow> canonical_transaction list" where
  "of_category k ts = (case k of None \<Rightarrow> ts | Some i \<Rightarrow> filter (\<lambda>t. tx_category t = Some i) ts)"

definition build_breakdown ::
  "canonical_transaction list \<Rightarrow> string \<Rightarrow> (canonical_transaction \<Rightarrow> string) \<Rightarrow>
     (canonical_transaction \<Rightarrow> string result) \<Rightarrow> line list result" where
  "build_breakdown ts cur key_of label_of =
     rbind (group_rows ts cur key_of label_of breakdown_column) (\<lambda>grouped. Inr (sorted_lines (map line_of grouped)))"

definition category_breakdown ::
  "(canonical_transaction \<Rightarrow> string result) \<Rightarrow> db \<Rightarrow> id \<Rightarrow> int \<Rightarrow> int \<Rightarrow> string \<Rightarrow> id option \<Rightarrow> line list result" where
  "category_breakdown category_name d user first last_day cur category =
     build_breakdown
       (spending_rows (of_category category (in_currency cur (reportable_transactions d user (Some first) (Some last_day)))))
       (upper cur) (\<lambda>t. key_text (tx_category t))
       (\<lambda>t. if tx_category t = None then Inr ''Uncategorized'' else category_name t)"

definition merchant_breakdown ::
  "db \<Rightarrow> id \<Rightarrow> int \<Rightarrow> int \<Rightarrow> string \<Rightarrow> id option \<Rightarrow> line list result" where
  "merchant_breakdown d user first last_day cur category =
     build_breakdown
       (spending_rows (of_category category (in_currency cur (reportable_transactions d user (Some first) (Some last_day)))))
       (upper cur) tx_merchant_index
       (\<lambda>t. Inr (if tx_merchant t = [] then ''Unknown merchant'' else tx_merchant t))"

definition reconciles :: "line list \<Rightarrow> spending_totals \<Rightarrow> bool" where
  "reconciles ls s = (lines_net ls = net_spending_minor s)"

section \<open>Activity\<close>

definition activity_column :: "canonical_transaction \<Rightarrow> string" where
  "activity_column t =
     (let bucket = bucket_of (tx_type t) in
      if bucket = Inr ''spending'' then ''gross_spending_minor''
      else if bucket = Inr ''refund'' then ''refunds_minor''
      else if bucket = Inr ''income'' then ''income_minor''
      else if bucket = Inr ''unresolved'' then ''unresolved_minor''
      else if is_settlement (tx_type t) then ''settlements_minor'' else ''movement_minor'')"

definition scoped ::
  "db \<Rightarrow> id \<Rightarrow> int \<Rightarrow> int \<Rightarrow> string \<Rightarrow> id option \<Rightarrow> id option \<Rightarrow> canonical_transaction list" where
  "scoped d user first last_day cur account instrument =
     filter (\<lambda>t. (account = None \<or> Some (tx_financial_account t) = account) \<and>
                 (instrument = None \<or> tx_payment_instrument t = instrument))
       (in_currency cur (reportable_transactions d user (Some first) (Some last_day)))"

definition activity_lines ::
  "canonical_transaction list \<Rightarrow> string \<Rightarrow> (canonical_transaction \<Rightarrow> string) \<Rightarrow>
     (canonical_transaction \<Rightarrow> string result) \<Rightarrow> line list result" where
  "activity_lines ts cur key_of label_of =
     rbind (group_rows ts cur key_of label_of activity_column) (\<lambda>grouped. Inr (sorted_lines (map line_of grouped)))"

definition account_activity ::
  "(canonical_transaction \<Rightarrow> string result) \<Rightarrow> db \<Rightarrow> id \<Rightarrow> int \<Rightarrow> int \<Rightarrow> string \<Rightarrow> id option \<Rightarrow> id option \<Rightarrow>
     line list result" where
  "account_activity account_name d user first last_day cur account instrument =
     activity_lines (scoped d user first last_day cur account instrument) (upper cur)
       (\<lambda>t. show_nat (tx_financial_account t)) account_name"

definition instrument_activity ::
  "(canonical_transaction \<Rightarrow> string result) \<Rightarrow> db \<Rightarrow> id \<Rightarrow> int \<Rightarrow> int \<Rightarrow> string \<Rightarrow> id option \<Rightarrow> id option \<Rightarrow>
     line list result" where
  "instrument_activity instrument_name d user first last_day cur account instrument =
     activity_lines (scoped d user first last_day cur account instrument) (upper cur)
       (\<lambda>t. key_text (tx_payment_instrument t))
       (\<lambda>t. if tx_payment_instrument t = None then Inr ''No card'' else instrument_name t)"

section \<open>Overview\<close>

text \<open>The counters by name: \<open>income\<close>, \<open>card_expenses\<close>, ...; a pair of sums each.\<close>

record overview =
  ov_minor :: "string \<Rightarrow> int"
  ov_count :: "string \<Rightarrow> int"

definition overview_field :: "canonical_transaction \<Rightarrow> string result" where
  "overview_field t =
     rbind (bucket_of (tx_type t)) (\<lambda>bucket. Inr
       (if bucket = ''income'' then ''income''
        else if bucket = ''refund'' then ''refunds''
        else if bucket = ''unresolved'' then ''unresolved''
        else if bucket = ''spending''
        then (if tx_payment_instrument t \<noteq> None then ''card_expenses'' else ''cash_expenses'')
        else if is_settlement (tx_type t) then ''settlements''
        else if tx_type t = T_CASH_WITHDRAWAL then ''cash_withdrawals'' else ''transfers''))"

definition summarize_step :: "string \<Rightarrow> canonical_transaction \<Rightarrow> overview \<Rightarrow> overview result" where
  "summarize_step cur t running =
     rbind (amount_in t cur) (\<lambda>amount.
     rbind (overview_field t) (\<lambda>name.
     Inr \<lparr>ov_minor = (ov_minor running)(name := ov_minor running name + amount_minor amount),
          ov_count = (ov_count running)(name := ov_count running name + 1)\<rparr>))"

definition summarize :: "canonical_transaction list \<Rightarrow> string \<Rightarrow> overview result" where
  "summarize ts cur = rfold (summarize_step cur) ts \<lparr>ov_minor = (\<lambda>_. 0), ov_count = (\<lambda>_. 0)\<rparr>"

definition period_overview :: "db \<Rightarrow> id \<Rightarrow> int \<Rightarrow> int \<Rightarrow> string \<Rightarrow> overview result" where
  "period_overview d user first last_day cur =
     summarize (in_currency cur (reportable_transactions d user (Some first) (Some last_day))) (upper cur)"

definition overview_gross :: "overview \<Rightarrow> int" where
  "overview_gross v = ov_minor v ''card_expenses'' + ov_minor v ''cash_expenses''"

definition overview_net :: "overview \<Rightarrow> int" where
  "overview_net v = overview_gross v - ov_minor v ''refunds''"

definition overview_position :: "overview \<Rightarrow> int" where
  "overview_position v = ov_minor v ''income'' - overview_net v"

definition excluded_minor :: "overview \<Rightarrow> int" where
  "excluded_minor v = ov_minor v ''cash_withdrawals'' + ov_minor v ''settlements'' + ov_minor v ''transfers''"

definition has_unresolved :: "overview \<Rightarrow> bool" where
  "has_unresolved v = (0 < ov_count v ''unresolved'')"

section \<open>Facts about buckets and sums\<close>

lemmas bucket_defs = BUCKETS_def SPENDING_TYPES_def INCOME_TYPES_def REFUND_TYPES_def NEUTRAL_TYPES_def
  UNRESOLVED_TYPES_def SETTLEMENT_TYPES_def OPENING_TYPES_def

lemma bucket_of_simps [simp]:
  "bucket_of T_PURCHASE = Inr ''spending''" "bucket_of T_FEE = Inr ''spending''" "bucket_of T_INTEREST = Inr ''spending''"
  "bucket_of T_INCOME = Inr ''income''" "bucket_of T_REFUND = Inr ''refund''"
  "bucket_of T_INTERNAL_TRANSFER = Inr ''neutral''" "bucket_of T_BANK_TRANSFER = Inr ''neutral''"
  "bucket_of T_CREDIT_CARD_PAYMENT = Inr ''neutral''" "bucket_of T_CASH_WITHDRAWAL = Inr ''neutral''"
  "bucket_of T_LOAN_PAYMENT = Inr ''neutral''" "bucket_of T_OPENING_BALANCE = Inr ''neutral''"
  "bucket_of T_ADJUSTMENT = Inr ''unresolved''" "bucket_of T_UNKNOWN = Inr ''unresolved''"
  by (simp_all add: bucket_of_def bucket_defs)

definition minor :: "canonical_transaction \<Rightarrow> int" where
  "minor t = amount_minor (tx_amount t)"

definition sum_where :: "(canonical_transaction \<Rightarrow> bool) \<Rightarrow> canonical_transaction list \<Rightarrow> int" where
  "sum_where P ts = sum_list (map minor (filter P ts))"

lemma sum_where_simps [simp]:
  "sum_where P [] = 0" "sum_where P (t # ts) = (if P t then minor t else 0) + sum_where P ts"
  by (simp_all add: sum_where_def)

lemma sum_where_filter [simp]: "sum_where P (filter Q ts) = sum_where (\<lambda>t. Q t \<and> P t) ts"
  by (induction ts) simp_all

lemma sum_where_cong: "(\<And>t. t \<in> set ts \<Longrightarrow> P t = Q t) \<Longrightarrow> sum_where P ts = sum_where Q ts"
  by (induction ts) auto

lemma sum_where_or:
  "(\<And>t. t \<in> set ts \<Longrightarrow> \<not> (P t \<and> Q t)) \<Longrightarrow> sum_where (\<lambda>t. P t \<or> Q t) ts = sum_where P ts + sum_where Q ts"
  by (induction ts) auto

lemma map_of_update_default:
  "map_of (update_default z f k xs) j =
     (if j = k then Some (f (case map_of xs k of None \<Rightarrow> z | Some v \<Rightarrow> v)) else map_of xs j)"
  by (induction z f k xs rule: update_default.induct) auto

lemma keys_update_default: "fst ` set (update_default z f k xs) = insert k (fst ` set xs)"
  by (induction z f k xs rule: update_default.induct) auto

lemma distinct_update_default: "distinct (map fst xs) \<Longrightarrow> distinct (map fst (update_default z f k xs))"
  by (induction z f k xs rule: update_default.induct) (auto simp: keys_update_default)

lemma sum_update_default:
  assumes "h z = (0::int)" "\<And>v. h (f v) = h v + n"
  shows "sum_list (map (\<lambda>p. h (snd p)) (update_default z f k xs)) = sum_list (map (\<lambda>p. h (snd p)) xs) + n"
  using assms by (induction z f k xs rule: update_default.induct) auto

section \<open>Monthly totals\<close>

definition found :: "(string \<times> spending_totals) list \<Rightarrow> string \<Rightarrow> spending_totals" where
  "found by_currency cur = (case map_of by_currency cur of None \<Rightarrow> no_spending | Some s \<Rightarrow> s)"

text \<open>A row whose column names its currency the way the value objects do.\<close>

definition column_normal :: "canonical_transaction \<Rightarrow> bool" where
  "column_normal t \<longleftrightarrow> tx_currency t \<noteq> [] \<and> upper (tx_currency t) = tx_currency t"

definition totals_of :: "string \<Rightarrow> canonical_transaction list \<Rightarrow> spending_totals" where
  "totals_of cur ts =
     (let here = filter (\<lambda>t. tx_currency t = cur) ts in
      \<lparr>st_gross = sum_where (\<lambda>t. tx_type t \<in> SPENDING_TYPES) here, st_refunds = sum_where (\<lambda>t. tx_type t \<in> REFUND_TYPES) here,
       st_income = sum_where (\<lambda>t. tx_type t \<in> INCOME_TYPES) here, st_neutral = sum_where (\<lambda>t. tx_type t \<in> NEUTRAL_TYPES) here,
       st_unresolved = sum_where (\<lambda>t. tx_type t \<in> UNRESOLVED_TYPES) here, st_count = int (length here)\<rparr>)"

definition plus_totals :: "spending_totals \<Rightarrow> spending_totals \<Rightarrow> spending_totals" where
  "plus_totals a b = \<lparr>st_gross = st_gross a + st_gross b, st_refunds = st_refunds a + st_refunds b,
     st_income = st_income a + st_income b, st_neutral = st_neutral a + st_neutral b,
     st_unresolved = st_unresolved a + st_unresolved b, st_count = st_count a + st_count b\<rparr>"

lemma plus_no_spending [simp]: "plus_totals no_spending s = s"
  by (simp add: plus_totals_def no_spending_def)

lemma accumulate_stepE:
  assumes "accumulate_step t run = Inr run'" "column_normal t"
  obtains name where "bucket_of (tx_type t) = Inr name" "Currency (currency (tx_amount t)) = Inr (tx_currency t)"
    "\<And>cur. found run' cur = (if cur = tx_currency t
       then (add_to_bucket name (minor t) (found run cur))\<lparr>st_count := st_count (found run cur) + 1\<rparr> else found run cur)"
proof -
  obtain c name where c: "Currency (currency (tx_amount t)) = Inr c" "upper (tx_currency t) = c"
    and name: "bucket_of (tx_type t) = Inr name"
    and run': "run' = update_default no_spending
        (\<lambda>s. (add_to_bucket name (minor t) s)\<lparr>st_count := st_count s + 1\<rparr>) c run"
    using assms unfolding accumulate_step_def minor_def
    by (cases "Currency (currency (tx_amount t))"; cases "bucket_of (tx_type t)") (auto simp: column_normal_def)
  have "c = tx_currency t" using c(2) assms(2) by (simp add: column_normal_def)
  then show thesis
    using that [OF name] c(1) by (simp add: found_def run' map_of_update_default)
qed

lemma accumulate_fold:
  assumes "rfold accumulate_step ts run = Inr run'" "\<forall>t \<in> set ts. column_normal t"
  shows "found run' cur = plus_totals (found run cur) (totals_of cur ts)"
  using assms
proof (induction ts arbitrary: run)
  case Nil
  then show ?case by (simp add: totals_of_def plus_totals_def)
next
  case (Cons t ts)
  obtain run1 where s: "accumulate_step t run = Inr run1" "rfold accumulate_step ts run1 = Inr run'"
    using Cons.prems(1) by auto
  have "column_normal t" "\<forall>t \<in> set ts. column_normal t" using Cons.prems(2) by simp_all
  note IH = Cons.IH [OF s(2) this(2)]
  show ?case
  proof (rule accumulate_stepE [OF s(1) \<open>column_normal t\<close>])
    fix name
    assume "bucket_of (tx_type t) = Inr name"
      and "\<And>cur. found run1 cur = (if cur = tx_currency t
       then (add_to_bucket name (minor t) (found run cur))\<lparr>st_count := st_count (found run cur) + 1\<rparr> else found run cur)"
    then show ?thesis
      unfolding IH by (cases "tx_type t"; cases "cur = tx_currency t")
        (auto simp: totals_of_def plus_totals_def add_to_bucket_def bucket_defs Let_def)
  qed
qed

lemma accumulate_readable:
  assumes "rfold accumulate_step ts run = Inr run'" "\<forall>t \<in> set ts. column_normal t" "t \<in> set ts"
  shows "Currency (currency (tx_amount t)) = Inr (tx_currency t)"
  using assms
proof (induction ts arbitrary: run)
  case (Cons x ts)
  obtain run1 where s: "accumulate_step x run = Inr run1" "rfold accumulate_step ts run1 = Inr run'"
    using Cons.prems(1) by auto
  show ?case
  proof (cases "t = x")
    case True
    then show ?thesis using accumulate_stepE [OF s(1)] Cons.prems(2) by auto
  next
    case False
    then show ?thesis using Cons.IH [OF s(2)] Cons.prems(2,3) by simp
  qed
qed simp

lemma monthly_totals:
  assumes "accumulate ts = Inr by_currency" "\<forall>t \<in> set ts. column_normal t" "upper cur = cur"
  shows "totals_in by_currency cur = totals_of cur ts"
  using accumulate_fold [of ts "[]" by_currency cur] assms
  by (simp add: accumulate_def totals_in_def found_def)

section \<open>Lines\<close>

definition group_sum :: "(string \<times> group) list \<Rightarrow> string \<Rightarrow> string \<Rightarrow> int" where
  "group_sum grouped k column = (case map_of grouped k of None \<Rightarrow> 0 | Some g \<Rightarrow> gr_sums g column)"

lemma group_stepE:
  assumes "group_step cur key_of label_of column_for t grouped = Inr grouped'"
  obtains label where "label_of t = Inr label"
    "grouped' = update_default \<lparr>gr_label = label, gr_sums = (\<lambda>_. 0), gr_count = 0\<rparr>
       (\<lambda>g. g\<lparr>gr_sums := (gr_sums g)(column_for t := gr_sums g (column_for t) + minor t),
             gr_count := gr_count g + 1\<rparr>) (key_of t) grouped"
  using assms unfolding group_step_def amount_in_def minor_def
  by (cases "Currency (currency (tx_amount t))"; cases "label_of t") auto

text \<open>Each line holds the sums of the rows with its key; the keys are those of the rows.\<close>

lemma group_fold:
  assumes "rfold (group_step cur key_of label_of column_for) ts grouped = Inr grouped'"
  shows "group_sum grouped' k column = group_sum grouped k column +
      sum_where (\<lambda>t. key_of t = k \<and> column_for t = column) ts \<and>
    fst ` set grouped' = fst ` set grouped \<union> key_of ` set ts \<and>
    (distinct (map fst grouped) \<longrightarrow> distinct (map fst grouped')) \<and>
    sum_list (map (\<lambda>p. gr_sums (snd p) column) grouped') =
      sum_list (map (\<lambda>p. gr_sums (snd p) column) grouped) + sum_where (\<lambda>t. column_for t = column) ts \<and>
    sum_list (map (\<lambda>p. gr_count (snd p)) grouped') = sum_list (map (\<lambda>p. gr_count (snd p)) grouped) + int (length ts)"
  using assms
proof (induction ts arbitrary: grouped)
  case (Cons t ts)
  obtain g1 where s: "group_step cur key_of label_of column_for t grouped = Inr g1"
      "rfold (group_step cur key_of label_of column_for) ts g1 = Inr grouped'"
    using Cons.prems by auto
  obtain label where g1: "g1 = update_default \<lparr>gr_label = label, gr_sums = (\<lambda>_. 0), gr_count = 0\<rparr>
       (\<lambda>g. g\<lparr>gr_sums := (gr_sums g)(column_for t := gr_sums g (column_for t) + minor t),
             gr_count := gr_count g + 1\<rparr>) (key_of t) grouped"
    using s(1) by (rule group_stepE)
  have "group_sum g1 k column = group_sum grouped k column +
      (if key_of t = k \<and> column_for t = column then minor t else 0)"
    by (auto simp: g1 group_sum_def map_of_update_default split: option.split)
  moreover have "fst ` set g1 = insert (key_of t) (fst ` set grouped)"
    by (simp add: g1 keys_update_default)
  moreover have "distinct (map fst grouped) \<longrightarrow> distinct (map fst g1)"
    by (simp add: g1 distinct_update_default)
  moreover have "sum_list (map (\<lambda>p. gr_sums (snd p) column) g1) =
      sum_list (map (\<lambda>p. gr_sums (snd p) column) grouped) + (if column_for t = column then minor t else 0)"
    unfolding g1 by (rule sum_update_default [of "\<lambda>g. gr_sums g column"]) simp_all
  moreover have "sum_list (map (\<lambda>p. gr_count (snd p)) g1) = sum_list (map (\<lambda>p. gr_count (snd p)) grouped) + 1"
    unfolding g1 by (rule sum_update_default [of gr_count]) simp_all
  ultimately show ?case using Cons.IH [OF s(2)] by simp
qed simp

lemma group_total:
  assumes "\<forall>t \<in> set ts. amount_in t cur = Inr (tx_amount t) \<and> (\<exists>l. label_of t = Inr l)"
  shows "\<exists>grouped'. rfold (group_step cur key_of label_of column_for) ts grouped = Inr grouped'"
  using assms
proof (induction ts arbitrary: grouped)
  case (Cons t ts)
  obtain l where "label_of t = Inr l" using Cons.prems by auto
  then obtain g1 where "group_step cur key_of label_of column_for t grouped = Inr g1"
    using Cons.prems by (simp add: group_step_def)
  moreover obtain g2 where "rfold (group_step cur key_of label_of column_for) ts g1 = Inr g2"
    using Cons.IH [of g1] Cons.prems by auto
  ultimately show ?case by simp
qed simp

lemma lines_sum_sorted [simp]: "lines_sum column (sorted_lines ls) = lines_sum column ls"
  by (simp add: lines_sum_def sorted_lines_def sum_list_sort_key)

lemma lines_count_sorted [simp]: "lines_count (sorted_lines ls) = lines_count ls"
  by (simp add: lines_count_def sorted_lines_def sum_list_sort_key)

text \<open>The columns of a report: every row has one, so the columns together hold every row once.\<close>

locale report_columns =
  fixes column_for :: "canonical_transaction \<Rightarrow> string"
    and columns :: "string list"
  assumes placed: "column_for t \<in> set columns"
    and separate: "distinct columns"
begin

lemma columns_hold_all: "sum_list (map (\<lambda>c. sum_where (\<lambda>t. column_for t = c) ts) columns) = sum_where (\<lambda>_. True) ts"
proof (induction ts)
  case (Cons t ts)
  have "sum_list (map (\<lambda>c. if column_for t = c then minor t else 0) cs) = (if column_for t \<in> set cs then minor t else 0)"
    if "distinct cs" for cs
    using that by (induction cs) auto
  then have "sum_list (map (\<lambda>c. if column_for t = c then minor t else 0) columns) = minor t"
    using placed separate by simp
  then show ?case using Cons by (simp add: sum_list_addf)
qed simp

lemma lines_hold_all:
  assumes "group_rows ts cur key_of label_of column_for = Inr grouped"
  shows "lines_sum column (map line_of grouped) = sum_where (\<lambda>t. column_for t = column) ts \<and>
    lines_count (map line_of grouped) = int (length ts) \<and>
    sum_list (map (\<lambda>c. lines_sum c (map line_of grouped)) columns) = sum_where (\<lambda>_. True) ts"
proof -
  note f = group_fold [OF assms [unfolded group_rows_def]]
  have sums: "lines_sum c (map line_of grouped) = sum_where (\<lambda>t. column_for t = c) ts" for c
    using f [of _ c] by (simp add: lines_sum_def line_of_def comp_def)
  then show ?thesis
    using f columns_hold_all by (simp add: lines_count_def line_of_def comp_def)
qed

end

interpretation breakdown: report_columns breakdown_column "[''gross_spending_minor'', ''refunds_minor'']"
  by unfold_locales (simp_all add: breakdown_column_def)

interpretation activity: report_columns activity_column
  "[''gross_spending_minor'', ''refunds_minor'', ''income_minor'', ''settlements_minor'', ''movement_minor'',
    ''unresolved_minor'']"
  by unfold_locales (simp_all add: activity_column_def Let_def)

text \<open>Which column a type lands in.\<close>

lemma activity_column_iff:
  "activity_column t = ''gross_spending_minor'' \<longleftrightarrow> tx_type t \<in> SPENDING_TYPES"
  "activity_column t = ''refunds_minor'' \<longleftrightarrow> tx_type t \<in> REFUND_TYPES"
  "activity_column t = ''income_minor'' \<longleftrightarrow> tx_type t \<in> INCOME_TYPES"
  "activity_column t = ''unresolved_minor'' \<longleftrightarrow> tx_type t \<in> UNRESOLVED_TYPES"
  "activity_column t = ''settlements_minor'' \<or> activity_column t = ''movement_minor'' \<longleftrightarrow> tx_type t \<in> NEUTRAL_TYPES"
  by (cases "tx_type t"; simp add: activity_column_def bucket_defs is_settlement_def)+

lemma breakdown_column_iff:
  "tx_type t \<in> SPENDING_TYPES \<or> tx_type t \<in> REFUND_TYPES \<Longrightarrow>
     breakdown_column t = ''gross_spending_minor'' \<longleftrightarrow> tx_type t \<in> SPENDING_TYPES"
  "breakdown_column t = ''refunds_minor'' \<longleftrightarrow> tx_type t \<in> REFUND_TYPES"
  by (cases "tx_type t"; simp add: breakdown_column_def bucket_defs)+

section \<open>The overview\<close>

definition overview_name :: "canonical_transaction \<Rightarrow> string" where
  "overview_name t = (case overview_field t of Inl _ \<Rightarrow> [] | Inr name \<Rightarrow> name)"

lemma overview_field: "overview_field t = Inr (overview_name t)"
  by (cases "tx_type t") (simp_all add: overview_name_def overview_field_def)

lemma overview_name_iff:
  "overview_name t = ''income'' \<longleftrightarrow> tx_type t \<in> INCOME_TYPES"
  "overview_name t = ''refunds'' \<longleftrightarrow> tx_type t \<in> REFUND_TYPES"
  "overview_name t = ''unresolved'' \<longleftrightarrow> tx_type t \<in> UNRESOLVED_TYPES"
  "overview_name t = ''card_expenses'' \<or> overview_name t = ''cash_expenses'' \<longleftrightarrow> tx_type t \<in> SPENDING_TYPES"
  "overview_name t = ''cash_withdrawals'' \<or> overview_name t = ''settlements'' \<or> overview_name t = ''transfers'' \<longleftrightarrow>
     tx_type t \<in> NEUTRAL_TYPES"
  by (cases "tx_type t"; simp add: overview_name_def overview_field_def bucket_defs is_settlement_def)+

interpretation overview: report_columns overview_name
  "[''income'', ''card_expenses'', ''cash_expenses'', ''refunds'', ''cash_withdrawals'', ''settlements'', ''transfers'',
    ''unresolved'']"
proof unfold_locales
  show "overview_name t \<in> set [''income'', ''card_expenses'', ''cash_expenses'', ''refunds'', ''cash_withdrawals'',
      ''settlements'', ''transfers'', ''unresolved'']" for t
    by (cases "tx_type t") (simp_all add: overview_name_def overview_field_def)
qed simp

lemma summarize_fold:
  assumes "\<forall>t \<in> set ts. amount_in t cur = Inr (tx_amount t)"
  shows "\<exists>v'. rfold (summarize_step cur) ts v = Inr v' \<and>
    (\<forall>name. ov_minor v' name = ov_minor v name + sum_where (\<lambda>t. overview_name t = name) ts)"
  using assms
proof (induction ts arbitrary: v)
  case (Cons t ts)
  obtain v1 where s: "summarize_step cur t v = Inr v1"
    and v1: "\<And>name. ov_minor v1 name = ov_minor v name + (if overview_name t = name then minor t else 0)"
    using Cons.prems by (simp add: summarize_step_def overview_field minor_def)
  obtain v2 where "rfold (summarize_step cur) ts v1 = Inr v2"
    "\<forall>name. ov_minor v2 name = ov_minor v1 name + sum_where (\<lambda>t. overview_name t = name) ts"
    using Cons.IH [of v1] Cons.prems by auto
  then show ?case using s v1 by simp
qed simp

section \<open>Sums of a report\<close>

lemma in_currency_readable:
  assumes "accumulate ts = Inr by_currency" "\<forall>t \<in> set ts. column_normal t" "upper cur = cur"
  shows "\<forall>t \<in> set (in_currency cur ts). amount_in t cur = Inr (tx_amount t)"
  using accumulate_readable [of ts "[]" by_currency] assms by (auto simp: accumulate_def in_currency_def amount_in_def)

lemma breakdown_sums:
  assumes "\<forall>t \<in> set ts. amount_in t cur = Inr (tx_amount t)" "\<And>t. \<exists>l. label_of t = Inr l"
  shows "\<exists>ls. build_breakdown (spending_rows ts) cur key_of label_of = Inr ls \<and>
    lines_sum ''gross_spending_minor'' ls = sum_where (\<lambda>t. tx_type t \<in> SPENDING_TYPES) ts \<and>
    lines_sum ''refunds_minor'' ls = sum_where (\<lambda>t. tx_type t \<in> REFUND_TYPES) ts"
proof -
  have "\<forall>t \<in> set (spending_rows ts). amount_in t cur = Inr (tx_amount t) \<and> (\<exists>l. label_of t = Inr l)"
    using assms by (simp add: spending_rows_def)
  then obtain g where g: "group_rows (spending_rows ts) cur key_of label_of breakdown_column = Inr g"
    using group_total unfolding group_rows_def by blast
  have "sum_where (\<lambda>t. breakdown_column t = ''gross_spending_minor'') (spending_rows ts) =
      sum_where (\<lambda>t. tx_type t \<in> SPENDING_TYPES) ts"
    unfolding spending_rows_def sum_where_filter
    by (rule sum_where_cong) (use breakdown_column_iff(1) in blast)
  moreover have "sum_where (\<lambda>t. breakdown_column t = ''refunds_minor'') (spending_rows ts) =
      sum_where (\<lambda>t. tx_type t \<in> REFUND_TYPES) ts"
    unfolding spending_rows_def sum_where_filter
    by (rule sum_where_cong) (use breakdown_column_iff(2) in blast)
  ultimately show ?thesis
    using breakdown.lines_hold_all [OF g] by (simp add: build_breakdown_def g)
qed

lemma activity_sums:
  assumes "\<forall>t \<in> set ts. amount_in t cur = Inr (tx_amount t)" "\<And>t. \<exists>l. label_of t = Inr l"
  shows "\<exists>ls. activity_lines ts cur key_of label_of = Inr ls \<and>
    lines_sum ''gross_spending_minor'' ls = sum_where (\<lambda>t. tx_type t \<in> SPENDING_TYPES) ts \<and>
    lines_sum ''refunds_minor'' ls = sum_where (\<lambda>t. tx_type t \<in> REFUND_TYPES) ts \<and>
    lines_sum ''income_minor'' ls = sum_where (\<lambda>t. tx_type t \<in> INCOME_TYPES) ts \<and>
    lines_sum ''settlements_minor'' ls + lines_sum ''movement_minor'' ls = sum_where (\<lambda>t. tx_type t \<in> NEUTRAL_TYPES) ts \<and>
    lines_count ls = int (length ts)"
proof -
  obtain g where g: "group_rows ts cur key_of label_of activity_column = Inr g"
    using group_total [of ts cur label_of key_of activity_column "[]"] assms unfolding group_rows_def by blast
  have "sum_where (\<lambda>t. activity_column t = ''settlements_minor'') ts + sum_where (\<lambda>t. activity_column t = ''movement_minor'') ts
      = sum_where (\<lambda>t. tx_type t \<in> NEUTRAL_TYPES) ts"
    by (subst sum_where_or [symmetric]) (simp_all add: activity_column_iff(5))
  then show ?thesis
    using activity.lines_hold_all [OF g] by (simp add: activity_lines_def g activity_column_iff(1-3))
qed

lemma overview_sums:
  assumes "\<forall>t \<in> set ts. amount_in t cur = Inr (tx_amount t)"
  shows "\<exists>v. summarize ts cur = Inr v \<and>
    overview_gross v = sum_where (\<lambda>t. tx_type t \<in> SPENDING_TYPES) ts \<and>
    ov_minor v ''refunds'' = sum_where (\<lambda>t. tx_type t \<in> REFUND_TYPES) ts \<and>
    ov_minor v ''income'' = sum_where (\<lambda>t. tx_type t \<in> INCOME_TYPES) ts \<and>
    excluded_minor v = sum_where (\<lambda>t. tx_type t \<in> NEUTRAL_TYPES) ts"
proof -
  obtain v where v: "summarize ts cur = Inr v" "\<And>name. ov_minor v name = sum_where (\<lambda>t. overview_name t = name) ts"
    using summarize_fold [OF assms] unfolding summarize_def by fastforce
  have "sum_where (\<lambda>t. overview_name t = ''card_expenses'') ts + sum_where (\<lambda>t. overview_name t = ''cash_expenses'') ts
      = sum_where (\<lambda>t. tx_type t \<in> SPENDING_TYPES) ts"
    by (subst sum_where_or [symmetric]) (simp_all add: overview_name_iff(4))
  moreover have "sum_where (\<lambda>t. overview_name t = ''cash_withdrawals'') ts + sum_where (\<lambda>t. overview_name t = ''settlements'') ts +
      sum_where (\<lambda>t. overview_name t = ''transfers'') ts = sum_where (\<lambda>t. tx_type t \<in> NEUTRAL_TYPES) ts"
    by (subst sum_where_or [symmetric], simp, subst sum_where_or [symmetric]) (auto simp: disj_assoc overview_name_iff(5))
  ultimately show ?thesis using v by (simp add: overview_gross_def excluded_minor_def overview_name_iff(1,2))
qed

section \<open>The calendar\<close>

lemma div_step:
  assumes "0 < k"
  shows "(n + 1) div k = n div k + (if (n + 1) mod k = 0 then 1 else (0::int))"
proof -
  have n: "n = k * (n div k) + n mod k" and r: "0 \<le> n mod k" "n mod k < k" using assms by simp_all
  show ?thesis
  proof (cases "n mod k = k - 1")
    case True
    have "n + 1 = k * (n div k) + k" by (subst n, subst True) simp
    moreover have "(k * (n div k) + k) div k = n div k + 1" "(k * (n div k) + k) mod k = 0" using assms by simp_all
    ultimately show ?thesis by simp
  next
    case False
    then have "n + 1 = k * (n div k) + (n mod k + 1)" "0 \<le> n mod k + 1" "n mod k + 1 < k" using n r by simp_all
    then have "(n + 1) div k = n div k" "(n + 1) mod k = n mod k + 1"
      by (metis int_div_pos_eq, metis int_mod_pos_eq)
    then show ?thesis using r by simp
  qed
qed

lemma leap_sum:
  "(r \<longrightarrow> q) \<and> (q \<longrightarrow> p) \<Longrightarrow>
     y * 365 + (i + (if p then 1 else 0)) - (j + (if q then 1 else 0)) + (k + (if r then 1 else 0)) =
     (y - 1) * 365 + i - j + k + (if p \<and> (\<not> q \<or> r) then 366 else (365::int))"
  by (cases p; cases q; cases r) simp_all

lemma year_length: "days_before_year (y + 1) = days_before_year y + days_before_month y 13"
proof -
  have upt: "[1..<13] = [1, 2, 3, 4, 5, 6, 7, 8, 9, 10, 11, 12 :: nat]" by (simp add: upt_rec)
  have len: "days_before_month y 13 = (if is_leap y then 366 else 365)"
    unfolding days_before_month_def upt by (simp add: days_in_month_def)
  have sub: "y mod 400 = 0 \<longrightarrow> y mod 100 = 0" "y mod 100 = 0 \<longrightarrow> y mod 4 = 0"
    using dvd_trans [of "100::int" 400 y] dvd_trans [of "4::int" 100 y] by (simp_all add: mod_eq_0_iff_dvd)
  have d: "y div 4 = (y - 1) div 4 + (if y mod 4 = 0 then 1 else 0)"
    "y div 100 = (y - 1) div 100 + (if y mod 100 = 0 then 1 else 0)"
    "y div 400 = (y - 1) div 400 + (if y mod 400 = 0 then 1 else 0)"
    using div_step [of 4 "y - 1"] div_step [of 100 "y - 1"] div_step [of 400 "y - 1"] by (simp_all only: diff_add_cancel zero_less_numeral simp_thms)
  have "days_before_year (y + 1) = y * 365 + y div 4 - y div 100 + y div 400" by (simp add: days_before_year_def)
  also have "\<dots> = (y - 1) * 365 + (y - 1) div 4 - (y - 1) div 100 + (y - 1) div 400 + (if is_leap y then 366 else 365)"
    unfolding d is_leap_def by (rule leap_sum) (use sub in blast)
  finally show ?thesis by (simp add: len days_before_year_def Let_def)
qed

lemma next_month:
  "1 \<le> m \<Longrightarrow> days_before_month y (Suc m) = days_before_month y m + days_in_month y m"
  by (simp add: days_before_month_def)

lemma month_positive: "1 \<le> m \<Longrightarrow> m \<le> 12 \<Longrightarrow> 28 \<le> days_in_month y m"
proof -
  assume "1 \<le> m" "m \<le> 12"
  then have "m \<in> {1, 2, 3, 4, 5, 6, 7, 8, 9, 10, 11, 12}" by simp presburger
  then show ?thesis by (elim insertE) (simp_all add: days_in_month_def)
qed

lemma mset_filter_split:
  "(\<And>x. x \<in> set xs \<Longrightarrow> P x = (Q x \<noteq> R x)) \<Longrightarrow> (\<And>x. x \<in> set xs \<Longrightarrow> \<not> (Q x \<and> R x)) \<Longrightarrow>
     mset (filter P xs) = mset (filter Q xs) + mset (filter R xs)"
  by (induction xs) auto

lemma reportable_split:
  assumes "a \<le> b + 1" "b \<le> c"
  shows "mset (reportable_transactions d user (Some a) (Some c)) =
    mset (reportable_transactions d user (Some a) (Some b)) + mset (reportable_transactions d user (Some (b + 1)) (Some c))"
  unfolding reportable_transactions_def mset_sort mset_rev option.case
  by (rule mset_filter_split) (use assms in auto)

section \<open>After a deletion\<close>

lemma filter_replaced:
  "\<not> P v \<Longrightarrow> filter P (map (\<lambda>x. if pk x = k then v else x) xs) = filter (\<lambda>x. pk x \<noteq> k) (filter P xs)"
  by (induction xs) auto

lemma deleted_row:
  assumes "delete_transaction k user reason confirmed d = Inr (d', res)"
  shows "\<exists>v. tx_status v = VOIDED \<and> transactions d' = map (\<lambda>x. if tx_id x = k then v else x) (transactions d)"
  using assms
proof (rule delete_Inr)
  fix t d1 es d2 d3 t3
  assume r: "reverse_transaction_postings t d = Inr (d1, es)"
    and d2: "d2 = d1\<lparr>observations := map (\<lambda>o'. if fed_by k user o' then release_observation o' else o') (observations d1)\<rparr>"
    and m: "transition_transaction_status k user ''voided'' d2 = Inr (d3, t3)" and d': "\<exists>a. d' = d3\<lparr>audits := a\<rparr>"
  have "transactions d1 = transactions d"
    using r by (auto simp: reverse_Inr bulk_create_def Let_def split: if_splits)
  moreover obtain t2 b where t2: "get_tx d2 k = Some t2"
    and d3: "d3 = (put_tx (t2\<lparr>tx_status := VOIDED, tx_reviewed_by := Some user\<rparr>) d2)\<lparr>audits := b\<rparr>"
    using transition_put [of k user VOIDED d2 d3 t3] m by auto
  moreover have "tx_id t2 = k" by (rule get_tx_id [OF t2])
  ultimately have "transactions d3 = map (\<lambda>x. if tx_id x = k then t2\<lparr>tx_status := VOIDED, tx_reviewed_by := Some user\<rparr> else x)
      (transactions d)"
    by (simp add: d2 put_tx_def put_row_def)
  moreover have "transactions d' = transactions d3" using d' by auto
  ultimately show ?thesis
    by (intro exI [of _ "t2\<lparr>tx_status := VOIDED, tx_reviewed_by := Some user\<rparr>"]) simp
qed

section \<open>Properties\<close>



text \<open>
  Months tile the calendar: each month starts the day after the one before it ends, leap years
  included, and is not empty; so the transactions reported for two consecutive months are those reported
  for both together, none lost and none counted twice.
\<close>

theorem months_tile_the_calendar:
  assumes "month_bounds y m = Inr (a, b)" "month_bounds y' m' = Inr (a', b')"
    and "(y', m') = (if m = 12 then (y + 1, 1) else (y, Suc m))"
  shows "a \<le> b \<and> a' = b + 1 \<and>
    mset (reportable_transactions d user (Some a) (Some b')) =
      mset (reportable_transactions d user (Some a) (Some b)) + mset (reportable_transactions d user (Some a') (Some b'))"
proof -
  have m: "1 \<le> m" "m \<le> 12" "1 \<le> m'" "m' \<le> 12" and ab: "a = ordinal y m 1" "b = ordinal y m (days_in_month y m)"
    and ab': "a' = ordinal y' m' 1" "b' = ordinal y' m' (days_in_month y' m')"
    using assms(1,2) by (auto simp: month_bounds_def)
  have le: "a \<le> b" "a' \<le> b'"
    using month_positive [OF m(1,2), of y] month_positive [OF m(3,4), of y'] by (simp_all add: ab ab' ordinal_def)
  have "a' = b + 1"
  proof (cases "m = 12")
    case True
    then have "y' = y + 1" "m' = 1" using assms(3) by simp_all
    then show ?thesis
      using next_month [of 12 y] year_length [of y] True by (simp add: ab ab' ordinal_def days_before_month_def)
  next
    case False
    then show ?thesis using assms(3) next_month [OF m(1), of y] by (simp add: ab ab' ordinal_def)
  qed
  then show ?thesis using le reportable_split [of a b b' d user] by simp
qed

theorem months_tile_witness:
  "month_bounds 2024 2 = Inr (738917, 738945) \<and> month_bounds 2024 3 = Inr (738946, 738976) \<and>
     mset (reportable_transactions sample_db 1 (Some 738917) (Some 738976)) =
       mset (reportable_transactions sample_db 1 (Some 738917) (Some 738945)) +
       mset (reportable_transactions sample_db 1 (Some 738946) (Some 738976))"
proof -
  have "month_bounds 2024 2 = Inr (738917, 738945)" "month_bounds 2024 3 = Inr (738946, 738976)" by code_simp+
  then show ?thesis using months_tile_the_calendar [of 2024 2 _ _ 2024 3] by simp
qed

text \<open>
  A deleted transaction leaves every report: after a successful deletion the transactions reported
  for any user and period are those before it without the deleted one, in the same order; no reversing
  row takes its place.
\<close>

theorem deletion_leaves_every_report:
  assumes "delete_transaction k user reason confirmed d = Inr (d', res)"
  shows "reportable_transactions d' u a b = filter (\<lambda>t. tx_id t \<noteq> k) (reportable_transactions d u a b)"
proof -
  obtain v where v: "tx_status v = VOIDED" "transactions d' = map (\<lambda>x. if tx_id x = k then v else x) (transactions d)"
    using deleted_row [OF assms] by blast
  have "v \<notin> {t. tx_status t \<in> REPORTABLE_STATUSES}" by (simp add: v REPORTABLE_STATUSES_def)
  then show ?thesis
    unfolding reportable_transactions_def v(2)
    by (subst filter_replaced) (simp_all add: filter_sort rev_filter conj_commute)
qed

theorem deletion_leaves_witness:
  "\<exists>d' res. delete_transaction 30 1 ''mistake'' True sample_posted = Inr (d', res) \<and>
     reportable_transactions d' 1 None None = [sample_draft]"
proof -
  have "\<not> isl (delete_transaction 30 1 ''mistake'' True sample_posted)" by code_simp
  then obtain d' res where r: "delete_transaction 30 1 ''mistake'' True sample_posted = Inr (d', res)"
    by (cases "delete_transaction 30 1 ''mistake'' True sample_posted") auto
  have "filter (\<lambda>t. tx_id t \<noteq> 30) (reportable_transactions sample_posted 1 None None) = [sample_draft]"
    by code_simp
  then show ?thesis using deletion_leaves_every_report [OF r, of 1 None None] r by simp
qed

end
