(* ===== verification/Categorize.thy ===== *)
theory Categorize
  imports Transactions
begin

text \<open>
  Deciding the category of a transaction (\<open>apps/categorization/engine.py\<close>), the services that write it
  and the rules (\<open>services.py\<close>), and turning a correction into a rule (\<open>rule_creation.py\<close>). The two
  tables the engine reads beside the database are kept in \<open>catalog\<close>, in the order of creation;
  indexing a merchant name is a parameter.
\<close>

section \<open>Rules and aliases\<close>

datatype rule_type =
    MERCHANT_EXACT | MERCHANT_CONTAINS | COUNTERPARTY_EXACT | COUNTERPARTY_CONTAINS
  | RULE_PAYMENT_INSTRUMENT | RULE_FINANCIAL_ACCOUNT | AMOUNT_RANGE

record category_rule =
  cr_id :: id
  cr_user :: id
  cr_type :: rule_type
  cr_pattern_index :: string
  cr_category :: id
  cr_instrument :: "id option"
  cr_account :: "id option"
  cr_priority :: nat
  cr_is_active :: bool
  cr_disabled_at :: "int option"

record merchant_alias =
  ma_id :: id
  ma_user :: id
  ma_alias_index :: string
  ma_normalized_index :: string
  ma_category :: "id option"
  ma_instrument :: "id option"

record catalog =
  cg_db :: db
  cg_rules :: "category_rule list"
  cg_aliases :: "merchant_alias list"

definition on_db :: "(db \<Rightarrow> db result) \<Rightarrow> catalog \<Rightarrow> catalog result" where
  "on_db f cg = rbind (f (cg_db cg)) (\<lambda>d. Inr (cg\<lparr>cg_db := d\<rparr>))"

section \<open>The engine\<close>

datatype category_source =
    MANUAL_OVERRIDE | USER_RULE | CARD_RULE | MERCHANT_ALIAS | COUNTERPARTY_RULE | PRIOR_CONFIRMATION
  | PARSER | UNCATEGORIZED

definition source_value :: "category_source \<Rightarrow> string" where
  "source_value s = (case s of MANUAL_OVERRIDE \<Rightarrow> ''manual_override'' | USER_RULE \<Rightarrow> ''user_rule''
     | CARD_RULE \<Rightarrow> ''card_rule'' | MERCHANT_ALIAS \<Rightarrow> ''merchant_alias'' | COUNTERPARTY_RULE \<Rightarrow> ''counterparty_rule''
     | PRIOR_CONFIRMATION \<Rightarrow> ''prior_confirmation'' | PARSER \<Rightarrow> ''parser'' | UNCATEGORIZED \<Rightarrow> ''uncategorized'')"

definition PRECEDENCE :: "category_source list" where
  "PRECEDENCE = [MANUAL_OVERRIDE, USER_RULE, CARD_RULE, MERCHANT_ALIAS, COUNTERPARTY_RULE, PRIOR_CONFIRMATION,
     PARSER, UNCATEGORIZED]"

definition USER_DECIDED :: "string list" where
  "USER_DECIDED = [source_value MANUAL_OVERRIDE]"

record category_decision =
  cd_category :: "id option"
  cd_source :: category_source
  cd_source_id :: "id option"

definition is_categorized :: "category_decision \<Rightarrow> bool" where
  "is_categorized c = (cd_category c \<noteq> None)"

definition is_user_decided :: "category_decision \<Rightarrow> bool" where
  "is_user_decided c = (source_value (cd_source c) \<in> set USER_DECIDED)"

definition scoped_to :: "canonical_transaction \<Rightarrow> category_rule \<Rightarrow> bool" where
  "scoped_to t r =
     ((cr_instrument r = None \<or> cr_instrument r = tx_payment_instrument t) \<and>
      (cr_account r = None \<or> cr_account r = Some (tx_financial_account t)))"

text \<open>
  \<open>When(payment_instrument_id=None)\<close> is \<open>IS NULL\<close>: for a transaction without a card the first rank is
  that of every rule without one.
\<close>

definition scope_rank :: "canonical_transaction \<Rightarrow> category_rule \<Rightarrow> nat" where
  "scope_rank t r =
     (if cr_instrument r = tx_payment_instrument t then 0
      else if cr_account r = Some (tx_financial_account t) then 1 else 2)"

text \<open>\<open>order_by("-priority", "scope_rank", "created_at")\<close> of rows listed in the order of creation.\<close>

definition by_specificity :: "canonical_transaction \<Rightarrow> category_rule list \<Rightarrow> category_rule list" where
  "by_specificity t rules = sort_key (\<lambda>r. - int (cr_priority r)) (sort_key (scope_rank t) rules)"

definition rule_decision :: "category_source \<Rightarrow> category_rule option \<Rightarrow> category_decision option" where
  "rule_decision source found =
     map_option (\<lambda>r. \<lparr>cd_category = Some (cr_category r), cd_source = source, cd_source_id = Some (cr_id r)\<rparr>) found"

definition applies :: "rule_type \<Rightarrow> string \<Rightarrow> canonical_transaction \<Rightarrow> id \<Rightarrow> category_rule \<Rightarrow> bool" where
  "applies ty index t user r =
     (cr_user r = user \<and> cr_is_active r \<and> cr_type r = ty \<and> cr_pattern_index r = index \<and> scoped_to t r)"

definition user_rule :: "catalog \<Rightarrow> canonical_transaction \<Rightarrow> id \<Rightarrow> category_decision option" where
  "user_rule cg t user =
     (if tx_merchant_index t = [] then None
      else rule_decision USER_RULE (first_of (by_specificity t
             (filter (applies MERCHANT_EXACT (tx_merchant_index t) t user) (cg_rules cg)))))"

definition card_rule :: "catalog \<Rightarrow> canonical_transaction \<Rightarrow> id \<Rightarrow> category_decision option" where
  "card_rule cg t user =
     (if tx_payment_instrument t = None then None
      else rule_decision CARD_RULE (first_of (sort_key (\<lambda>r. - int (cr_priority r))
             (filter (\<lambda>r. cr_user r = user \<and> cr_is_active r \<and> cr_type r = RULE_PAYMENT_INSTRUMENT \<and>
                cr_instrument r = tx_payment_instrument t) (cg_rules cg)))))"

definition alias_rank :: "id option \<Rightarrow> merchant_alias \<Rightarrow> nat" where
  "alias_rank instrument a = (if ma_instrument a = instrument then 0 else 1)"

definition merchant_alias_decision :: "catalog \<Rightarrow> canonical_transaction \<Rightarrow> id \<Rightarrow> category_decision option" where
  "merchant_alias_decision cg t user =
     (if tx_merchant_index t = [] then None
      else map_option (\<lambda>a. \<lparr>cd_category = ma_category a, cd_source = MERCHANT_ALIAS, cd_source_id = Some (ma_id a)\<rparr>)
        (first_of (sort_key (alias_rank (tx_payment_instrument t))
           (filter (\<lambda>a. ma_user a = user \<and> ma_alias_index a = tx_merchant_index t \<and> ma_category a \<noteq> None \<and>
              (ma_instrument a = tx_payment_instrument t \<or> ma_instrument a = None)) (cg_aliases cg)))))"

definition counterparty_rule :: "catalog \<Rightarrow> canonical_transaction \<Rightarrow> id \<Rightarrow> category_decision option" where
  "counterparty_rule cg t user =
     (if tx_counterparty_index t = [] then None
      else rule_decision COUNTERPARTY_RULE (first_of (by_specificity t
             (filter (applies COUNTERPARTY_EXACT (tx_counterparty_index t) t user) (cg_rules cg)))))"

definition prior_confirmation :: "catalog \<Rightarrow> canonical_transaction \<Rightarrow> id \<Rightarrow> category_decision option" where
  "prior_confirmation cg t user =
     (if tx_merchant_index t = [] then None
      else map_option (\<lambda>p. \<lparr>cd_category = tx_category p, cd_source = PRIOR_CONFIRMATION, cd_source_id = Some (tx_id p)\<rparr>)
        (first_of (sort_key (\<lambda>p. - tx_occurred_at p) (rev
           (filter (\<lambda>p. tx_user p = user \<and> tx_merchant_index p = tx_merchant_index t \<and>
              tx_category_source p = source_value MANUAL_OVERRIDE \<and> tx_category p \<noteq> None \<and> tx_id p \<noteq> tx_id t)
            (transactions (cg_db cg)))))))"

definition resolvers :: "(catalog \<Rightarrow> canonical_transaction \<Rightarrow> id \<Rightarrow> category_decision option) list" where
  "resolvers = [user_rule, card_rule, merchant_alias_decision, counterparty_rule, prior_confirmation]"

fun first_decision ::
  "(catalog \<Rightarrow> canonical_transaction \<Rightarrow> id \<Rightarrow> category_decision option) list \<Rightarrow> catalog \<Rightarrow>
     canonical_transaction \<Rightarrow> id \<Rightarrow> category_decision option" where
  "first_decision [] cg t user = None"
| "first_decision (f # fs) cg t user =
     (case f cg t user of
        Some c \<Rightarrow> (if is_categorized c then Some c else first_decision fs cg t user)
      | None \<Rightarrow> first_decision fs cg t user)"

definition classify :: "catalog \<Rightarrow> canonical_transaction \<Rightarrow> id \<Rightarrow> category_decision" where
  "classify cg t user =
     (if tx_category_source t \<in> set USER_DECIDED
      then \<lparr>cd_category = tx_category t, cd_source = MANUAL_OVERRIDE, cd_source_id = Some (tx_id t)\<rparr>
      else (case first_decision resolvers cg t user of
              Some c \<Rightarrow> c
            | None \<Rightarrow>
                if tx_category t \<noteq> None
                then \<lparr>cd_category = tx_category t, cd_source = PARSER, cd_source_id = None\<rparr>
                else \<lparr>cd_category = None, cd_source = UNCATEGORIZED, cd_source_id = None\<rparr>))"

section \<open>Writing a category\<close>

definition with_category :: "id option \<Rightarrow> category_source \<Rightarrow> canonical_transaction \<Rightarrow> canonical_transaction" where
  "with_category c source t = t\<lparr>tx_category := c, tx_category_source := source_value source\<rparr>"

definition store_decision :: "canonical_transaction \<Rightarrow> category_decision \<Rightarrow> catalog \<Rightarrow> catalog \<times> bool" where
  "store_decision t c cg =
     (if tx_category t = cd_category c \<and> tx_category_source t = source_value (cd_source c) then (cg, False)
      else (cg\<lparr>cg_db := put_tx (with_category (cd_category c) (cd_source c) t) (cg_db cg)\<rparr>, True))"

definition categorize_transaction :: "id \<Rightarrow> id \<Rightarrow> catalog \<Rightarrow> (catalog \<times> category_decision) result" where
  "categorize_transaction k user cg =
     (case owned_tx (cg_db cg) k user of
        None \<Rightarrow> Inl InvalidRequestError
      | Some t \<Rightarrow>
          raise_if (tx_status t = CONFIRMED) ConflictError
          (let c = classify cg t user in
           case store_decision t c cg of (cg1, written) \<Rightarrow>
           if written \<and> is_categorized c
           then rbind (on_db (record_audit_event user CATEGORY_RULE_APPLIED (Some k)
                   [(''source'', MStr (source_value (cd_source c))),
                    (''source_id'', case cd_source_id c of None \<Rightarrow> MStr [] | Some i \<Rightarrow> MId i)]) cg1)
                  (\<lambda>cg2. Inr (cg2, c))
           else Inr (cg1, c)))"

definition category_owner :: "db \<Rightarrow> id \<Rightarrow> id option" where
  "category_owner d k = map_option cat_user (find_row cat_id (categories d) k)"

text \<open>\<open>_check_owned\<close> of rows the caller loaded, here by key.\<close>

definition check_category :: "db \<Rightarrow> id \<Rightarrow> id option \<Rightarrow> unit result" where
  "check_category d user c =
     (case c of None \<Rightarrow> Inr () | Some k \<Rightarrow> raise_if (category_owner d k \<noteq> Some user) InvalidRequestError (Inr ()))"

definition set_category_manually :: "id \<Rightarrow> id \<Rightarrow> id option \<Rightarrow> catalog \<Rightarrow> (catalog \<times> category_decision) result" where
  "set_category_manually k user c cg =
     (case owned_tx (cg_db cg) k user of
        None \<Rightarrow> Inl InvalidRequestError
      | Some t \<Rightarrow>
          rbind (check_category (cg_db cg) user c) (\<lambda>_.
          rbind (on_db (\<lambda>d. record_audit_event user CATEGORY_CHANGED (Some k)
                   [(''source'', MStr (source_value MANUAL_OVERRIDE)),
                    (''category_id'', case c of None \<Rightarrow> MStr [] | Some i \<Rightarrow> MId i)]
                   (put_tx (with_category c MANUAL_OVERRIDE t) d)) cg)
            (\<lambda>cg1. Inr (cg1, \<lparr>cd_category = c, cd_source = MANUAL_OVERRIDE, cd_source_id = Some k\<rparr>))))"

section \<open>Rules\<close>

definition COUNTERPARTY_RULE_TYPES :: "rule_type list" where
  "COUNTERPARTY_RULE_TYPES = [COUNTERPARTY_EXACT, COUNTERPARTY_CONTAINS]"

definition rule_pattern_index ::
  "(string \<Rightarrow> string result) \<Rightarrow> (string \<Rightarrow> string result) \<Rightarrow> rule_type \<Rightarrow> string \<Rightarrow> string result" where
  "rule_pattern_index merchant_index counterparty_index ty v =
     (if ty \<in> set COUNTERPARTY_RULE_TYPES then counterparty_index v else merchant_index v)"

definition rule_type_value :: "rule_type \<Rightarrow> string" where
  "rule_type_value ty = (case ty of MERCHANT_EXACT \<Rightarrow> ''merchant_exact'' | MERCHANT_CONTAINS \<Rightarrow> ''merchant_contains''
     | COUNTERPARTY_EXACT \<Rightarrow> ''counterparty_exact'' | COUNTERPARTY_CONTAINS \<Rightarrow> ''counterparty_contains''
     | RULE_PAYMENT_INSTRUMENT \<Rightarrow> ''payment_instrument'' | RULE_FINANCIAL_ACCOUNT \<Rightarrow> ''financial_account''
     | AMOUNT_RANGE \<Rightarrow> ''amount_range'')"

text \<open>\<open>full_clean\<close>: the index column may not be blank, and \<open>CategoryRule.clean\<close>.\<close>

definition rule_clean :: "db \<Rightarrow> category_rule \<Rightarrow> bool" where
  "rule_clean d r =
     (cr_pattern_index r \<noteq> [] \<and> length (cr_pattern_index r) \<le> 128 \<and>
      category_owner d (cr_category r) = Some (cr_user r) \<and>
      (case cr_instrument r of None \<Rightarrow> True | Some i \<Rightarrow> map_option pi_user (get_instrument d i) = Some (cr_user r)) \<and>
      (case cr_account r of None \<Rightarrow> True | Some a \<Rightarrow> map_option fa_user (get_account d a) = Some (cr_user r)))"

definition create_exact_merchant_rule ::
  "(string \<Rightarrow> string result) \<Rightarrow> (string \<Rightarrow> string result) \<Rightarrow> id \<Rightarrow> string \<Rightarrow> id \<Rightarrow> payment_instrument option \<Rightarrow>
     financial_account option \<Rightarrow> nat \<Rightarrow> catalog \<Rightarrow> (catalog \<times> category_rule) result" where
  "create_exact_merchant_rule merchant_index counterparty_index user merchant category instrument account priority cg =
     rbind (check_category (cg_db cg) user (Some category)) (\<lambda>_.
     raise_if (case instrument of None \<Rightarrow> False | Some p \<Rightarrow> pi_user p \<noteq> user) InvalidRequestError
     (raise_if (case account of None \<Rightarrow> False | Some a \<Rightarrow> fa_user a \<noteq> user) InvalidRequestError
     (rbind (rule_pattern_index merchant_index counterparty_index MERCHANT_EXACT merchant) (\<lambda>index.
      let d = cg_db cg;
          r = \<lparr>cr_id = next_id d, cr_user = user, cr_type = MERCHANT_EXACT, cr_pattern_index = index,
               cr_category = category, cr_instrument = map_option pi_id instrument, cr_account = map_option fa_id account,
               cr_priority = priority, cr_is_active = True, cr_disabled_at = None\<rparr> in
      raise_if (\<not> rule_clean d r) ValidationError
      (rbind (on_db (\<lambda>x. record_audit_event user CATEGORY_RULE_CREATED (Some (cr_id r))
                [(''rule_type'', MStr (rule_type_value MERCHANT_EXACT)), (''priority'', MInt (int priority))]
                (x\<lparr>next_id := Suc (next_id x)\<rparr>)) (cg\<lparr>cg_rules := cg_rules cg @ [r]\<rparr>))
         (\<lambda>cg1. Inr (cg1, r)))))))"

definition set_rule_active :: "int \<Rightarrow> id \<Rightarrow> id \<Rightarrow> bool \<Rightarrow> catalog \<Rightarrow> (catalog \<times> category_rule) result" where
  "set_rule_active now user k active cg =
     (case find_row cr_id (cg_rules cg) k of
        None \<Rightarrow> Inl InvalidRequestError
      | Some r \<Rightarrow>
          raise_if (cr_user r \<noteq> user) InvalidRequestError
          (if cr_is_active r = active then Inr (cg, r)
           else (let r1 = r\<lparr>cr_is_active := active, cr_disabled_at := (if active then None else Some now)\<rparr> in
                 rbind (on_db (record_audit_event user (if active then CATEGORY_RULE_ENABLED else CATEGORY_RULE_DISABLED)
                          (Some k) []) (cg\<lparr>cg_rules := put_row cr_id r1 (cg_rules cg)\<rparr>))
                   (\<lambda>cg1. Inr (cg1, r1)))))"

section \<open>From a correction to a rule\<close>

datatype rule_scope = TRANSACTION_ONLY | SCOPE_MERCHANT | MERCHANT_AND_CARD

definition scope_value :: "rule_scope \<Rightarrow> string" where
  "scope_value s = (case s of TRANSACTION_ONLY \<Rightarrow> ''transaction_only'' | SCOPE_MERCHANT \<Rightarrow> ''merchant''
     | MERCHANT_AND_CARD \<Rightarrow> ''merchant_and_card'')"

definition resolve_scope :: "string \<Rightarrow> rule_scope result" where
  "resolve_scope v =
     (case find (\<lambda>s. scope_value s = v) [TRANSACTION_ONLY, SCOPE_MERCHANT, MERCHANT_AND_CARD] of
        None \<Rightarrow> Inl InvalidRequestError | Some s \<Rightarrow> Inr s)"

record rule_preview =
  rp_scope :: rule_scope
  rp_pending :: nat
  rp_drafts :: nat
  rp_confirmed :: nat
  rp_manual :: nat

definition covered :: "canonical_transaction \<Rightarrow> id \<Rightarrow> rule_scope \<Rightarrow> canonical_transaction \<Rightarrow> bool" where
  "covered t user scope x =
     (tx_user x = user \<and> tx_merchant_index x = tx_merchant_index t \<and>
      (scope = MERCHANT_AND_CARD \<longrightarrow> tx_payment_instrument x = tx_payment_instrument t))"

definition matching_transactions ::
  "canonical_transaction \<Rightarrow> id \<Rightarrow> rule_scope \<Rightarrow> catalog \<Rightarrow> canonical_transaction list" where
  "matching_transactions t user scope cg = filter (covered t user scope) (transactions (cg_db cg))"

definition is_manual :: "canonical_transaction \<Rightarrow> bool" where
  "is_manual x = (tx_category_source x = source_value MANUAL_OVERRIDE)"

definition preview_rule :: "id \<Rightarrow> canonical_transaction \<Rightarrow> string \<Rightarrow> catalog \<Rightarrow> rule_preview result" where
  "preview_rule user t scope cg =
     rbind (resolve_scope scope) (\<lambda>resolved.
     if resolved = TRANSACTION_ONLY
     then Inr \<lparr>rp_scope = resolved, rp_pending = 0, rp_drafts = 0, rp_confirmed = 0, rp_manual = 0\<rparr>
     else raise_if (tx_merchant_index t = []) InvalidRequestError
      (raise_if (resolved = MERCHANT_AND_CARD \<and> tx_payment_instrument t = None) InvalidRequestError
      (let found = matching_transactions t user resolved cg in
       Inr \<lparr>rp_scope = resolved,
            rp_pending = length (filter (\<lambda>ob. ob_user ob = user \<and> ob_merchant_index ob = tx_merchant_index t \<and>
              ob_review_status ob = UNREVIEWED \<and>
              (resolved = MERCHANT_AND_CARD \<longrightarrow> ob_payment_instrument_guess ob = tx_payment_instrument t))
              (observations (cg_db cg))),
            rp_drafts = length (filter (\<lambda>x. tx_status x = DRAFT \<and> tx_id x \<noteq> tx_id t \<and> \<not> is_manual x) found),
            rp_confirmed = length (filter (\<lambda>x. tx_status x = CONFIRMED) found),
            rp_manual = length (filter is_manual found)\<rparr>)))"

text \<open>Each candidate as it was read; a row written counts.\<close>

definition reclassify :: "id \<Rightarrow> canonical_transaction \<Rightarrow> catalog \<times> nat \<Rightarrow> catalog \<times> nat" where
  "reclassify user x s =
     (case store_decision x (classify (fst s) x user) (fst s) of (cg1, written) \<Rightarrow>
      (cg1, snd s + (if written then 1 else 0)))"

definition apply_backwards :: "canonical_transaction \<Rightarrow> id \<Rightarrow> rule_scope \<Rightarrow> catalog \<Rightarrow> catalog \<times> nat" where
  "apply_backwards t user scope cg =
     foldl (\<lambda>s x. reclassify user x s) (cg, 0)
       (sort_key (\<lambda>x. - tx_occurred_at x)
         (rev (filter (\<lambda>x. tx_status x = DRAFT \<and> \<not> is_manual x) (matching_transactions t user scope cg))))"

record rule_creation_result =
  rc_scope :: rule_scope
  rc_rule :: "category_rule option"
  rc_reclassified :: nat

definition create_rule_from_correction ::
  "(string \<Rightarrow> string result) \<Rightarrow> (string \<Rightarrow> string result) \<Rightarrow> id \<Rightarrow> canonical_transaction \<Rightarrow> id \<Rightarrow> string \<Rightarrow> string \<Rightarrow>
     bool \<Rightarrow> catalog \<Rightarrow> (catalog \<times> rule_creation_result) result" where
  "create_rule_from_correction merchant_index counterparty_index user t category scope merchant existing cg =
     rbind (resolve_scope scope) (\<lambda>resolved.
     raise_if (tx_user t \<noteq> user) InvalidRequestError
     (rbind (set_category_manually (tx_id t) user (Some category) cg) (\<lambda>(cg1, c).
      if resolved = TRANSACTION_ONLY
      then Inr (cg1, \<lparr>rc_scope = resolved, rc_rule = None, rc_reclassified = 0\<rparr>)
      else raise_if (resolved = MERCHANT_AND_CARD \<and> tx_payment_instrument t = None) InvalidRequestError
       (rbind (create_exact_merchant_rule merchant_index counterparty_index user merchant category
                (if resolved = MERCHANT_AND_CARD
                 then Option.bind (tx_payment_instrument t) (get_instrument (cg_db cg1)) else None) None 0 cg1) (\<lambda>(cg2, r).
        rbind (on_db (record_audit_event user CATEGORY_RULE_CREATED (Some (cr_id r))
                [(''scope'', MStr (scope_value resolved)), (''source'', MStr ''review_correction''),
                 (''applied_to_existing'', MBool existing)]) cg2) (\<lambda>cg3.
        case (if existing then apply_backwards t user resolved cg3 else (cg3, 0)) of (cg4, n) \<Rightarrow>
        Inr (cg4, \<lparr>rc_scope = resolved, rc_rule = Some r, rc_reclassified = n\<rparr>)))))))"


section \<open>What the engine depends on\<close>

text \<open>
  The specification of the order: a source offers an answer when something the user wrote, or an earlier
  answer, covers the transaction. It says nothing of which of several rules speaks.
\<close>

definition alias_covers :: "canonical_transaction \<Rightarrow> id \<Rightarrow> merchant_alias \<Rightarrow> bool" where
  "alias_covers t user a =
     (ma_user a = user \<and> ma_alias_index a = tx_merchant_index t \<and> ma_category a \<noteq> None \<and>
      (ma_instrument a = tx_payment_instrument t \<or> ma_instrument a = None))"

definition answers :: "canonical_transaction \<Rightarrow> id \<Rightarrow> canonical_transaction \<Rightarrow> bool" where
  "answers t user p =
     (tx_user p = user \<and> tx_merchant_index p = tx_merchant_index t \<and> is_manual p \<and> tx_category p \<noteq> None \<and>
      tx_id p \<noteq> tx_id t)"

definition card_covers :: "canonical_transaction \<Rightarrow> id \<Rightarrow> category_rule \<Rightarrow> bool" where
  "card_covers t user r =
     (cr_user r = user \<and> cr_is_active r \<and> cr_type r = RULE_PAYMENT_INSTRUMENT \<and>
      cr_instrument r = tx_payment_instrument t)"

definition offers :: "catalog \<Rightarrow> canonical_transaction \<Rightarrow> id \<Rightarrow> category_source \<Rightarrow> bool" where
  "offers cg t user s = (case s of
     MANUAL_OVERRIDE \<Rightarrow> is_manual t
   | USER_RULE \<Rightarrow> tx_merchant_index t \<noteq> [] \<and>
       list_ex (applies MERCHANT_EXACT (tx_merchant_index t) t user) (cg_rules cg)
   | CARD_RULE \<Rightarrow> tx_payment_instrument t \<noteq> None \<and> list_ex (card_covers t user) (cg_rules cg)
   | MERCHANT_ALIAS \<Rightarrow> tx_merchant_index t \<noteq> [] \<and> list_ex (alias_covers t user) (cg_aliases cg)
   | COUNTERPARTY_RULE \<Rightarrow> tx_counterparty_index t \<noteq> [] \<and>
       list_ex (applies COUNTERPARTY_EXACT (tx_counterparty_index t) t user) (cg_rules cg)
   | PRIOR_CONFIRMATION \<Rightarrow> tx_merchant_index t \<noteq> [] \<and> list_ex (answers t user) (transactions (cg_db cg))
   | PARSER \<Rightarrow> tx_category t \<noteq> None
   | UNCATEGORIZED \<Rightarrow> True)"

lemma by_specificity_Nil [simp]: "by_specificity t rs = [] \<longleftrightarrow> rs = []"
  by (simp add: by_specificity_def)

lemma by_specificity_set [simp]: "set (by_specificity t rs) = set rs"
  by (simp add: by_specificity_def)

definition best_rule :: "canonical_transaction \<Rightarrow> (category_rule \<Rightarrow> bool) \<Rightarrow> category_rule list \<Rightarrow> category_rule \<Rightarrow> bool" where
  "best_rule t covers rules r =
     (r \<in> set rules \<and> covers r \<and>
      list_all (\<lambda>r'. covers r' \<longrightarrow> cr_priority r' < cr_priority r \<or>
        cr_priority r' = cr_priority r \<and> scope_rank t r \<le> scope_rank t r') rules)"

lemma by_specificity_best:
  assumes "first_of (by_specificity t (filter covers rules)) = Some r"
  shows "best_rule t covers rules r"
proof -
  have "r \<in> set (filter covers rules)" using first_of_in [OF assms] by simp
  moreover {
    fix r' assume r': "r' \<in> set rules" "covers r'"
    have le: "- int (cr_priority r) \<le> - int (cr_priority r')"
      by (rule first_of_sort [OF assms [unfolded by_specificity_def]]) (simp add: r')
    have "scope_rank t r \<le> scope_rank t r'" if "cr_priority r' = cr_priority r"
      by (rule first_of_sort_tie [OF assms [unfolded by_specificity_def]]) (simp_all add: r' that)
    then have "cr_priority r' < cr_priority r \<or> cr_priority r' = cr_priority r \<and> scope_rank t r \<le> scope_rank t r'"
      using le by auto }
  ultimately show ?thesis by (auto simp: best_rule_def list_all_iff)
qed

lemma user_rule_None: "user_rule cg t user = None \<longleftrightarrow> \<not> offers cg t user USER_RULE"
  by (simp add: user_rule_def offers_def rule_decision_def filter_empty_conv list_ex_iff)

lemma card_rule_None: "card_rule cg t user = None \<longleftrightarrow> \<not> offers cg t user CARD_RULE"
  by (auto simp: card_rule_def offers_def rule_decision_def filter_empty_conv list_ex_iff card_covers_def)

lemma alias_None: "merchant_alias_decision cg t user = None \<longleftrightarrow> \<not> offers cg t user MERCHANT_ALIAS"
  by (auto simp: merchant_alias_decision_def offers_def filter_empty_conv list_ex_iff alias_covers_def)

lemma counterparty_None: "counterparty_rule cg t user = None \<longleftrightarrow> \<not> offers cg t user COUNTERPARTY_RULE"
  by (simp add: counterparty_rule_def offers_def rule_decision_def filter_empty_conv list_ex_iff)

lemma prior_None: "prior_confirmation cg t user = None \<longleftrightarrow> \<not> offers cg t user PRIOR_CONFIRMATION"
  by (auto simp: prior_confirmation_def offers_def filter_empty_conv list_ex_iff answers_def is_manual_def)

lemmas resolver_None = user_rule_None card_rule_None alias_None counterparty_None prior_None

lemma rule_decision_Some:
  "rule_decision s f = Some c \<longleftrightarrow> (\<exists>r. f = Some r \<and> c = \<lparr>cd_category = Some (cr_category r), cd_source = s, cd_source_id = Some (cr_id r)\<rparr>)"
  by (auto simp: rule_decision_def)

lemma user_rule_Some:
  "user_rule cg t user = Some c \<Longrightarrow> cd_source c = USER_RULE \<and> is_categorized c \<and>
     (\<exists>r. best_rule t (applies MERCHANT_EXACT (tx_merchant_index t) t user) (cg_rules cg) r \<and>
        cd_category c = Some (cr_category r) \<and> cd_source_id c = Some (cr_id r))"
  by (auto simp: user_rule_def rule_decision_Some is_categorized_def split: if_splits dest!: by_specificity_best)

lemma counterparty_Some:
  "counterparty_rule cg t user = Some c \<Longrightarrow> cd_source c = COUNTERPARTY_RULE \<and> is_categorized c \<and>
     (\<exists>r. best_rule t (applies COUNTERPARTY_EXACT (tx_counterparty_index t) t user) (cg_rules cg) r \<and>
        cd_category c = Some (cr_category r) \<and> cd_source_id c = Some (cr_id r))"
  by (auto simp: counterparty_rule_def rule_decision_Some is_categorized_def split: if_splits dest!: by_specificity_best)

lemma card_rule_Some: "card_rule cg t user = Some c \<Longrightarrow> cd_source c = CARD_RULE \<and> is_categorized c"
  by (auto simp: card_rule_def rule_decision_Some is_categorized_def split: if_splits)

lemma alias_Some: "merchant_alias_decision cg t user = Some c \<Longrightarrow> cd_source c = MERCHANT_ALIAS \<and> is_categorized c"
  by (auto simp: merchant_alias_decision_def is_categorized_def split: if_splits dest!: first_of_in)

lemma prior_Some: "prior_confirmation cg t user = Some c \<Longrightarrow> cd_source c = PRIOR_CONFIRMATION \<and> is_categorized c"
  by (auto simp: prior_confirmation_def is_categorized_def split: if_splits dest!: first_of_in)

lemmas resolver_Some = user_rule_Some card_rule_Some alias_Some counterparty_Some prior_Some

lemma first_decision_resolvers:
  "first_decision resolvers cg t user =
     (case user_rule cg t user of Some c \<Rightarrow> Some c | None \<Rightarrow>
      case card_rule cg t user of Some c \<Rightarrow> Some c | None \<Rightarrow>
      case merchant_alias_decision cg t user of Some c \<Rightarrow> Some c | None \<Rightarrow>
      case counterparty_rule cg t user of Some c \<Rightarrow> Some c | None \<Rightarrow> prior_confirmation cg t user)"
  by (auto simp: resolvers_def split: option.splits dest: resolver_Some)

lemma user_decided [simp]: "s \<in> set USER_DECIDED \<longleftrightarrow> s = source_value MANUAL_OVERRIDE"
  by (simp add: USER_DECIDED_def)

lemma classify_manual:
  "is_manual t \<Longrightarrow> classify cg t user = \<lparr>cd_category = tx_category t, cd_source = MANUAL_OVERRIDE, cd_source_id = Some (tx_id t)\<rparr>"
  by (simp add: classify_def is_manual_def)

text \<open>The source named is that of the resolver that answered, and the earlier ones had nothing.\<close>

lemma classify_source: "cd_source (classify cg t user) = hd (filter (offers cg t user) PRECEDENCE)"
proof (cases "is_manual t")
  case True
  then show ?thesis by (simp add: classify_manual PRECEDENCE_def offers_def)
next
  case False
  have m: "\<not> offers cg t user MANUAL_OVERRIDE" "offers cg t user UNCATEGORIZED"
    "offers cg t user PARSER \<longleftrightarrow> tx_category t \<noteq> None"
    using False by (simp_all add: offers_def)
  have o: "offers cg t user USER_RULE \<longleftrightarrow> user_rule cg t user \<noteq> None"
    "offers cg t user CARD_RULE \<longleftrightarrow> card_rule cg t user \<noteq> None"
    "offers cg t user MERCHANT_ALIAS \<longleftrightarrow> merchant_alias_decision cg t user \<noteq> None"
    "offers cg t user COUNTERPARTY_RULE \<longleftrightarrow> counterparty_rule cg t user \<noteq> None"
    "offers cg t user PRIOR_CONFIRMATION \<longleftrightarrow> prior_confirmation cg t user \<noteq> None"
    by (simp_all only: resolver_None not_not)
  have "tx_category_source t \<noteq> source_value MANUAL_OVERRIDE" using False by (simp add: is_manual_def)
  then have d: "cd_source (classify cg t user) = (case first_decision resolvers cg t user of Some c \<Rightarrow> cd_source c
      | None \<Rightarrow> if tx_category t \<noteq> None then PARSER else UNCATEGORIZED)"
    by (simp add: classify_def split: option.splits)
  have s: "user_rule cg t user = Some x \<Longrightarrow> cd_source x = USER_RULE"
    "card_rule cg t user = Some x \<Longrightarrow> cd_source x = CARD_RULE"
    "merchant_alias_decision cg t user = Some x \<Longrightarrow> cd_source x = MERCHANT_ALIAS"
    "counterparty_rule cg t user = Some x \<Longrightarrow> cd_source x = COUNTERPARTY_RULE"
    "prior_confirmation cg t user = Some x \<Longrightarrow> cd_source x = PRIOR_CONFIRMATION" for x
    using resolver_Some by blast+
  show ?thesis unfolding d first_decision_resolvers PRECEDENCE_def
    by (cases "user_rule cg t user"; cases "card_rule cg t user"; cases "merchant_alias_decision cg t user";
        cases "counterparty_rule cg t user"; cases "prior_confirmation cg t user") (simp_all add: m o s)
qed


section \<open>Running the engine again\<close>

lemma with_category_fields [simp]:
  "tx_id (with_category c s t) = tx_id t" "tx_user (with_category c s t) = tx_user t"
  "tx_status (with_category c s t) = tx_status t" "tx_category (with_category c s t) = c"
  "tx_category_source (with_category c s t) = source_value s"
  "tx_merchant_index (with_category c s t) = tx_merchant_index t"
  "tx_counterparty_index (with_category c s t) = tx_counterparty_index t"
  "tx_payment_instrument (with_category c s t) = tx_payment_instrument t"
  "tx_financial_account (with_category c s t) = tx_financial_account t"
  "tx_occurred_at (with_category c s t) = tx_occurred_at t"
  "with_category c' s' (with_category c s t) = with_category c' s' t"
  by (simp_all add: with_category_def)

lemma with_own_category: "tx_category t = c \<Longrightarrow> tx_category_source t = source_value s \<Longrightarrow> with_category c s t = t"
  by (cases t) (simp add: with_category_def)

lemma source_value_inject [simp]: "source_value s = source_value s' \<longleftrightarrow> s = s'"
  by (cases s; cases s') (simp_all add: source_value_def)

lemma is_manual_with [simp]: "is_manual (with_category c s t) \<longleftrightarrow> s = MANUAL_OVERRIDE"
  by (simp add: is_manual_def)

lemma scope_with [simp]:
  "scoped_to (with_category c s t) = scoped_to t" "scope_rank (with_category c s t) = scope_rank t"
  "answers (with_category c s t) user = answers t user"
  by (simp_all add: scoped_to_def scope_rank_def answers_def fun_eq_iff)

lemma rules_with [simp]:
  "by_specificity (with_category c s t) = by_specificity t"
  "applies ty i (with_category c s t) user = applies ty i t user"
  by (simp_all add: by_specificity_def applies_def fun_eq_iff)

lemma prior_confirmation_answers:
  "prior_confirmation cg t user =
     (if tx_merchant_index t = [] then None
      else map_option (\<lambda>p. \<lparr>cd_category = tx_category p, cd_source = PRIOR_CONFIRMATION, cd_source_id = Some (tx_id p)\<rparr>)
        (first_of (sort_key (\<lambda>p. - tx_occurred_at p) (rev (filter (answers t user) (transactions (cg_db cg)))))))"
  by (simp add: prior_confirmation_def answers_def [abs_def] is_manual_def)

text \<open>
  The answer depends on the rules, the aliases and the user's own answers for the merchant; the category the
  row has now matters only when nobody answers.
\<close>

lemma first_decision_eqI:
  assumes "user_rule cg' t' user = user_rule cg t user" "card_rule cg' t' user = card_rule cg t user"
    "merchant_alias_decision cg' t' user = merchant_alias_decision cg t user"
    "counterparty_rule cg' t' user = counterparty_rule cg t user"
    "prior_confirmation cg' t' user = prior_confirmation cg t user"
  shows "first_decision resolvers cg' t' user = first_decision resolvers cg t user"
  unfolding first_decision_resolvers by (simp add: assms cong: option.case_cong)

lemma first_decision_cong:
  assumes "cg_rules cg' = cg_rules cg" "cg_aliases cg' = cg_aliases cg"
    and "filter (answers t user) (transactions (cg_db cg')) = filter (answers t user) (transactions (cg_db cg))"
  shows "first_decision resolvers cg' t user = first_decision resolvers cg t user"
    and "first_decision resolvers cg' (with_category c s t) user = first_decision resolvers cg t user"
  by (rule first_decision_eqI, simp_all add: user_rule_def card_rule_def merchant_alias_decision_def
      counterparty_rule_def prior_confirmation_answers assms)+

lemma classify_again:
  assumes "cg_rules cg' = cg_rules cg" "cg_aliases cg' = cg_aliases cg"
    and "filter (answers t user) (transactions (cg_db cg')) = filter (answers t user) (transactions (cg_db cg))"
    and "\<not> is_manual t" and "c = classify cg t user"
  shows "classify cg' (with_category (cd_category c) (cd_source c) t) user = c" and "cd_source c \<noteq> MANUAL_OVERRIDE"
proof -
  have n: "cd_source c \<noteq> MANUAL_OVERRIDE" using classify_source [of cg t user] assms(4)
    by (auto simp: assms(5) PRECEDENCE_def offers_def)
  then show "cd_source c \<noteq> MANUAL_OVERRIDE" .
  show "classify cg' (with_category (cd_category c) (cd_source c) t) user = c"
    using n assms(4) unfolding assms(5)
    by (simp add: classify_def first_decision_cong(2) [OF assms(1-3)] is_manual_def split: option.splits)
qed

lemma filter_put_row:
  "\<not> P r \<Longrightarrow> (\<And>y. y \<in> set xs \<Longrightarrow> pk y = pk r \<Longrightarrow> \<not> P y) \<Longrightarrow> filter P (put_row pk r xs) = filter P xs"
  by (induction xs) (auto simp: put_row_def)

lemma put_tx_answers:
  "tx_id x = tx_id t \<Longrightarrow> filter (answers t user) (transactions (put_tx x d)) = filter (answers t user) (transactions d)"
  by (simp add: put_tx_def) (rule filter_put_row, auto simp: answers_def)

lemma on_db_audit_Inr:
  "on_db (\<lambda>d. record_audit_event u e obj m (f d)) cg = Inr cg' \<longleftrightarrow>
     u \<in> set (users (f (cg_db cg))) \<and>
     cg' = cg\<lparr>cg_db := (f (cg_db cg))\<lparr>audits := audits (f (cg_db cg)) @ [\<lparr>au_user = u, au_event = e, au_object = obj, au_metadata = m\<rparr>]\<rparr>\<rparr>"
  by (auto simp: on_db_def record_audit_event_Inr)


lemma store_decision_cases:
  "store_decision t c cg = (cg1, w) \<Longrightarrow>
     (\<not> w \<and> cg1 = cg \<and> with_category (cd_category c) (cd_source c) t = t) \<or>
     (w \<and> cg1 = cg\<lparr>cg_db := put_tx (with_category (cd_category c) (cd_source c) t) (cg_db cg)\<rparr>)"
  by (auto simp: store_decision_def with_own_category split: if_splits)

lemma store_decision_settled:
  "fst (store_decision (with_category (cd_category c) (cd_source c) t) c cg) = cg"
  "snd (store_decision (with_category (cd_category c) (cd_source c) t) c cg) = False"
  by (simp_all add: store_decision_def)

lemma categorize_transaction_Inr:
  assumes "categorize_transaction k user cg = Inr (cg1, c)"
  obtains t where "get_tx (cg_db cg) k = Some t" "tx_user t = user" "tx_status t \<noteq> CONFIRMED" "c = classify cg t user"
    and "cg1 = cg \<and> with_category (cd_category c) (cd_source c) t = t \<or>
      (\<exists>a. cg1 = cg\<lparr>cg_db := (put_tx (with_category (cd_category c) (cd_source c) t) (cg_db cg))\<lparr>audits := audits (cg_db cg) @ a\<rparr>\<rparr>)"
proof -
  obtain t where t: "owned_tx (cg_db cg) k user = Some t"
    using assms by (cases "owned_tx (cg_db cg) k user") (auto simp: categorize_transaction_def)
  obtain cg2 w where w: "store_decision t (classify cg t user) cg = (cg2, w)" by fastforce
  have s: "tx_status t \<noteq> CONFIRMED" using assms t by (auto simp: categorize_transaction_def)
  have c: "c = classify cg t user"
    and e: "cg1 = cg2 \<or> (w \<and> (\<exists>a. cg1 = cg2\<lparr>cg_db := (cg_db cg2)\<lparr>audits := audits (cg_db cg2) @ a\<rparr>\<rparr>))"
    using assms by (auto simp: categorize_transaction_def t w s Let_def on_db_def record_audit_event_Inr split: if_splits)
  have "cg1 = cg \<and> with_category (cd_category c) (cd_source c) t = t \<or>
      (\<exists>a. cg1 = cg\<lparr>cg_db := (put_tx (with_category (cd_category c) (cd_source c) t) (cg_db cg))\<lparr>audits := audits (cg_db cg) @ a\<rparr>\<rparr>)"
  proof (cases w)
    case False
    then show ?thesis using store_decision_cases [OF w] e unfolding c by simp
  next
    case True
    then have g: "cg2 = cg\<lparr>cg_db := put_tx (with_category (cd_category c) (cd_source c) t) (cg_db cg)\<rparr>"
      using store_decision_cases [OF w] unfolding c by simp
    from e show ?thesis
    proof
      assume "cg1 = cg2"
      then show ?thesis unfolding g by (intro disjI2 exI [of _ "[]"]) simp
    next
      assume "w \<and> (\<exists>a. cg1 = cg2\<lparr>cg_db := (cg_db cg2)\<lparr>audits := audits (cg_db cg2) @ a\<rparr>\<rparr>)"
      then obtain a where "cg1 = cg2\<lparr>cg_db := (cg_db cg2)\<lparr>audits := audits (cg_db cg2) @ a\<rparr>\<rparr>" by blast
      then show ?thesis unfolding g by (intro disjI2 exI [of _ a]) simp
    qed
  qed
  then show thesis using that t s c by simp
qed

text \<open>
  Running the engine over a transaction a second time changes nothing and names the same source, and the
  first run touches no other row: at most this transaction's category and source, never when the user had
  answered, and the audit stream.
\<close>

theorem categorizing_twice_changes_nothing:
  assumes "categorize_transaction k user cg = Inr (cg1, c)"
  shows "categorize_transaction k user cg1 = Inr (cg1, c) \<and>
    (\<exists>t. get_tx (cg_db cg) k = Some t \<and> c = classify cg t user \<and>
      (cg1 = cg \<or> (\<not> is_manual t \<and> (\<exists>a. cg1 = cg\<lparr>cg_db :=
         (put_tx (with_category (cd_category c) (cd_source c) t) (cg_db cg))\<lparr>audits := audits (cg_db cg) @ a\<rparr>\<rparr>))))"
proof -
  obtain t where t: "get_tx (cg_db cg) k = Some t" "tx_user t = user" "tx_status t \<noteq> CONFIRMED"
    and c: "c = classify cg t user"
    and e: "cg1 = cg \<and> with_category (cd_category c) (cd_source c) t = t \<or>
      (\<exists>a. cg1 = cg\<lparr>cg_db := (put_tx (with_category (cd_category c) (cd_source c) t) (cg_db cg))\<lparr>audits := audits (cg_db cg) @ a\<rparr>\<rparr>)"
    by (rule categorize_transaction_Inr [OF assms])
  show ?thesis
  proof (cases "is_manual t")
    case True
    have "categorize_transaction k user cg = Inr (cg, classify cg t user)"
      using True t by (simp add: categorize_transaction_def owned_tx_def classify_manual store_decision_def is_manual_def)
    then have "cg1 = cg" using assms by simp
    then show ?thesis using assms t(1) c by simp
  next
    case False
    let ?t = "with_category (cd_category c) (cd_source c) t"
    have id: "tx_id t = k" using t(1) by (rule transaction_table.get_pk)
    have f: "cg_rules cg1 = cg_rules cg" "cg_aliases cg1 = cg_aliases cg"
      "filter (answers t user) (transactions (cg_db cg1)) = filter (answers t user) (transactions (cg_db cg))"
      "get_tx (cg_db cg1) k = Some ?t"
      using e t(1) get_tx_put [of "cg_db cg" ?t t k] by (auto simp: put_tx_answers id get_tx_def)
    have "classify cg1 ?t user = c" by (rule classify_again(1) [OF f(1-3) False c])
    then have "categorize_transaction k user cg1 = Inr (cg1, c)"
      using f(4) t(2,3) by (simp add: categorize_transaction_def owned_tx_def store_decision_def)
    then show ?thesis using t(1) c e False by blast
  qed
qed


section \<open>How far a correction reaches\<close>

lemma classify_cong:
  assumes "cg_rules cg' = cg_rules cg" "cg_aliases cg' = cg_aliases cg"
    and "filter (answers t user) (transactions (cg_db cg')) = filter (answers t user) (transactions (cg_db cg))"
  shows "classify cg' t user = classify cg t user"
  by (simp add: classify_def first_decision_cong(1) [OF assms])

lemma filter_put_row_out:
  "\<not> P r \<Longrightarrow> filter P (put_row pk r xs) = filter (\<lambda>x. pk x \<noteq> pk r \<and> P x) xs"
  by (induction xs) (auto simp: put_row_def)

lemma classify_not_manual: "\<not> is_manual t \<Longrightarrow> cd_source (classify cg t user) \<noteq> MANUAL_OVERRIDE"
  using classify_again(2) [of cg cg t user] by simp

text \<open>Writing the answer for one row that is not the user's own.\<close>

definition settled :: "catalog \<Rightarrow> id \<Rightarrow> canonical_transaction \<Rightarrow> canonical_transaction" where
  "settled cg user x = with_category (cd_category (classify cg x user)) (cd_source (classify cg x user)) x"

lemma reclassify_effect:
  assumes "reclassify user x (cg, n) = (cg1, m)" and "get_tx (cg_db cg) (tx_id x) = Some x"
    and "distinct (keys tx_id (transactions (cg_db cg)))" and "\<not> is_manual x"
  shows "cg1 = cg\<lparr>cg_db := (cg_db cg)\<lparr>transactions := transactions (cg_db cg1)\<rparr>\<rparr>"
    and "keys tx_id (transactions (cg_db cg1)) = keys tx_id (transactions (cg_db cg))"
    and "get_tx (cg_db cg1) k = (if k = tx_id x then Some (settled cg user x) else get_tx (cg_db cg) k)"
    and "filter (answers t u) (transactions (cg_db cg1)) = filter (answers t u) (transactions (cg_db cg))"
    and "m \<le> Suc n"
proof -
  obtain w where w: "store_decision x (classify cg x user) cg = (cg1, w)" and m: "m = n + (if w then 1 else 0)"
    using assms(1) by (auto simp: reclassify_def split: prod.splits)
  show "m \<le> Suc n" using m by simp
  have nm: "\<not> is_manual (settled cg user x)" using classify_not_manual [OF assms(4)] by (simp add: settled_def)
  have e: "cg1 = cg \<and> settled cg user x = x \<or> cg1 = cg\<lparr>cg_db := put_tx (settled cg user x) (cg_db cg)\<rparr>"
    using store_decision_cases [OF w] unfolding settled_def by blast
  have id: "tx_id (settled cg user x) = tx_id x" by (simp add: settled_def)
  show "cg1 = cg\<lparr>cg_db := (cg_db cg)\<lparr>transactions := transactions (cg_db cg1)\<rparr>\<rparr>"
    using e by (elim disjE) (simp_all add: put_tx_def)
  show "keys tx_id (transactions (cg_db cg1)) = keys tx_id (transactions (cg_db cg))"
    using e by (elim disjE) simp_all
  show "get_tx (cg_db cg1) k = (if k = tx_id x then Some (settled cg user x) else get_tx (cg_db cg) k)"
    using e assms(2) get_tx_put [of "cg_db cg" "settled cg user x" x k] by (elim disjE) (simp_all add: id)
  have "\<not> answers t u y" if "y \<in> set (transactions (cg_db cg))" "tx_id y = tx_id x" for y
  proof -
    have "y = x" using find_row_distinct [OF assms(3) that(1)] assms(2) that(2) by (simp add: get_tx_def)
    then show ?thesis using assms(4) by (simp add: answers_def)
  qed
  then have "filter (answers t u) (transactions (put_tx (settled cg user x) (cg_db cg))) = filter (answers t u) (transactions (cg_db cg))"
    using nm by (simp add: put_tx_def) (rule filter_put_row, auto simp: id answers_def)
  then show "filter (answers t u) (transactions (cg_db cg1)) = filter (answers t u) (transactions (cg_db cg))"
    using e by (elim disjE) simp_all
qed


lemma classify_reclassified:
  assumes "reclassify user x (cg, n) = (cg1, m)" and "get_tx (cg_db cg) (tx_id x) = Some x"
    and "distinct (keys tx_id (transactions (cg_db cg)))" and "\<not> is_manual x"
  shows "settled cg1 user y = settled cg user y"
proof -
  have "cg_rules cg1 = cg_rules cg" "cg_aliases cg1 = cg_aliases cg"
    using reclassify_effect(1) [OF assms] by (metis catalog.select_convs(2,3) catalog.surjective catalog.update_convs(1))+
  then show ?thesis
    using classify_cong [of cg1 cg y user] reclassify_effect(4) [OF assms] by (simp add: settled_def)
qed

lemma reclassify_all:
  assumes "foldl (\<lambda>s x. reclassify user x s) (cg, n) xs = (cg', m)"
    and "\<And>x. x \<in> set xs \<Longrightarrow> get_tx (cg_db cg) (tx_id x) = Some x \<and> \<not> is_manual x"
    and "distinct (map tx_id xs)" and "distinct (keys tx_id (transactions (cg_db cg)))"
  shows "cg' = cg\<lparr>cg_db := (cg_db cg)\<lparr>transactions := transactions (cg_db cg')\<rparr>\<rparr> \<and>
    (\<forall>k. get_tx (cg_db cg') k =
       (if k \<in> tx_id ` set xs then map_option (settled cg user) (get_tx (cg_db cg) k) else get_tx (cg_db cg) k)) \<and>
    (\<forall>y. settled cg' user y = settled cg user y) \<and> m \<le> n + length xs"
  using assms
proof (induction xs arbitrary: cg n)
  case Nil
  then show ?case by simp
next
  case (Cons x xs)
  obtain cg1 n1 where r: "reclassify user x (cg, n) = (cg1, n1)" by fastforce
  have x: "get_tx (cg_db cg) (tx_id x) = Some x" "\<not> is_manual x" using Cons.prems(2) by auto
  note e = reclassify_effect [OF r x(1) Cons.prems(4) x(2)] and s = classify_reclassified [OF r x(1) Cons.prems(4) x(2)]
  have f: "foldl (\<lambda>s x. reclassify user x s) (cg1, n1) xs = (cg', m)" using Cons.prems(1) r by simp
  have g: "get_tx (cg_db cg1) (tx_id y) = Some y \<and> \<not> is_manual y" if "y \<in> set xs" for y
  proof -
    have "tx_id y \<in> tx_id ` set xs" using that by (rule imageI)
    then have "tx_id y \<noteq> tx_id x" using Cons.prems(3) by auto
    then show ?thesis using Cons.prems(2) [of y] that by (simp add: e(3))
  qed
  have d: "distinct (keys tx_id (transactions (cg_db cg1)))" using Cons.prems(4) e(2) by simp
  have "distinct (map tx_id xs)" using Cons.prems(3) by simp
  from Cons.IH [OF f g this d] have i:
    "cg' = cg1\<lparr>cg_db := (cg_db cg1)\<lparr>transactions := transactions (cg_db cg')\<rparr>\<rparr>"
    "\<And>k. get_tx (cg_db cg') k = (if k \<in> tx_id ` set xs then map_option (settled cg1 user) (get_tx (cg_db cg1) k)
       else get_tx (cg_db cg1) k)"
    "\<And>y. settled cg' user y = settled cg1 user y" "m \<le> n1 + length xs" by blast+
  have "cg1\<lparr>cg_db := (cg_db cg1)\<lparr>transactions := ts\<rparr>\<rparr> = cg\<lparr>cg_db := (cg_db cg)\<lparr>transactions := ts\<rparr>\<rparr>" for ts
    by (subst e(1), subst e(1)) simp
  then have 1: "cg' = cg\<lparr>cg_db := (cg_db cg)\<lparr>transactions := transactions (cg_db cg')\<rparr>\<rparr>" using i(1) by metis
  have 2: "get_tx (cg_db cg') k = (if k \<in> tx_id ` set (x # xs) then map_option (settled cg user) (get_tx (cg_db cg) k)
       else get_tx (cg_db cg) k)" for k
    using Cons.prems(3) x(1) by (cases "k = tx_id x") (auto simp: i(2) e(3) s map_option_case cong: option.case_cong)
  have 3: "settled cg' user y = settled cg user y" for y by (simp add: i(3) s)
  have 4: "m \<le> n + length (x # xs)" using i(4) e(5) by simp
  show ?case using 1 2 3 4 by blast
qed


lemma set_category_manually_Inr:
  assumes "set_category_manually k user c cg = Inr (cg1, dc)"
  obtains t where "get_tx (cg_db cg) k = Some t" "tx_user t = user"
    "transactions (cg_db cg1) = put_row tx_id (with_category c MANUAL_OVERRIDE t) (transactions (cg_db cg))"
    "entries (cg_db cg1) = entries (cg_db cg)"
proof -
  obtain t where t: "owned_tx (cg_db cg) k user = Some t"
    using assms by (cases "owned_tx (cg_db cg) k user") (auto simp: set_category_manually_def)
  with assms show thesis
    by (intro that [of t]) (auto simp: set_category_manually_def on_db_def record_audit_event_Inr put_tx_def)
qed

lemma create_exact_keeps:
  assumes "create_exact_merchant_rule mi ci user merchant c instrument account priority cg = Inr (cg1, r)"
  shows "transactions (cg_db cg1) = transactions (cg_db cg)" "entries (cg_db cg1) = entries (cg_db cg)"
  using assms by (auto simp: create_exact_merchant_rule_def on_db_def record_audit_event_Inr Let_def)

text \<open>What creating the rule leaves before it reaches backwards.\<close>

lemma create_rule_Inr:
  assumes "create_rule_from_correction mi ci user t category scope merchant existing cg = Inr (cg', res)"
    and "get_tx (cg_db cg) (tx_id t) = Some t"
  obtains cg3 where "resolve_scope scope = Inr (rc_scope res)" "tx_user t = user"
    "transactions (cg_db cg3) = put_row tx_id (with_category (Some category) MANUAL_OVERRIDE t) (transactions (cg_db cg))"
    "entries (cg_db cg3) = entries (cg_db cg)"
    "(cg', rc_reclassified res) = (if existing \<and> rc_scope res \<noteq> TRANSACTION_ONLY
       then apply_backwards t user (rc_scope res) cg3 else (cg3, 0))"
proof -
  obtain sc where sc: "resolve_scope scope = Inr sc" using assms(1) by (auto simp: create_rule_from_correction_def)
  have u: "tx_user t = user" using assms(1) sc by (auto simp: create_rule_from_correction_def split: if_splits)
  obtain cg1 c where m: "set_category_manually (tx_id t) user (Some category) cg = Inr (cg1, c)"
    using assms(1) sc u by (auto simp: create_rule_from_correction_def)
  have 1: "transactions (cg_db cg1) = put_row tx_id (with_category (Some category) MANUAL_OVERRIDE t) (transactions (cg_db cg))"
    "entries (cg_db cg1) = entries (cg_db cg)"
    using set_category_manually_Inr [OF m] assms(2) by (metis option.inject)+
  show thesis
  proof (cases "sc = TRANSACTION_ONLY")
    case True
    then have "cg' = cg1" "rc_scope res = sc" "rc_reclassified res = 0"
      using assms(1) sc u m by (auto simp: create_rule_from_correction_def)
    then show thesis using that [of cg1] sc u 1 True by simp
  next
    case False
    obtain cg2 r cg3 where r: "create_exact_merchant_rule mi ci user merchant category
          (if sc = MERCHANT_AND_CARD then Option.bind (tx_payment_instrument t) (get_instrument (cg_db cg1)) else None)
          None 0 cg1 = Inr (cg2, r)"
      and a: "on_db (record_audit_event user CATEGORY_RULE_CREATED (Some (cr_id r))
                [(''scope'', MStr (scope_value sc)), (''source'', MStr ''review_correction''),
                 (''applied_to_existing'', MBool existing)]) cg2 = Inr cg3"
      and e: "(case (if existing then apply_backwards t user sc cg3 else (cg3, 0)) of (cg4, n) \<Rightarrow>
        Inr (cg4, \<lparr>rc_scope = sc, rc_rule = Some r, rc_reclassified = n\<rparr>)) = (Inr (cg', res) :: (catalog \<times> rule_creation_result) result)"
      using assms(1) sc u m False by (auto simp: create_rule_from_correction_def split: if_splits)
    have "transactions (cg_db cg3) = transactions (cg_db cg1)" "entries (cg_db cg3) = entries (cg_db cg1)"
      using create_exact_keeps [OF r] a by (auto simp: on_db_def record_audit_event_Inr)
    moreover have "rc_scope res = sc" "(cg', rc_reclassified res) = (if existing then apply_backwards t user sc cg3 else (cg3, 0))"
      using e by (auto split: prod.splits)
    ultimately show thesis using that [of cg3] sc u 1 False by simp
  qed
qed


lemma apply_backwards_effect:
  assumes "apply_backwards t user scope cg = (cg', n)" and "distinct (keys tx_id (transactions (cg_db cg)))"
    and "get_tx (cg_db cg) k = Some x"
  shows "get_tx (cg_db cg') k = Some (if tx_status x = DRAFT \<and> \<not> is_manual x \<and> covered t user scope x then settled cg' user x else x)"
    and "entries (cg_db cg') = entries (cg_db cg)"
    and "n \<le> length (filter (\<lambda>x. tx_status x = DRAFT \<and> \<not> is_manual x) (matching_transactions t user scope cg))"
proof -
  define xs where "xs = sort_key (\<lambda>x. - tx_occurred_at x)
    (rev (filter (\<lambda>x. tx_status x = DRAFT \<and> \<not> is_manual x) (matching_transactions t user scope cg)))"
  have f: "foldl (\<lambda>s x. reclassify user x s) (cg, 0) xs = (cg', n)" using assms(1) by (simp add: apply_backwards_def xs_def)
  have m: "y \<in> set xs \<longleftrightarrow> y \<in> set (transactions (cg_db cg)) \<and> covered t user scope y \<and> tx_status y = DRAFT \<and> \<not> is_manual y" for y
    by (auto simp: xs_def matching_transactions_def)
  have g: "get_tx (cg_db cg) (tx_id y) = Some y" if "y \<in> set (transactions (cg_db cg))" for y
    using find_row_distinct [OF assms(2) that] by (simp add: get_tx_def)
  have "inj_on tx_id (set xs)" using g m by (metis inj_onI option.inject)
  moreover have "distinct (transactions (cg_db cg))" using assms(2) by (simp add: keys_def distinct_map)
  then have "distinct xs" by (simp add: xs_def matching_transactions_def)
  ultimately have d: "distinct (map tx_id xs)" by (simp add: distinct_map)
  note r = reclassify_all [OF f _ d assms(2)]
  have all: "\<And>y. y \<in> set xs \<Longrightarrow> get_tx (cg_db cg) (tx_id y) = Some y \<and> \<not> is_manual y" using g m by blast
  have x: "x \<in> set (transactions (cg_db cg))" "tx_id x = k"
    using find_row_SomeD [of tx_id _ k x] assms(3) by (auto simp: get_tx_def)
  have "k \<in> tx_id ` set xs \<longleftrightarrow> x \<in> set xs"
  proof
    assume "k \<in> tx_id ` set xs"
    then obtain y where "y \<in> set xs" "tx_id y = k" by blast
    then show "x \<in> set xs" using all [of y] assms(3) by simp
  qed (use x in blast)
  then show "get_tx (cg_db cg') k = Some (if tx_status x = DRAFT \<and> \<not> is_manual x \<and> covered t user scope x then settled cg' user x else x)"
    using r [OF all] assms(3) x(1) by (simp add: m)
  have "cg' = cg\<lparr>cg_db := (cg_db cg)\<lparr>transactions := transactions (cg_db cg')\<rparr>\<rparr>" using r [OF all] by blast
  from arg_cong [OF this, of "\<lambda>c. entries (cg_db c)"] show "entries (cg_db cg') = entries (cg_db cg)" by simp
  show "n \<le> length (filter (\<lambda>x. tx_status x = DRAFT \<and> \<not> is_manual x) (matching_transactions t user scope cg))"
    using r [OF all] by (simp add: xs_def)
qed

text \<open>
  C31. A correction always lands on its own transaction, and reaches others only when asked to: then each draft
  in scope that the user had not answered is put where the engine puts it in the resulting database, every
  other transaction and every posting stays as it was, and no more rows move than the preview promised.
\<close>

theorem correction_reaches_drafts_only:
  assumes "create_rule_from_correction mi ci user t category scope merchant existing cg = Inr (cg', res)"
    and "get_tx (cg_db cg) (tx_id t) = Some t" and "distinct (keys tx_id (transactions (cg_db cg)))"
  shows "get_tx (cg_db cg') (tx_id t) = Some (with_category (Some category) MANUAL_OVERRIDE t) \<and>
    (\<forall>k x. k \<noteq> tx_id t \<and> get_tx (cg_db cg) k = Some x \<longrightarrow> get_tx (cg_db cg') k = Some
       (if existing \<and> rc_scope res \<noteq> TRANSACTION_ONLY \<and> tx_status x = DRAFT \<and> \<not> is_manual x \<and>
           covered t user (rc_scope res) x then settled cg' user x else x)) \<and>
    entries (cg_db cg') = entries (cg_db cg) \<and>
    (case preview_rule user t scope cg of Inr p \<Rightarrow> rc_reclassified res \<le> rp_drafts p | Inl e \<Rightarrow> True)"
proof -
  obtain cg3 where s: "resolve_scope scope = Inr (rc_scope res)" "tx_user t = user"
    and t3: "transactions (cg_db cg3) = put_row tx_id (with_category (Some category) MANUAL_OVERRIDE t) (transactions (cg_db cg))"
    and e3: "entries (cg_db cg3) = entries (cg_db cg)"
    and r: "(cg', rc_reclassified res) = (if existing \<and> rc_scope res \<noteq> TRANSACTION_ONLY
       then apply_backwards t user (rc_scope res) cg3 else (cg3, 0))"
    by (rule create_rule_Inr [OF assms(1,2)])
  have d: "distinct (keys tx_id (transactions (cg_db cg3)))" using assms(3) t3 by simp
  have g: "get_tx (cg_db cg3) k = (if k = tx_id t then Some (with_category (Some category) MANUAL_OVERRIDE t) else get_tx (cg_db cg) k)" for k
    using assms(2) find_row_put [of tx_id "with_category (Some category) MANUAL_OVERRIDE t"] by (simp add: get_tx_def t3)
  show ?thesis
  proof (cases "existing \<and> rc_scope res \<noteq> TRANSACTION_ONLY")
    case False
    then have "cg' = cg3" "rc_reclassified res = 0" using r by auto
    then show ?thesis using False g e3 by (auto split: sum.splits)
  next
    case True
    then have b: "apply_backwards t user (rc_scope res) cg3 = (cg', rc_reclassified res)" using r by simp
    note a = apply_backwards_effect [OF b d]
    have "filter (\<lambda>x. tx_status x = DRAFT \<and> \<not> is_manual x) (matching_transactions t user (rc_scope res) cg3) =
      filter (\<lambda>x. tx_status x = DRAFT \<and> tx_id x \<noteq> tx_id t \<and> \<not> is_manual x) (matching_transactions t user (rc_scope res) cg)"
      unfolding matching_transactions_def t3 filter_filter
      by (subst filter_put_row_out) (auto intro: filter_cong)
    then have n: "rp_drafts p = length (filter (\<lambda>x. tx_status x = DRAFT \<and> \<not> is_manual x) (matching_transactions t user (rc_scope res) cg3))"
      if "preview_rule user t scope cg = Inr p" for p
      using that s(1) True by (auto simp: preview_rule_def Let_def split: if_splits)
    have gt: "get_tx (cg_db cg3) (tx_id t) = Some (with_category (Some category) MANUAL_OVERRIDE t)" by (simp add: g)
    have 1: "get_tx (cg_db cg') (tx_id t) = Some (with_category (Some category) MANUAL_OVERRIDE t)"
      using a(1) [OF gt] by simp
    have 2: "get_tx (cg_db cg') k = Some (if tx_status x = DRAFT \<and> \<not> is_manual x \<and> covered t user (rc_scope res) x
        then settled cg' user x else x)" if "k \<noteq> tx_id t" "get_tx (cg_db cg) k = Some x" for k x
      by (rule a(1)) (simp add: g that)
    have 3: "entries (cg_db cg') = entries (cg_db cg)" using a(2) [OF gt] e3 by simp
    have 4: "case preview_rule user t scope cg of Inr p \<Rightarrow> rc_reclassified res \<le> rp_drafts p | Inl e \<Rightarrow> True"
      using a(3) [OF gt] n by (cases "preview_rule user t scope cg") auto
    show ?thesis using 1 2 3 4 True by simp
  qed
qed


section \<open>Where the order of scopes fails\<close>

lemma unscoped_rank: "tx_payment_instrument t = None \<Longrightarrow> applies ty i t user r \<Longrightarrow> scope_rank t r = 0"
  by (auto simp: applies_def scoped_to_def scope_rank_def)

lemma by_specificity_without_card:
  assumes "tx_payment_instrument t = None"
  shows "by_specificity t (filter (applies ty i t user) rules) = sort_key (\<lambda>r. - int (cr_priority r)) (filter (applies ty i t user) rules)"
proof -
  have "sorted (map (scope_rank t) (filter (applies ty i t user) rules))"
    using unscoped_rank [OF assms, of ty i user] by (induction rules) (auto simp: list_all_iff)
  then show ?thesis by (simp add: by_specificity_def sort_key_id_if_sorted)
qed

text \<open>
  For a transaction without a card the scope of a rule breaks no tie: the oldest rule of the highest
  priority speaks, a rule for everything ahead of a later one for this very account. The same transaction on
  a card no rule names follows a rule of that priority for its account, when there is one.
\<close>

theorem account_rule_loses_without_a_card:
  assumes "tx_payment_instrument t = None" and "tx_merchant_index t \<noteq> []"
    and "first_of (sort_key (\<lambda>r. - int (cr_priority r))
       (filter (applies MERCHANT_EXACT (tx_merchant_index t) t user) (cg_rules cg))) = Some r"
    and "\<forall>x \<in> set (cg_rules cg). cr_instrument x \<noteq> Some p"
    and "a \<in> set (cg_rules cg)" "applies MERCHANT_EXACT (tx_merchant_index t) t user a"
    and "cr_priority a = cr_priority r" "cr_account a = Some (tx_financial_account t)"
  shows "user_rule cg t user = Some \<lparr>cd_category = Some (cr_category r), cd_source = USER_RULE, cd_source_id = Some (cr_id r)\<rparr> \<and>
    (\<exists>r' :: category_rule. user_rule cg (t\<lparr>tx_payment_instrument := Some p\<rparr>) user =
        Some \<lparr>cd_category = Some (cr_category r'), cd_source = USER_RULE, cd_source_id = Some (cr_id r')\<rparr> \<and>
      cr_priority r' = cr_priority r \<and> cr_account r' = Some (tx_financial_account t))"
proof -
  let ?P = "applies MERCHANT_EXACT (tx_merchant_index t) t user" and ?t = "t\<lparr>tx_payment_instrument := Some p\<rparr>"
  have u: "user_rule cg t user = Some \<lparr>cd_category = Some (cr_category r), cd_source = USER_RULE, cd_source_id = Some (cr_id r)\<rparr>"
    using assms(2,3) by (simp add: user_rule_def by_specificity_without_card [OF assms(1)] rule_decision_def)
  have same: "applies MERCHANT_EXACT (tx_merchant_index t) ?t user x = ?P x" if "x \<in> set (cg_rules cg)" for x
    using assms(1,4) that by (auto simp: applies_def scoped_to_def)
  have fs: "filter (applies MERCHANT_EXACT (tx_merchant_index t) ?t user) (cg_rules cg) = filter ?P (cg_rules cg)"
    using same by (rule filter_cong [OF refl])
  have "filter ?P (cg_rules cg) \<noteq> []" using assms(5,6) by (auto simp: filter_empty_conv)
  then obtain r' where f: "first_of (by_specificity ?t (filter ?P (cg_rules cg))) = Some r'"
    by (cases "first_of (by_specificity ?t (filter ?P (cg_rules cg)))") auto
  have b: "best_rule ?t ?P (cg_rules cg) r'" by (rule by_specificity_best [OF f])
  have "cr_priority r' \<le> cr_priority r"
    using first_of_sort [OF assms(3), of r'] b by (simp add: best_rule_def)
  moreover have "cr_priority a < cr_priority r' \<or> cr_priority a = cr_priority r' \<and> scope_rank ?t r' \<le> scope_rank ?t a"
    using b assms(5,6) by (simp add: best_rule_def list_all_iff)
  ultimately have "cr_priority r' = cr_priority r" "scope_rank ?t r' \<le> scope_rank ?t a" using assms(7) by auto
  moreover have "scope_rank ?t a = 1" using assms(4,5,8) by (simp add: scope_rank_def)
  moreover have "scope_rank ?t r' \<noteq> 0" using b assms(4) by (auto simp: scope_rank_def best_rule_def)
  ultimately have "cr_priority r' = cr_priority r" "cr_account r' = Some (tx_financial_account t)"
    by (auto simp: scope_rank_def split: if_splits)
  moreover have "user_rule cg ?t user = Some \<lparr>cd_category = Some (cr_category r'), cd_source = USER_RULE, cd_source_id = Some (cr_id r')\<rparr>"
    using assms(2) by (simp add: user_rule_def fs f rule_decision_def)
  ultimately show ?thesis using u by blast
qed

text \<open>A category an earlier run took from a rule is called the parser's once no source speaks.\<close>

lemma unanswered_category_is_called_the_parsers:
  assumes "\<not> is_manual t" and "first_decision resolvers cg t user = None" and "tx_category t = Some k"
  shows "classify cg t user = \<lparr>cd_category = Some k, cd_source = PARSER, cd_source_id = None\<rparr>"
  using assms by (simp add: classify_def is_manual_def)


section \<open>Witnesses\<close>

definition sample_rule_for :: "id \<Rightarrow> id option \<Rightarrow> id \<Rightarrow> category_rule" where
  "sample_rule_for k account c = \<lparr>cr_id = k, cr_user = 1, cr_type = MERCHANT_EXACT, cr_pattern_index = ''m'',
     cr_category = c, cr_instrument = None, cr_account = account, cr_priority = 0, cr_is_active = True,
     cr_disabled_at = None\<rparr>"

definition sample_catalog :: catalog where
  "sample_catalog = \<lparr>cg_db = sample_db\<lparr>categories := [\<lparr>cat_id = 40, cat_user = 1, cat_parent = None, cat_is_system = False\<rparr>,
       \<lparr>cat_id = 41, cat_user = 1, cat_parent = None, cat_is_system = False\<rparr>]\<rparr>,
     cg_rules = [sample_rule_for 50 None 40, sample_rule_for 51 (Some 10) 41], cg_aliases = []\<rparr>"


theorem categorizing_twice_witness:
  "\<exists>cg1 c. categorize_transaction 31 1 sample_catalog = Inr (cg1, c) \<and> categorize_transaction 31 1 cg1 = Inr (cg1, c)"
proof -
  have "\<not> isl (categorize_transaction 31 1 sample_catalog)" by code_simp
  then obtain cg1 c where r: "categorize_transaction 31 1 sample_catalog = Inr (cg1, c)"
    by (cases "categorize_transaction 31 1 sample_catalog") auto
  then show ?thesis using categorizing_twice_changes_nothing [OF r] by blast
qed

theorem correction_reaches_witness:
  "\<exists>cg' res. create_rule_from_correction Inr Inr 1 sample_tx 41 ''merchant'' ''m'' True sample_catalog = Inr (cg', res) \<and>
     rc_reclassified res \<le> 1 \<and> get_tx (cg_db cg') 31 = Some (settled cg' 1 sample_draft)"
proof -
  let ?r = "create_rule_from_correction Inr Inr 1 sample_tx 41 ''merchant'' ''m'' True sample_catalog"
  have "\<not> isl ?r" by code_simp
  then obtain cg' res where r: "?r = Inr (cg', res)" by (cases ?r) auto
  have "map_sum id (\<lambda>(c, x). rc_scope x) ?r = Inr SCOPE_MERCHANT" by code_simp
  then have sc: "rc_scope res = SCOPE_MERCHANT" unfolding r by simp
  have g: "get_tx (cg_db sample_catalog) (tx_id sample_tx) = Some sample_tx"
    "get_tx (cg_db sample_catalog) 31 = Some sample_draft" "distinct (keys tx_id (transactions (cg_db sample_catalog)))" by code_simp+
  have p: "map_sum id rp_drafts (preview_rule 1 sample_tx ''merchant'' sample_catalog) = Inr 1" by code_simp
  have c: "tx_id sample_tx \<noteq> 31" "tx_status sample_draft = DRAFT" "\<not> is_manual sample_draft"
    "covered sample_tx 1 SCOPE_MERCHANT sample_draft" by code_simp+
  note t = correction_reaches_drafts_only [OF r g(1,3)]
  have "get_tx (cg_db cg') 31 = Some (settled cg' 1 sample_draft)" using t g(2) c sc by simp
  moreover have "rc_reclassified res \<le> 1"
    using t p by (cases "preview_rule 1 sample_tx ''merchant'' sample_catalog") auto
  ultimately show ?thesis using r by blast
qed

theorem account_rule_loses_witness:
  "map_option cd_category (user_rule sample_catalog sample_draft 1) = Some (Some 40) \<and>
   map_option cd_category (user_rule sample_catalog (sample_draft\<lparr>tx_payment_instrument := Some 60\<rparr>) 1) = Some (Some 41)"
proof -
  have h: "tx_payment_instrument sample_draft = None" "tx_merchant_index sample_draft \<noteq> []"
    "first_of (sort_key (\<lambda>r. - int (cr_priority r))
       (filter (applies MERCHANT_EXACT (tx_merchant_index sample_draft) sample_draft 1) (cg_rules sample_catalog))) =
         Some (sample_rule_for 50 None 40)"
    "\<forall>x \<in> set (cg_rules sample_catalog). cr_instrument x \<noteq> Some 60"
    "sample_rule_for 51 (Some 10) 41 \<in> set (cg_rules sample_catalog)"
    "applies MERCHANT_EXACT (tx_merchant_index sample_draft) sample_draft 1 (sample_rule_for 51 (Some 10) 41)"
    "cr_priority (sample_rule_for 51 (Some 10) 41) = cr_priority (sample_rule_for 50 None 40)"
    "cr_account (sample_rule_for 51 (Some 10) 41) = Some (tx_financial_account sample_draft)" by code_simp+
  have "map_option cd_category (user_rule sample_catalog (sample_draft\<lparr>tx_payment_instrument := Some 60\<rparr>) 1) = Some (Some 41)"
    by code_simp
  then show ?thesis using account_rule_loses_without_a_card [OF h] by (simp add: sample_rule_for_def)
qed

text \<open>Disabling the only rule that applies leaves its category under the parser's name.\<close>

lemma disabled_rule_becomes_the_parsers:
  "map_sum id (map_option (\<lambda>t. (tx_category t, tx_category_source t)))
     (rbind (categorize_transaction 31 1 (sample_catalog\<lparr>cg_rules := [sample_rule_for 50 None 40]\<rparr>)) (\<lambda>(cg1, c).
      rbind (set_rule_active 900 1 50 False cg1) (\<lambda>(cg2, r).
      rbind (categorize_transaction 31 1 cg2) (\<lambda>(cg3, e). Inr (get_tx (cg_db cg3) 31))))) =
   Inr (Some (Some 40, ''parser''))"
  by code_simp

end
