(* ===== verification/Import.thy ===== *)
theory Import
  imports Review
begin

text \<open>
  From parser output to stored rows: the contracts and the registry of parsers
  (\<open>apps/parsing/contracts.py\<close>, \<open>registry.py\<close>) and the import (\<open>apps/observations/services.py\<close>). The parsers
  themselves, the normal form of a merchant, the keyed indexes, the digest of an origin and Python's
  \<open>float\<close> on text are arguments. Confidences are rationals.
\<close>

section \<open>What a parser says\<close>

datatype parsed_direction = PARSED_DEBIT | PARSED_CREDIT | PARSED_UNKNOWN

text \<open>A confidence factor is a number, a flag or a word.\<close>

datatype factor = FNumber rat | FFlag bool | FWord string

record parsed_observation =
  po_occurred_on :: "int option"
  po_amount :: "decimal option"
  po_currency :: "string option"
  po_direction :: "parsed_direction option"
  po_merchant :: "string option"
  po_counterparty :: "string option"
  po_balance_after :: "decimal option"
  po_factors :: "(string \<times> factor) list"
  po_missing :: "string list"
  po_ambiguous :: "string list"
  po_approval_code :: "string option"
  po_installment_months :: "nat option"
  po_is_settlement :: bool
  po_output_version :: nat
  po_parser_name :: string
  po_parser_version :: string
  po_support_score :: rat

text \<open>\<open>x or ""\<close> of an optional text.\<close>

definition or_empty :: "string option \<Rightarrow> string" where
  "or_empty x = (case x of None \<Rightarrow> [] | Some s \<Rightarrow> s)"

definition po_post_init :: "parsed_observation \<Rightarrow> parsed_observation result" where
  "po_post_init p =
     raise_if (po_output_version p < 1) ValueError
     (raise_if (\<not> in_unit (po_support_score p)) ValueError
     (raise_if (case po_installment_months p of None \<Rightarrow> False | Some n \<Rightarrow> n < 1) ValueError (Inr p)))"

text \<open>An error of \<open>Money.from_decimal\<close> that is not \<open>InvalidMoneyError\<close> escapes.\<close>

definition po_amount_minor :: "parsed_observation \<Rightarrow> int option result" where
  "po_amount_minor p =
     (case (po_amount p, po_currency p) of
        (Some a, Some c) \<Rightarrow>
          (case from_decimal (Some a) c of
             Inr m \<Rightarrow> Inr (Some (amount_minor m))
           | Inl e \<Rightarrow> if e = InvalidMoneyError then Inr None else Inl e)
      | _ \<Rightarrow> Inr None)"

definition blocks_automatic_confirmation :: "parsed_observation \<Rightarrow> bool" where
  "blocks_automatic_confirmation p =
     (po_missing p \<noteq> [] \<or> po_ambiguous p \<noteq> [] \<or> po_direction p = None \<or> po_direction p = Some PARSED_UNKNOWN)"

section \<open>The registry\<close>

record parser_support =
  su_score :: rat
  su_source_type :: string

record parser_metadata =
  pm_name :: string
  pm_version :: string

record parsed_statement =
  sm_total_minor :: int
  sm_currency :: string
  sm_summary :: parsed_observation
  sm_line_items :: "parsed_observation list"

record parsed_card_payment =
  cp_issuer :: string
  cp_amount_minor :: int
  cp_currency :: string
  cp_summary :: parsed_observation

text \<open>A parser reads a document \<open>'d\<close> and its tokens \<open>'t\<close>; the two builders are optional methods.\<close>

record ('d, 't) screenshot_parser =
  sp_metadata :: parser_metadata
  sp_supports :: "'d \<Rightarrow> 't list \<Rightarrow> parser_support"
  sp_parse :: "'d \<Rightarrow> 't list \<Rightarrow> parsed_observation list"
  sp_build_statement :: "('d \<Rightarrow> parsed_observation list \<Rightarrow> parsed_statement option) option"
  sp_build_card_payment :: "(parsed_observation list \<Rightarrow> parsed_card_payment option) option"

definition sp_name :: "('d, 't) screenshot_parser \<Rightarrow> string" where
  "sp_name p = pm_name (sp_metadata p)"

record ('d, 't) parser_registry =
  pg_generic :: "('d, 't) screenshot_parser"
  pg_others :: "('d, 't) screenshot_parser list"

definition registered :: "('d, 't) parser_registry \<Rightarrow> ('d, 't) screenshot_parser list" where
  "registered r = pg_generic r # pg_others r"

definition register ::
  "('d, 't) screenshot_parser \<Rightarrow> ('d, 't) parser_registry \<Rightarrow> ('d, 't) parser_registry result" where
  "register p r =
     raise_if (sp_name p \<in> set (map sp_name (registered r))) ValueError (Inr (r\<lparr>pg_others := pg_others r @ [p]\<rparr>))"

text \<open>\<open>parsers()\<close>: by name.\<close>

definition parsers :: "('d, 't) parser_registry \<Rightarrow> ('d, 't) screenshot_parser list" where
  "parsers r = sort_key sp_name (registered r)"

text \<open>The smallest of \<open>(-score, name, version)\<close>, the first of equals: three stable sorts.\<close>

definition ranked ::
  "(parser_support \<times> ('d, 't) screenshot_parser) list \<Rightarrow> (parser_support \<times> ('d, 't) screenshot_parser) list" where
  "ranked xs = sort_key (\<lambda>x. - su_score (fst x)) (sort_key (\<lambda>x. sp_name (snd x))
     (sort_key (\<lambda>x. pm_version (sp_metadata (snd x))) xs))"

definition supported ::
  "('d, 't) parser_registry \<Rightarrow> 'd \<Rightarrow> 't list \<Rightarrow> (parser_support \<times> ('d, 't) screenshot_parser) list" where
  "supported r doc tokens =
     filter (\<lambda>x. 0 < su_score (fst x)) (map (\<lambda>p. (sp_supports p doc tokens, p)) (pg_others r))"

text \<open>
  The name given by hand is \<open>[]\<close> when there is none; None is \<open>ParserSelectionError\<close>, the one exception here.
\<close>

definition select_parser ::
  "('d, 't) parser_registry \<Rightarrow> string \<Rightarrow> 'd \<Rightarrow> 't list \<Rightarrow> (('d, 't) screenshot_parser \<times> parser_support) option" where
  "select_parser r override doc tokens =
     (if override \<noteq> []
      then map_option (\<lambda>p. (p, sp_supports p doc tokens)) (find (\<lambda>p. sp_name p = override) (registered r))
      else (case first_of (ranked (supported r doc tokens)) of
              None \<Rightarrow> Some (pg_generic r, sp_supports (pg_generic r) doc tokens)
            | Some (support, p) \<Rightarrow> Some (p, support)))"

record parser_selection =
  ps_metadata :: parser_metadata
  ps_support :: parser_support
  ps_observations :: "parsed_observation list"
  ps_statement :: "parsed_statement option"
  ps_card_payment :: "parsed_card_payment option"

text \<open>\<open>replace(observation, parser_name=..., ...)\<close> for each row a parser yields.\<close>

definition stamped ::
  "('d, 't) screenshot_parser \<Rightarrow> parser_support \<Rightarrow> 'd \<Rightarrow> 't list \<Rightarrow> parsed_observation list" where
  "stamped p support doc tokens =
     map (\<lambda>ob. ob\<lparr>po_parser_name := sp_name p, po_parser_version := pm_version (sp_metadata p),
                  po_support_score := su_score support\<rparr>) (sp_parse p doc tokens)"

definition fall_back ::
  "('d, 't) parser_registry \<Rightarrow> 'd \<Rightarrow> 't list \<Rightarrow> ('d, 't) screenshot_parser \<times> parser_support \<times> parsed_observation list" where
  "fall_back r doc tokens =
     (let p = pg_generic r; support = sp_supports p doc tokens in (p, support, stamped p support doc tokens))"

definition parse_document ::
  "('d, 't) parser_registry \<Rightarrow> string \<Rightarrow> 'd \<Rightarrow> 't list \<Rightarrow> parser_selection option" where
  "parse_document r override doc tokens =
     (case select_parser r override doc tokens of
        None \<Rightarrow> None
      | Some (p0, support0) \<Rightarrow>
          let obs0 = stamped p0 support0 doc tokens;
              statement = (if su_source_type support0 = ''credit_card_statement''
                           then Option.bind (sp_build_statement p0) (\<lambda>b. b doc obs0) else None);
              (p1, support1, obs1) =
                (if su_source_type support0 = ''credit_card_statement''
                 then (case statement of None \<Rightarrow> fall_back r doc tokens | Some s \<Rightarrow> (p0, support0, sm_line_items s))
                 else (p0, support0, obs0));
              payment = (if su_source_type support1 = ''credit_card_payment''
                         then Option.bind (sp_build_card_payment p1) (\<lambda>b. b obs1) else None);
              (p2, support2, obs2) =
                (if su_source_type support1 = ''credit_card_payment'' \<and> payment = None
                 then fall_back r doc tokens else (p1, support1, obs1))
          in Some \<lparr>ps_metadata = sp_metadata p2, ps_support = support2, ps_observations = obs2,
                   ps_statement = statement, ps_card_payment = payment\<rparr>)"

section \<open>Building a row\<close>

definition row_direction :: "parsed_direction option \<Rightarrow> direction" where
  "row_direction v = (case v of Some PARSED_DEBIT \<Rightarrow> DIR_DEBIT | Some PARSED_CREDIT \<Rightarrow> DIR_CREDIT | _ \<Rightarrow> DIR_UNKNOWN)"

text \<open>The column holds \<open>minor:CODE\<close>; here it is the amount a reader gets from it.\<close>

definition money_plaintext :: "parsed_observation \<Rightarrow> money option result" where
  "money_plaintext p =
     rbind (po_amount_minor p) (\<lambda>minor.
     case minor of
       None \<Rightarrow> Inr None
     | Some n \<Rightarrow> if or_empty (po_currency p) = [] then Inr None
         else rbind (Currency (or_empty (po_currency p))) (\<lambda>c. Inr (Some \<lparr>amount_minor = n, currency = c\<rparr>)))"

definition balance_plaintext :: "parsed_observation \<Rightarrow> money option result" where
  "balance_plaintext p =
     (if po_balance_after p = None \<or> or_empty (po_currency p) = [] then Inr None
      else rbind (Currency (or_empty (po_currency p))) (\<lambda>c. rbind (from_decimal (po_balance_after p) c) (\<lambda>m. Inr (Some m))))"

definition factor_of :: "parsed_observation \<Rightarrow> string \<Rightarrow> factor option" where
  "factor_of p name = map_of (po_factors p) name"

fun truthy :: "factor option \<Rightarrow> bool" where
  "truthy None = False"
| "truthy (Some (FNumber x)) = (x \<noteq> 0)"
| "truthy (Some (FFlag b)) = b"
| "truthy (Some (FWord w)) = (w \<noteq> [])"

definition review_flags :: "parsed_observation \<Rightarrow> string list" where
  "review_flags p =
     sort (remdups (
       map (\<lambda>n. ''missing_'' @ n) (sort (po_missing p)) @
       map (\<lambda>n. ''ambiguous_'' @ n) (sort (po_ambiguous p)) @
       (if po_direction p = None \<or> po_direction p = Some PARSED_UNKNOWN then [''unknown_direction''] else []) @
       (if factor_of p ''balance_status'' = Some (FWord ''invalid'') then [''balance_mismatch''] else []) @
       (if truthy (factor_of p ''institution_fallback'') then [''parser_fallback''] else []) @
       (if truthy (factor_of p ''parser_error'') then [''parser_error''] else []) @
       (if truthy (factor_of p ''degraded_ocr'') then [''degraded_ocr''] else []) @
       (if po_is_settlement p then [''settlement_candidate''] else [])))"

fun as_float :: "(string \<Rightarrow> rat option) \<Rightarrow> factor option \<Rightarrow> rat" where
  "as_float parse None = 0"
| "as_float parse (Some (FNumber x)) = x"
| "as_float parse (Some (FFlag b)) = (if b then 1 else 0)"
| "as_float parse (Some (FWord w)) = (case parse w of None \<Rightarrow> 0 | Some x \<Rightarrow> x)"

definition clamp :: "rat \<Rightarrow> rat" where
  "clamp x = max 0 (min 1 x)"

definition field_scores :: "(string \<Rightarrow> rat option) \<Rightarrow> parsed_observation \<Rightarrow> rat list" where
  "field_scores parse p =
     map (\<lambda>n. as_float parse (factor_of p n))
       (filter (\<lambda>n. factor_of p n \<noteq> None) [''date_confidence'', ''amount_confidence'', ''direction_confidence''])"

definition confidences :: "(string \<Rightarrow> rat option) \<Rightarrow> parsed_observation \<Rightarrow> rat \<times> rat \<times> rat" where
  "confidences parse p =
     (let ocr = as_float parse (factor_of p ''token_confidence'');
          scores = field_scores parse p;
          parser = (if scores = [] then po_support_score p else sum_list scores / of_nat (length scores));
          overall = (if ocr \<noteq> 0 \<and> parser \<noteq> 0 then min ocr parser else max ocr parser)
      in (clamp ocr, clamp parser, clamp overall))"

text \<open>The origin of a row: \<open>str(value or "")\<close> of each part, joined and digested.\<close>

definition id_text :: "nat \<Rightarrow> string" where
  "id_text n = (if n = 0 then [] else show_nat n)"

definition import_identity :: "id \<Rightarrow> id option \<Rightarrow> string \<Rightarrow> string \<Rightarrow> nat \<Rightarrow> nat \<Rightarrow> string" where
  "import_identity document run name version output_version row_index =
     concat (map (\<lambda>part. part @ [CHR 0x1F])
       [show_nat document, (case run of None \<Rightarrow> [] | Some r \<Rightarrow> show_nat r), name, version, id_text output_version]) @
     id_text row_index"

definition import_key :: "(string \<Rightarrow> string) \<Rightarrow> imported_observation \<Rightarrow> string" where
  "import_key digest ob =
     digest (import_identity (ob_source_document ob) (ob_ocr_run ob) (ob_parser_name ob) (ob_parser_version ob)
       (ob_parser_output_version ob) (ob_row_index ob))"

record ocr_run_row =
  orn_id :: id
  orn_user :: id

definition build_row ::
  "(string \<Rightarrow> rat option) \<Rightarrow> id \<Rightarrow> source_document \<Rightarrow> ocr_run_row option \<Rightarrow> parsed_observation \<Rightarrow> nat \<Rightarrow> imported_observation" where
  "build_row parse new_id doc run p row_index =
     (case confidences parse p of (ocr, parser, overall) \<Rightarrow>
      let flags = review_flags p in
      project_flags flags
        \<lparr>ob_id = new_id, ob_user = doc_user doc, ob_source_document = doc_id doc, ob_ocr_run = map_option orn_id run,
         ob_row_index = row_index, ob_financial_account_guess = None, ob_payment_instrument_guess = None,
         ob_category_guess = None, ob_occurred_at = po_occurred_on p, ob_posted_at = None, ob_merchant_raw = [],
         ob_merchant_normalized = [], ob_merchant_index = [], ob_counterparty_raw = [], ob_amount = None,
         ob_currency = upper (or_empty (po_currency p)), ob_direction = row_direction (po_direction p),
         ob_balance_after = None, ob_approval_index = [], ob_installment_months = po_installment_months p,
         ob_type_guess = (if po_is_settlement p then T_CREDIT_CARD_PAYMENT else T_UNKNOWN),
         ob_ocr_confidence = ocr, ob_parser_confidence = parser, ob_overall_confidence = overall,
         ob_parser_name = po_parser_name p, ob_parser_version = po_parser_version p,
         ob_parser_output_version = po_output_version p, ob_review_flags = flags,
         ob_requires_review = (flags \<noteq> [] \<or> truthy (factor_of p ''requires_review'')),
         ob_amount_uncertain = False, ob_balance_mismatched = False, ob_has_missing_fields = False,
         ob_is_settlement_candidate = False, ob_risk_score = fst (score_flags flags overall False),
         ob_review_status = UNREVIEWED, ob_reviewed_by = None, ob_reviewed_at = None, ob_corrected_fields = [],
         ob_canonical = None, ob_merged_into = None\<rparr>)"

text \<open>\<open>full_clean(exclude=["merged_into"])\<close>: the fields, \<open>clean\<close> and the unique origins.\<close>

definition import_fields_ok :: "db \<Rightarrow> imported_observation \<Rightarrow> bool" where
  "import_fields_ok d ob =
     (ob_user ob \<in> set (users d) \<and> int (ob_row_index ob) \<le> 2147483647 \<and> length (ob_currency ob) \<le> 3 \<and>
      length (ob_parser_name ob) \<le> 64 \<and> length (ob_parser_version ob) \<le> 32 \<and>
      int (ob_parser_output_version ob) \<le> 32767 \<and>
      (case ob_installment_months ob of None \<Rightarrow> True | Some n \<Rightarrow> int n \<le> 32767))"

definition same_run_row :: "imported_observation \<Rightarrow> imported_observation \<Rightarrow> bool" where
  "same_run_row x ob =
     (ob_ocr_run ob \<noteq> None \<and> ob_ocr_run x = ob_ocr_run ob \<and> ob_parser_name x = ob_parser_name ob \<and>
      ob_parser_version x = ob_parser_version ob \<and> ob_row_index x = ob_row_index ob)"

definition origin_taken :: "(string \<Rightarrow> string) \<Rightarrow> imported_observation list \<Rightarrow> imported_observation \<Rightarrow> bool" where
  "origin_taken digest rows ob = list_ex (\<lambda>x. import_key digest x = import_key digest ob \<or> same_run_row x ob) rows"

definition import_full_clean :: "(string \<Rightarrow> string) \<Rightarrow> db \<Rightarrow> imported_observation \<Rightarrow> imported_observation result" where
  "import_full_clean digest d ob =
     rbind (ob_clean d ob) (\<lambda>ob1.
     raise_if (\<not> import_fields_ok d ob \<or> origin_taken digest (observations d) ob1) ValidationError (Inr ob1))"

text \<open>
  \<open>_encrypt_fields\<close>: the values a reader gets back. \<open>search\<close> holds the two indexes when the search key is
  given.
\<close>

definition normalized_merchant :: "(string \<Rightarrow> string result) \<Rightarrow> string \<Rightarrow> string result" where
  "normalized_merchant reduce m =
     (if m = [] then Inr []
      else (case reduce m of
              Inr n \<Rightarrow> Inr n
            | Inl e \<Rightarrow> if e = InvalidRequestError then Inr [] else Inl e))"

definition filled ::
  "parsed_observation \<Rightarrow> string \<Rightarrow> string \<times> string \<Rightarrow> money option \<Rightarrow> money option \<Rightarrow> imported_observation \<Rightarrow> imported_observation" where
  "filled p normalized index amount balance ob =
     ob\<lparr>ob_merchant_raw := or_empty (po_merchant p), ob_merchant_normalized := normalized, ob_merchant_index := fst index,
        ob_counterparty_raw := or_empty (po_counterparty p), ob_amount := amount, ob_balance_after := balance,
        ob_approval_index := snd index\<rparr>"

definition fill_row ::
  "(string \<Rightarrow> string result) \<Rightarrow> ((string \<Rightarrow> string result) \<times> (string \<Rightarrow> string result)) option \<Rightarrow>
     parsed_observation \<Rightarrow> imported_observation \<Rightarrow> imported_observation result" where
  "fill_row reduce search p ob =
     (let merchant = or_empty (po_merchant p) in
      rbind (normalized_merchant reduce merchant) (\<lambda>normalized.
      rbind (case search of
               None \<Rightarrow> Inr ([], [])
             | Some (merchant_index, approval_index) \<Rightarrow>
                 rbind (if normalized = [] then Inr [] else merchant_index merchant) (\<lambda>m.
                 rbind (approval_index (or_empty (po_approval_code p))) (\<lambda>a. Inr (m, a)))) (\<lambda>index.
      rbind (money_plaintext p) (\<lambda>amount.
      rbind (balance_plaintext p) (\<lambda>balance. Inr (filled p normalized index amount balance ob))))))"

section \<open>The import\<close>

definition existing_import :: "db \<Rightarrow> id \<Rightarrow> string \<Rightarrow> string \<Rightarrow> imported_observation list" where
  "existing_import d run name version =
     sort_key ob_row_index (filter (\<lambda>x. ob_ocr_run x = Some run \<and> ob_parser_name x = name \<and> ob_parser_version x = version)
       (observations d))"

definition replaced :: "id \<Rightarrow> id option \<Rightarrow> imported_observation \<Rightarrow> bool" where
  "replaced document run x =
     (ob_source_document x = document \<and> ob_review_status x = UNREVIEWED \<and> (run = None \<or> ob_ocr_run x \<noteq> run))"

text \<open>
  \<open>QuerySet.delete\<close> with what the foreign keys ask for: a match goes with either of its rows, and a row that
  was merged into one that goes loses its winner.
\<close>

definition detach :: "id list \<Rightarrow> imported_observation \<Rightarrow> imported_observation" where
  "detach gone x = (if ob_merged_into x \<in> Some ` set gone then x\<lparr>ob_merged_into := None\<rparr> else x)"

definition delete_observations :: "(imported_observation \<Rightarrow> bool) \<Rightarrow> db \<Rightarrow> db" where
  "delete_observations P d =
     (let gone = map ob_id (filter P (observations d)) in
      d\<lparr>observations := map (detach gone) (filter (\<lambda>x. \<not> P x) (observations d)),
        matches := filter (\<lambda>m. rm_left m \<notin> set gone \<and> rm_right m \<notin> set gone) (matches d)\<rparr>)"

definition replace_prior_open_observations :: "id \<Rightarrow> id option \<Rightarrow> db \<Rightarrow> db \<times> nat" where
  "replace_prior_open_observations document run d =
     (delete_observations (replaced document run) d, length (filter (replaced document run) (observations d)))"

record import_env =
  ie_digest :: "string \<Rightarrow> string"
  ie_parse_float :: "string \<Rightarrow> rat option"
  ie_normalize :: "string \<Rightarrow> string result"
  ie_search :: "((string \<Rightarrow> string result) \<times> (string \<Rightarrow> string result)) option"

definition import_row ::
  "import_env \<Rightarrow> source_document \<Rightarrow> ocr_run_row option \<Rightarrow> db \<Rightarrow> nat \<times> parsed_observation \<Rightarrow> imported_observation result" where
  "import_row env doc run d ip =
     rbind (import_full_clean (ie_digest env) d
              (build_row (ie_parse_float env) (next_id d + fst ip) doc run (snd ip) (fst ip))) (\<lambda>ob.
     fill_row (ie_normalize env) (ie_search env) (snd ip) ob)"

definition bulk_create_rows :: "(string \<Rightarrow> string) \<Rightarrow> imported_observation list \<Rightarrow> db \<Rightarrow> db result" where
  "bulk_create_rows digest rows d =
     raise_if (\<not> list_all observation_constraints rows \<or> \<not> distinct (map (import_key digest) rows) \<or>
               list_ex (origin_taken digest (observations d)) rows) IntegrityError
       (Inr (d\<lparr>observations := observations d @ rows, next_id := next_id d + length rows\<rparr>))"

text \<open>\<open>except IntegrityError: raise ConflictError\<close>.\<close>

definition as_conflict :: "'a result \<Rightarrow> 'a result" where
  "as_conflict r = (case r of Inl e \<Rightarrow> Inl (if e = IntegrityError then ConflictError else e) | Inr x \<Rightarrow> Inr x)"

lemma as_conflict_Inr [simp]: "as_conflict r = Inr x \<longleftrightarrow> r = Inr x"
  by (simp add: as_conflict_def split: sum.splits)

record import_result =
  ir_observations :: "imported_observation list"
  ir_created :: bool

text \<open>\<open>owner\<close> is the user of the document the caller holds, \<open>actor\<close> the one the event names.\<close>

definition import_parser_selection ::
  "import_env \<Rightarrow> id \<Rightarrow> id \<Rightarrow> ocr_run_row option \<Rightarrow> parser_metadata \<Rightarrow> parsed_observation list \<Rightarrow> id option \<Rightarrow> db \<Rightarrow>
     (db \<times> import_result) result" where
  "import_parser_selection env document owner run meta parsed actor d =
     (case get_document d document of
        None \<Rightarrow> Inl InvalidRequestError
      | Some doc \<Rightarrow>
          raise_if (doc_user doc \<noteq> owner) InvalidRequestError
          (raise_if (case run of None \<Rightarrow> False | Some r \<Rightarrow> orn_user r \<noteq> doc_user doc) InvalidRequestError
          (let already = (case run of None \<Rightarrow> [] | Some r \<Rightarrow> existing_import d (orn_id r) (pm_name meta) (pm_version meta)) in
           if already \<noteq> [] then Inr (d, \<lparr>ir_observations = already, ir_created = False\<rparr>)
           else (case replace_prior_open_observations document (map_option orn_id run) d of (d1, n) \<Rightarrow>
             rbind (rmap (import_row env doc run d1) (List.enumerate 0 parsed)) (\<lambda>rows.
             rbind (as_conflict (bulk_create_rows (ie_digest env) rows d1)) (\<lambda>d2.
             rbind (record_audit_event (case actor of None \<Rightarrow> doc_user doc | Some a \<Rightarrow> a) OBSERVATIONS_IMPORTED (Some document)
                      [(''parser'', MStr (pm_name meta)), (''parser_version'', MStr (pm_version meta)),
                       (''observation_count'', MInt (int (length rows))), (''replaced_observation_count'', MInt (int n)),
                       (''ocr_run_id'', case run of None \<Rightarrow> MStr [] | Some r \<Rightarrow> MId (orn_id r))] d2) (\<lambda>d3.
             Inr (d3, \<lparr>ir_observations = rows, ir_created = True\<rparr>))))))))"

section \<open>What a new row looks like\<close>

text \<open>The facts of a row that its later steps keep.\<close>

definition fresh_row :: "source_document \<Rightarrow> ocr_run_row option \<Rightarrow> id \<Rightarrow> nat \<Rightarrow> parsed_observation \<Rightarrow> imported_observation \<Rightarrow> bool" where
  "fresh_row doc run base i p ob =
     (ob_id ob = base + i \<and> ob_user ob = doc_user doc \<and> ob_source_document ob = doc_id doc \<and>
      ob_ocr_run ob = map_option orn_id run \<and> ob_row_index ob = i \<and> ob_parser_name ob = po_parser_name p \<and>
      ob_parser_version ob = po_parser_version p \<and> ob_review_status ob = UNREVIEWED \<and> ob_canonical ob = None \<and>
      ob_merged_into ob = None \<and> ob_review_flags ob = review_flags p \<and>
      ob_requires_review ob = (review_flags p \<noteq> [] \<or> truthy (factor_of p ''requires_review'')) \<and>
      ob_risk_score ob = fst (score_flags (review_flags p) (ob_overall_confidence ob) False))"

lemma build_row_fields:
  "ob_id (build_row parse k doc run p i) = k" "ob_user (build_row parse k doc run p i) = doc_user doc"
  "ob_source_document (build_row parse k doc run p i) = doc_id doc" "ob_ocr_run (build_row parse k doc run p i) = map_option orn_id run"
  "ob_row_index (build_row parse k doc run p i) = i" "ob_parser_name (build_row parse k doc run p i) = po_parser_name p"
  "ob_parser_version (build_row parse k doc run p i) = po_parser_version p"
  "ob_review_status (build_row parse k doc run p i) = UNREVIEWED" "ob_canonical (build_row parse k doc run p i) = None"
  "ob_merged_into (build_row parse k doc run p i) = None" "ob_review_flags (build_row parse k doc run p i) = review_flags p"
  "ob_requires_review (build_row parse k doc run p i) = (review_flags p \<noteq> [] \<or> truthy (factor_of p ''requires_review''))"
  "ob_overall_confidence (build_row parse k doc run p i) = snd (snd (confidences parse p))"
  "ob_risk_score (build_row parse k doc run p i) = fst (score_flags (review_flags p) (snd (snd (confidences parse p))) False)"
  unfolding build_row_def project_flags_def Let_def case_prod_beta imported_observation.simps by (rule refl)+

lemma build_row_fresh:
  "fresh_row doc run base i p ((build_row parse (base + i) doc run p i)\<lparr>ob_currency := c\<rparr>)"
  by (simp add: fresh_row_def build_row_fields)

lemma filled_fresh: "fresh_row doc run base i p (filled q n x a b ob) = fresh_row doc run base i p ob"
  by (simp add: fresh_row_def filled_def)

lemma fill_row_fresh: "fill_row red search q ob = Inr ob' \<Longrightarrow> fresh_row doc run base i p ob \<Longrightarrow> fresh_row doc run base i p ob'"
  unfolding fill_row_def Let_def rbind_Inr by (auto simp: filled_fresh)

lemma import_full_clean_Inr: "import_full_clean digest d ob = Inr ob' \<Longrightarrow> \<exists>c. ob' = ob\<lparr>ob_currency := c\<rparr>"
  unfolding import_full_clean_def ob_clean_def Let_def rbind_Inr raise_if_Inr by (elim exE conjE) blast

lemma import_row_fresh:
  assumes "import_row env doc run d (i, p) = Inr ob"
  shows "fresh_row doc run (next_id d) i p ob"
proof -
  obtain ob1 where c: "import_full_clean (ie_digest env) d (build_row (ie_parse_float env) (next_id d + i) doc run p i) = Inr ob1"
    and f: "fill_row (ie_normalize env) (ie_search env) p ob1 = Inr ob"
    using assms unfolding import_row_def rbind_Inr fst_conv snd_conv by (elim exE conjE) (rule that)
  obtain x where x: "ob1 = (build_row (ie_parse_float env) (next_id d + i) doc run p i)\<lparr>ob_currency := x\<rparr>"
    using import_full_clean_Inr [OF c] by blast
  have "fresh_row doc run (next_id d) i p ob1" unfolding x by (rule build_row_fresh)
  then show ?thesis by (rule fill_row_fresh [OF f])
qed

lemma imported_rows:
  assumes "rmap (import_row env doc run d) (List.enumerate n parsed) = Inr rows"
  shows "list_all2 (\<lambda>ip ob. fresh_row doc run (next_id d) (fst ip) (snd ip) ob) (List.enumerate n parsed) rows"
  using assms unfolding rmap_Inr_iff by (rule list_all2_mono) (auto dest: import_row_fresh)

lemma rows_numbered:
  "list_all2 (\<lambda>ip ob. fresh_row doc run base (fst ip) (snd ip) ob) (List.enumerate n parsed) rows \<Longrightarrow>
     map ob_row_index rows = [n..<n + length parsed] \<and> map ob_id rows = map ((+) base) [n..<n + length parsed]"
proof (induction parsed arbitrary: n rows)
  case Nil
  then show ?case by simp
next
  case (Cons p parsed)
  then obtain ob rest where "rows = ob # rest" "fresh_row doc run base n p ob"
    "list_all2 (\<lambda>ip ob. fresh_row doc run base (fst ip) (snd ip) ob) (List.enumerate (Suc n) parsed) rest"
    by (auto simp: list_all2_Cons1)
  moreover have "[n..<n + length (p # parsed)] = n # [Suc n..<Suc n + length parsed]" by (simp add: upt_rec)
  ultimately show ?case using Cons.IH [of "Suc n" rest] by (auto simp: fresh_row_def)
qed

lemma rows_fresh:
  assumes "list_all2 (\<lambda>ip ob. fresh_row doc run base (fst ip) (snd ip) ob) (List.enumerate n parsed) rows" "ob \<in> set rows"
  shows "\<exists>i p. p \<in> set parsed \<and> fresh_row doc run base i p ob"
proof -
  obtain j where "j < length rows" "rows ! j = ob" using assms(2) by (auto simp: in_set_conv_nth)
  moreover have "length rows = length parsed" using list_all2_lengthD [OF assms(1)] by simp
  ultimately show ?thesis using list_all2_nthD2 [OF assms(1), of j]
    by (intro exI [of _ "n + j"] exI [of _ "parsed ! j"]) (simp add: nth_enumerate_eq)
qed

text \<open>A successful import either found its rows or stored new ones.\<close>

lemma import_cases:
  assumes "import_parser_selection env document owner run meta parsed actor d = Inr (d', res)"
  obtains (found) doc r where "get_document d document = Some doc" "run = Some r" "orn_user r = doc_user doc" "doc_user doc = owner"
      "existing_import d (orn_id r) (pm_name meta) (pm_version meta) \<noteq> []" "d' = d"
      "res = \<lparr>ir_observations = existing_import d (orn_id r) (pm_name meta) (pm_version meta), ir_created = False\<rparr>"
    | (stored) doc d1 rows e where "get_document d document = Some doc" "doc_user doc = owner"
      "d1 = delete_observations (replaced document (map_option orn_id run)) d"
      "\<And>r. run = Some r \<Longrightarrow> orn_user r = doc_user doc \<and> existing_import d (orn_id r) (pm_name meta) (pm_version meta) = []"
      "rmap (import_row env doc run d1) (List.enumerate 0 parsed) = Inr rows"
      "list_all observation_constraints rows" "\<not> list_ex (origin_taken (ie_digest env) (observations d1)) rows"
      "d' = d1\<lparr>observations := observations d1 @ rows, next_id := next_id d1 + length rows, audits := audits d @ [e]\<rparr>"
      "res = \<lparr>ir_observations = rows, ir_created = True\<rparr>"
proof -
  obtain doc where doc: "get_document d document = Some doc"
    using assms by (cases "get_document d document") (auto simp: import_parser_selection_def)
  have o: "doc_user doc = owner" "\<And>r. run = Some r \<Longrightarrow> orn_user r = doc_user doc"
    using assms doc by (auto simp: import_parser_selection_def split: option.splits)
  have nr: "(case run of None \<Rightarrow> False | Some r \<Rightarrow> orn_user r \<noteq> doc_user doc) = False" using o(2) by (cases run) simp_all
  define already where "already = (case run of None \<Rightarrow> [] | Some r \<Rightarrow> existing_import d (orn_id r) (pm_name meta) (pm_version meta))"
  note step = assms [unfolded import_parser_selection_def doc option.case raise_if_Inr Let_def, folded already_def]
  show thesis
  proof (cases "already = []")
    case False
    then obtain r where r: "run = Some r" by (cases run) (auto simp: already_def)
    have "d' = d \<and> res = \<lparr>ir_observations = already, ir_created = False\<rparr>"
      using step False by (simp split: if_splits)
    then show thesis using found [of doc r] doc o r False by (simp add: already_def)
  next
    case True
    let ?d1 = "delete_observations (replaced document (map_option orn_id run)) d"
    have a: "audits ?d1 = audits d" by (simp add: delete_observations_def Let_def)
    obtain rows d2 d3 where r: "rmap (import_row env doc run ?d1) (List.enumerate 0 parsed) = Inr rows"
        and b: "bulk_create_rows (ie_digest env) rows ?d1 = Inr d2"
        and e: "\<exists>u x m. record_audit_event u OBSERVATIONS_IMPORTED x m d2 = Inr d3"
        and res: "d' = d3" "res = \<lparr>ir_observations = rows, ir_created = True\<rparr>"
      using step True unfolding replace_prior_open_observations_def
      by auto blast
    have c: "list_all observation_constraints rows" "\<not> list_ex (origin_taken (ie_digest env) (observations ?d1)) rows"
      "d2 = ?d1\<lparr>observations := observations ?d1 @ rows, next_id := next_id ?d1 + length rows\<rparr>"
      using b by (simp_all add: bulk_create_rows_def)
    obtain ev where "d3 = d2\<lparr>audits := audits d2 @ [ev]\<rparr>" using e by (auto simp only: record_audit_event_Inr)
    then have d': "d' = ?d1\<lparr>observations := observations ?d1 @ rows, next_id := next_id ?d1 + length rows, audits := audits d @ [ev]\<rparr>"
      using res(1) c(3) a by simp
    have q: "orn_user s = doc_user doc \<and> existing_import d (orn_id s) (pm_name meta) (pm_version meta) = []" if "run = Some s" for s
      using that o(2) True by (simp add: already_def)
    show thesis by (rule stored [OF doc o(1) refl q r c(1,2) d' res(2)])
  qed
qed

section \<open>Importing again\<close>

lemma sort_row_index_sorted: "map ob_row_index rows = [n..<m] \<Longrightarrow> sort_key ob_row_index rows = rows"
  by (rule sort_key_id_if_sorted) simp

lemma detach_fields [simp]:
  "ob_id (detach g x) = ob_id x" "ob_user (detach g x) = ob_user x" "ob_ocr_run (detach g x) = ob_ocr_run x"
  "ob_parser_name (detach g x) = ob_parser_name x" "ob_parser_version (detach g x) = ob_parser_version x"
  "ob_review_status (detach g x) = ob_review_status x" "ob_canonical (detach g x) = ob_canonical x"
  "ob_row_index (detach g x) = ob_row_index x"
  by (simp_all add: detach_def)

lemma delete_observations_fields [simp]:
  "documents (delete_observations P d) = documents d" "transactions (delete_observations P d) = transactions d"
  "entries (delete_observations P d) = entries d" "next_id (delete_observations P d) = next_id d"
  "ledger_accounts (delete_observations P d) = ledger_accounts d" "users (delete_observations P d) = users d"
  by (simp_all add: delete_observations_def Let_def)

lemma stored_rows_found:
  assumes "existing_import d r name version = []" "parsed \<noteq> []"
    and "list_all2 (\<lambda>ip ob. fresh_row doc (Some run) base (fst ip) (snd ip) ob) (List.enumerate 0 parsed) rows" "orn_id run = r"
    and "\<forall>p \<in> set parsed. po_parser_name p = name \<and> po_parser_version p = version"
    and "observations d' = map (detach g) (filter P (observations d)) @ rows"
  shows "existing_import d' r name version = rows" and "rows \<noteq> []"
proof -
  let ?here = "\<lambda>x. ob_ocr_run x = Some r \<and> ob_parser_name x = name \<and> ob_parser_version x = version"
  have "set (existing_import d r name version) = set (filter ?here (observations d))" by (simp add: existing_import_def)
  then have "filter ?here (observations d) = []" using assms(1) by simp
  then have old: "filter ?here (map (detach g) (filter P (observations d))) = []" by (auto simp: filter_empty_conv)
  have "?here ob" if "ob \<in> set rows" for ob
    using rows_fresh [OF assms(3) that] assms(4,5) by (auto simp: fresh_row_def)
  then have new: "filter ?here rows = rows" by (simp add: filter_id_conv)
  have "sort_key ob_row_index rows = rows" using rows_numbered [OF assms(3)] sort_row_index_sorted by blast
  then show "existing_import d' r name version = rows" using old new assms(6) by (simp add: existing_import_def)
  show "rows \<noteq> []" using list_all2_lengthD [OF assms(3)] assms(2) by auto
qed

section \<open>What a replacement leaves\<close>

lemma find_row_filter:
  "distinct (keys pk rows) \<Longrightarrow>
     find_row pk (filter Q rows) k = (case find_row pk rows k of None \<Rightarrow> None | Some x \<Rightarrow> if Q x then Some x else None)"
proof (induction rows)
  case (Cons x rows)
  then have "find_row pk rows (pk x) = None" by (simp add: find_row_None_iff keys_def)
  then show ?case using Cons by (auto simp: keys_def split: option.splits)
qed simp

definition gone_ids :: "(imported_observation \<Rightarrow> bool) \<Rightarrow> db \<Rightarrow> id list" where
  "gone_ids P d = map ob_id (filter P (observations d))"

lemma delete_observations_lists:
  "observations (delete_observations P d) = map (detach (gone_ids P d)) (filter (\<lambda>x. \<not> P x) (observations d))"
  "matches (delete_observations P d) = filter (\<lambda>m. rm_left m \<notin> set (gone_ids P d) \<and> rm_right m \<notin> set (gone_ids P d)) (matches d)"
  by (simp_all add: delete_observations_def gone_ids_def Let_def)

lemma in_gone_ids:
  assumes "distinct (keys ob_id (observations d))"
  shows "k \<in> set (gone_ids P d) \<longleftrightarrow> (\<exists>x. get_observation d k = Some x \<and> P x)"
proof
  assume "k \<in> set (gone_ids P d)"
  then obtain x where "x \<in> set (observations d)" "P x" "ob_id x = k" by (auto simp: gone_ids_def)
  then show "\<exists>x. get_observation d k = Some x \<and> P x"
    using find_row_distinct [OF assms, of x] by (auto simp: get_observation_def)
next
  assume "\<exists>x. get_observation d k = Some x \<and> P x"
  then show "k \<in> set (gone_ids P d)" by (auto simp: gone_ids_def get_observation_def dest: find_row_SomeD)
qed

lemma get_after_delete:
  assumes "distinct (keys ob_id (observations d))"
  shows "get_observation (delete_observations P d) k =
     (case get_observation d k of None \<Rightarrow> None | Some x \<Rightarrow> if P x then None else Some (detach (gone_ids P d) x))"
  unfolding get_observation_def delete_observations_lists
  by (subst find_row_map) (simp_all add: find_row_filter [OF assms] split: option.split)

lemma get_after_import:
  assumes "table_ok ob_id (observations d) (next_id d)"
    and "list_all2 (\<lambda>ip ob. fresh_row doc run (next_id d) (fst ip) (snd ip) ob) (List.enumerate 0 parsed) rows"
    and "observations d' = observations (delete_observations P d) @ rows" "get_observation d k = Some x"
  shows "get_observation d' k = (if P x then None else Some (detach (gone_ids P d) x))"
proof -
  have dist: "distinct (keys ob_id (observations d))" using assms(1) by (simp add: table_ok_def)
  have "k \<in> set (keys ob_id (observations d))"
    using find_row_None_iff [of ob_id "observations d" k] assms(4) by (auto simp: get_observation_def)
  then have "k < next_id d" using assms(1) by (simp add: table_ok_def)
  then have "k \<notin> set (keys ob_id rows)" using rows_numbered [OF assms(2)] by (auto simp: keys_def)
  then have "find_row ob_id rows k = None" by (simp add: find_row_None_iff)
  then show ?thesis
    using get_after_delete [OF dist, of P k] assms(4)
    by (simp add: get_observation_def assms(3) find_row_append split: option.split)
qed

lemma detach_unmerged: "(\<And>w. ob_merged_into x = Some w \<Longrightarrow> w \<notin> set g) \<Longrightarrow> detach g x = x"
  by (auto simp: detach_def)

lemma import_review_ok:
  assumes "review_ok d" "P = replaced document run"
    and "\<forall>x \<in> set (observations d). \<forall>w y. ob_merged_into x = Some w \<and> get_observation d w = Some y \<longrightarrow> \<not> P y"
    and "list_all2 (\<lambda>ip ob. fresh_row doc r (next_id d) (fst ip) (snd ip) ob) (List.enumerate 0 parsed) rows"
    and "list_all observation_constraints rows"
    and "d' = (delete_observations P d)\<lparr>observations := observations (delete_observations P d) @ rows,
        next_id := next_id d + length rows, audits := a\<rparr>"
  shows "review_ok d'"
proof -
  have t: "table_ok ob_id (observations d) (next_id d)" and tm: "table_ok rm_id (matches d) (next_id d)"
    and b: "books_ok d" using assms(1) by (simp_all add: review_ok_def)
  have dist: "distinct (keys ob_id (observations d))" using t by (simp add: table_ok_def)
  have same: "detach (gone_ids P d) x = x" if "x \<in> set (observations d)" for x
    using assms(3) that by (intro detach_unmerged) (auto simp: in_gone_ids [OF dist])
  have obs: "observations d' = filter (\<lambda>x. \<not> P x) (observations d) @ rows"
    by (simp add: assms(6) delete_observations_lists) (rule map_idI, simp add: same)
  have num: "map ob_id rows = map ((+) (next_id d)) [0..<length rows]"
    using rows_numbered [OF assms(4)] list_all2_lengthD [OF assms(4)] by simp
  have "books_ok d'" by (rule books_ok_cong [OF _ _ _ _ b]) (simp_all add: assms(6))
  moreover have "table_ok ob_id (observations d') (next_id d')"
  proof -
    have "distinct (map ob_id rows)" unfolding num by (simp add: distinct_map)
    moreover have "set (map ob_id rows) = (+) (next_id d) ` {0..<length rows}" unfolding num by simp
    moreover have "distinct (map ob_id (filter (\<lambda>x. \<not> P x) (observations d)))"
      using dist by (simp add: keys_def distinct_map_filter)
    moreover have "\<forall>x \<in> set (observations d). ob_id x < next_id d" using t by (simp add: table_ok_def keys_def)
    ultimately show ?thesis unfolding obs table_ok_def keys_def by (force simp: assms(6))
  qed
  moreover have "row_ok d' x" if "x \<in> set (observations d')" for x
  proof -
    have gt: "get_tx d' = get_tx d" by (simp add: assms(6) get_tx_def fun_eq_iff)
    from that obs consider "x \<in> set (observations d)" | "x \<in> set rows" by auto
    then show ?thesis
    proof cases
      case 1
      then have "row_ok d x" using assms(1) by (simp add: review_ok_def)
      then show ?thesis by (rule row_ok_persists [OF tx_persists_refl [OF gt]])
    next
      case 2
      then show ?thesis using rows_fresh [OF assms(4) 2] assms(5) by (auto simp: row_ok_def fresh_row_def list_all_iff)
    qed
  qed
  moreover have m: "matches d' = filter (\<lambda>m. rm_left m \<notin> set (gone_ids P d) \<and> rm_right m \<notin> set (gone_ids P d)) (matches d)"
    by (simp add: assms(6) delete_observations_lists)
  moreover have "table_ok rm_id (matches d') (next_id d')"
    using tm unfolding m table_ok_def keys_def by (force simp: assms(6) distinct_map_filter)
  moreover have "distinct (map pair_of (matches d'))"
    using assms(1) unfolding m by (simp add: review_ok_def distinct_map_filter)
  moreover have "match_ok d' x" if "x \<in> set (matches d')" for x
  proof -
    have x: "match_ok d x" "rm_left x \<notin> set (gone_ids P d)" "rm_right x \<notin> set (gone_ids P d)"
      using that assms(1) unfolding m by (auto simp: review_ok_def)
    have "owns_row d' u k" if o: "owns_row d u k" and ng: "k \<notin> set (gone_ids P d)" for u k
    proof -
      obtain y where y: "get_observation d k = Some y" "ob_user y = u"
        using o by (auto simp: owns_row_def owned_def split: option.splits)
      then have "\<not> P y" using ng by (auto simp: in_gone_ids [OF dist])
      then have "get_observation d' k = Some (detach (gone_ids P d) y)"
        using get_after_import [OF t assms(4) _ y(1), of d' P] by (simp add: assms(6))
      then show ?thesis using y(2) by (simp add: owns_row_def owned_def)
    qed
    then show ?thesis using x by (simp add: match_ok_def)
  qed
  ultimately show ?thesis by (simp add: review_ok_def)
qed


section \<open>Properties\<close>

lemma risk_unmapped: "75 \<le> fst (score_flags flags confidence False)"
proof -
  have "UNKNOWN_MAPPING_RISK \<in> set (map fst (scored_flags flags confidence False))" by (auto simp: scored_flags_def)
  then have "UNKNOWN_MAPPING_RISK \<le> Max (set (map fst (scored_flags flags confidence False)))" by (intro Max_ge) simp_all
  moreover have "scored_flags flags confidence False \<noteq> []" by (simp add: scored_flags_def)
  ultimately show ?thesis by (simp add: score_flags_def UNKNOWN_MAPPING_RISK_def Let_def)
qed

lemma blocked_rows_flagged: "blocks_automatic_confirmation p \<Longrightarrow> review_flags p \<noteq> []"
  by (auto simp: blocks_automatic_confirmation_def review_flags_def remdups_eq_nil_iff)

text \<open>
  One run of one parser version is imported once: after a successful import of rows that name the parser
  that read them, importing again for the same run stores nothing and returns the very rows, whatever the
  parser says then and whoever asks.
\<close>

theorem importing_again_stores_nothing:
  assumes "import_parser_selection env document owner (Some run) meta parsed actor d = Inr (d', res)"
    and "parsed \<noteq> []" "\<forall>p \<in> set parsed. po_parser_name p = pm_name meta \<and> po_parser_version p = pm_version meta"
  shows "import_parser_selection env2 document owner (Some run) meta parsed2 actor2 d' =
     Inr (d', \<lparr>ir_observations = ir_observations res, ir_created = False\<rparr>)"
proof (cases rule: import_cases [OF assms(1)])
  case (1 doc r)
  then show ?thesis by (simp add: import_parser_selection_def)
next
  case (2 doc d1 rows e)
  note fresh = imported_rows [OF 2(5)]
  have o: "observations d' = map (detach (gone_ids (replaced document (Some (orn_id run))) d))
      (filter (\<lambda>x. \<not> replaced document (Some (orn_id run)) x) (observations d)) @ rows"
    by (simp add: 2(3,8) delete_observations_lists)
  have e: "existing_import d (orn_id run) (pm_name meta) (pm_version meta) = []" "orn_user run = doc_user doc" using 2(4) by simp_all
  have "existing_import d' (orn_id run) (pm_name meta) (pm_version meta) = rows" "rows \<noteq> []"
    by (rule stored_rows_found [OF e(1) assms(2) fresh refl assms(3) o])+
  moreover have "get_document d' document = Some doc" using 2(1) by (simp add: 2(3,8) get_document_def)
  ultimately show ?thesis using 2(2,9) e(2) by (simp add: import_parser_selection_def)
qed

lemma find_distinct:
  "distinct (map f xs) \<Longrightarrow> find (\<lambda>x. f x = k) xs = Some x \<longleftrightarrow> x \<in> set xs \<and> f x = k"
  by (induction xs) auto

lemma find_same:
  assumes "distinct (map f xs)" "distinct (map f ys)" "set xs = set ys"
  shows "find (\<lambda>x. f x = k) xs = find (\<lambda>x. f x = k) ys"
proof (cases "find (\<lambda>x. f x = k) ys")
  case None
  then have "find (\<lambda>x. f x = k) xs = None" using assms(3) by (auto simp: find_None_iff)
  then show ?thesis using None by simp
next
  case (Some x)
  then have "x \<in> set xs \<and> f x = k" using find_distinct [OF assms(2), of k x] assms(3) by blast
  then have "find (\<lambda>x. f x = k) xs = Some x" using find_distinct [OF assms(1), of k x] by blast
  then show ?thesis using Some by simp
qed

lemma supported_set:
  "set (supported r doc tokens) = {(sp_supports p doc tokens, p) |p. p \<in> set (pg_others r) \<and> 0 < su_score (sp_supports p doc tokens)}"
  by (auto simp: supported_def)

lemma ranked_best:
  assumes "first_of (ranked xs) = Some x" "y \<in> set xs"
  shows "su_score (fst y) \<le> su_score (fst x)"
    and "su_score (fst y) = su_score (fst x) \<Longrightarrow> sp_name (snd x) \<le> sp_name (snd y)"
proof -
  have "- su_score (fst x) \<le> - su_score (fst y)"
    by (rule first_of_sort [OF assms(1) [unfolded ranked_def]]) (simp add: assms(2))
  then show "su_score (fst y) \<le> su_score (fst x)" by simp
  show "sp_name (snd x) \<le> sp_name (snd y)" if "su_score (fst y) = su_score (fst x)"
    by (rule first_of_sort_tie [OF assms(1) [unfolded ranked_def]]) (simp_all add: assms(2) that)
qed

text \<open>Two lists with the same parsers of different names have the same first.\<close>

lemma ranked_unique:
  assumes "set xs = set ys" "\<And>a b. a \<in> set xs \<Longrightarrow> b \<in> set xs \<Longrightarrow> sp_name (snd a) = sp_name (snd b) \<Longrightarrow> a = b"
  shows "first_of (ranked xs) = first_of (ranked ys)"
proof (cases "first_of (ranked xs)")
  case None
  then have "xs = []" by (simp add: ranked_def)
  then show ?thesis using assms(1) by (simp add: None ranked_def)
next
  case (Some x)
  have inx: "x \<in> set xs" using first_of_in [OF Some] by (simp add: ranked_def)
  then obtain y where y: "first_of (ranked ys) = Some y"
    using assms(1) by (cases "first_of (ranked ys)") (auto simp: ranked_def)
  have iny: "y \<in> set ys" using first_of_in [OF y] by (simp add: ranked_def)
  have "y \<in> set xs" "x \<in> set ys" using inx iny assms(1) by simp_all
  then have "sp_name (snd x) = sp_name (snd y)"
    using ranked_best [OF Some, of y] ranked_best [OF y, of x] by (simp add: order_antisym)
  then show ?thesis using assms(2) inx \<open>y \<in> set xs\<close> Some y by metis
qed

lemma selected_is_best:
  assumes "select_parser r [] doc tokens = Some (p, s)" "q \<in> set (pg_others r)"
  shows "s = sp_supports p doc tokens" and "su_score (sp_supports q doc tokens) \<le> max 0 (su_score s) \<or> p = pg_generic r"
proof -
  have m: "x \<in> set (supported r doc tokens) \<Longrightarrow> fst x = sp_supports (snd x) doc tokens" for x by (auto simp: supported_set)
  show "s = sp_supports p doc tokens"
    using assms(1) m first_of_in [of "ranked (supported r doc tokens)"]
    by (auto simp: select_parser_def ranked_def split: option.splits)
  show "su_score (sp_supports q doc tokens) \<le> max 0 (su_score s) \<or> p = pg_generic r"
  proof (cases "0 < su_score (sp_supports q doc tokens)")
    case True
    then have "(sp_supports q doc tokens, q) \<in> set (supported r doc tokens)" using assms(2) by (auto simp: supported_set)
    then show ?thesis using assms(1) ranked_best(1) [of "supported r doc tokens" _ "(sp_supports q doc tokens, q)"]
      by (auto simp: select_parser_def split: option.splits)
  qed (simp add: max_def)
qed


text \<open>
  C32. New rows wait for a person: each stored row carries its place on the screen, is unreviewed and ranked at
  least like a row without an account, and a row whose amount, date or direction is missing or in doubt is
  marked for review.
\<close>

theorem imported_rows_await_review:
  assumes "import_parser_selection env document owner run meta parsed actor d = Inr (d', res)" and "ir_created res"
  shows "length (ir_observations res) = length parsed \<and>
    (\<forall>i < length parsed. let ob = ir_observations res ! i in
       ob_row_index ob = i \<and> ob_source_document ob = document \<and> ob_user ob = owner \<and> ob_review_status ob = UNREVIEWED \<and>
       ob_canonical ob = None \<and> 75 \<le> ob_risk_score ob \<and>
       (blocks_automatic_confirmation (parsed ! i) \<longrightarrow> ob_requires_review ob)) \<and>
    (\<exists>old. observations d' = old @ ir_observations res)"
proof (cases rule: import_cases [OF assms(1)])
  case (1 doc r)
  then show ?thesis using assms(2) by simp
next
  case (2 doc d1 rows e)
  note fresh = imported_rows [OF 2(5)]
  have n: "length rows = length parsed" using list_all2_lengthD [OF fresh] by simp
  have "doc_id doc = document" by (rule document_table.get_pk [OF 2(1)])
  moreover have "fresh_row doc run (next_id d1) i (parsed ! i) (rows ! i)" if "i < length parsed" for i
    using list_all2_nthD [OF fresh, of i] that by (simp add: nth_enumerate_eq)
  ultimately have "ob_row_index (rows ! i) = i \<and> ob_source_document (rows ! i) = document \<and> ob_user (rows ! i) = owner \<and>
      ob_review_status (rows ! i) = UNREVIEWED \<and> ob_canonical (rows ! i) = None \<and> 75 \<le> ob_risk_score (rows ! i) \<and>
      (blocks_automatic_confirmation (parsed ! i) \<longrightarrow> ob_requires_review (rows ! i))" if "i < length parsed" for i
    using that 2(2) risk_unmapped blocked_rows_flagged by (simp add: fresh_row_def)
  then show ?thesis using n 2(8,9) by (auto simp: Let_def)
qed

text \<open>
  C33. An import replaces open rows of its document and nothing else: every row that is reviewed, or belongs to
  another document or to this very run, stays as it was, transactions and postings are untouched, and the
  review data stays consistent, provided no row was merged into one that is replaced.
\<close>

theorem import_replaces_only_open_rows:
  assumes "import_parser_selection env document owner run meta parsed actor d = Inr (d', res)" and "review_ok d"
    and "\<forall>x \<in> set (observations d). \<forall>w y. ob_merged_into x = Some w \<and> get_observation d w = Some y \<longrightarrow>
       \<not> replaced document (map_option orn_id run) y"
  shows "review_ok d' \<and> transactions d' = transactions d \<and> entries d' = entries d \<and>
    (\<forall>k ob. get_observation d k = Some ob \<and> (ob_review_status ob \<noteq> UNREVIEWED \<or> ob_source_document ob \<noteq> document \<or>
        run \<noteq> None \<and> ob_ocr_run ob = map_option orn_id run) \<longrightarrow> get_observation d' k = Some ob)"
proof (cases rule: import_cases [OF assms(1)])
  case (1 doc r)
  then show ?thesis using assms(2) by simp
next
  case (2 doc d1 rows e)
  let ?P = "replaced document (map_option orn_id run)"
  have fresh: "list_all2 (\<lambda>ip ob. fresh_row doc run (next_id d) (fst ip) (snd ip) ob) (List.enumerate 0 parsed) rows"
    using imported_rows [OF 2(5)] by (simp add: 2(3))
  have d': "d' = (delete_observations ?P d)\<lparr>observations := observations (delete_observations ?P d) @ rows,
      next_id := next_id d + length rows, audits := audits d @ [e]\<rparr>" using 2(8) by (simp add: 2(3))
  have t: "table_ok ob_id (observations d) (next_id d)" using assms(2) by (simp add: review_ok_def)
  have "review_ok d'" by (rule import_review_ok [OF assms(2) refl assms(3) fresh 2(6) d'])
  moreover have "get_observation d' k = Some ob" if g: "get_observation d k = Some ob" "\<not> ?P ob" for k ob
  proof -
    have "distinct (keys ob_id (observations d))" using t by (simp add: table_ok_def)
    moreover have "ob \<in> set (observations d)" using g(1) by (simp add: get_observation_def) (blast dest: find_row_SomeD)
    ultimately have "detach (gone_ids ?P d) ob = ob"
      using assms(3) by (intro detach_unmerged) (auto simp: in_gone_ids)
    then show ?thesis using get_after_import [OF t fresh, of d' ?P k ob] g by (simp add: d')
  qed
  moreover have "\<not> ?P ob" if "ob_review_status ob \<noteq> UNREVIEWED \<or> ob_source_document ob \<noteq> document \<or>
        run \<noteq> None \<and> ob_ocr_run ob = map_option orn_id run" for ob
    using that by (auto simp: replaced_def)
  ultimately show ?thesis by (simp add: d')
qed



section \<open>Witnesses\<close>

definition sample_parsed :: parsed_observation where
  "sample_parsed = \<lparr>po_occurred_on = Some 200, po_amount = None, po_currency = Some ''KRW'',
     po_direction = Some PARSED_DEBIT, po_merchant = Some ''market'', po_counterparty = None, po_balance_after = None,
     po_factors = [(''token_confidence'', FNumber (9 / 10))], po_missing = [''amount''], po_ambiguous = [],
     po_approval_code = None, po_installment_months = None, po_is_settlement = False, po_output_version = 2,
     po_parser_name = ''list'', po_parser_version = ''2'', po_support_score = 1 / 2\<rparr>"

text \<open>Two parsers that support every screenshot, registered in either order.\<close>

definition sample_parser :: "string \<Rightarrow> rat \<Rightarrow> (nat, nat) screenshot_parser" where
  "sample_parser name score = \<lparr>sp_metadata = \<lparr>pm_name = name, pm_version = ''2''\<rparr>,
     sp_supports = (\<lambda>_ _. \<lparr>su_score = score, su_source_type = ''list''\<rparr>), sp_parse = (\<lambda>_ _. []),
     sp_build_statement = None, sp_build_card_payment = None\<rparr>"


definition sample_env :: import_env where
  "sample_env = \<lparr>ie_digest = (\<lambda>s. s), ie_parse_float = (\<lambda>_. None), ie_normalize = Inr, ie_search = Some (Inr, Inr)\<rparr>"

definition sample_meta :: parser_metadata where
  "sample_meta = \<lparr>pm_name = ''list'', pm_version = ''2''\<rparr>"

definition sample_run :: ocr_run_row where
  "sample_run = \<lparr>orn_id = 80, orn_user = 1\<rparr>"

text \<open>One open row of the screenshot 50, and one of the screenshot 51 that was merged into it.\<close>

definition merged_db :: db where
  "merged_db = review_db\<lparr>documents := [sample_screenshot, sample_screenshot\<lparr>doc_id := 51\<rparr>],
     observations := [sample_row, sample_row\<lparr>ob_id := 61, ob_source_document := 51, ob_review_status := MERGED,
       ob_merged_into := Some 60\<rparr>]\<rparr>"

definition read_again :: "id \<Rightarrow> (db \<times> import_result) result" where
  "read_again document =
     import_parser_selection sample_env document 1 (Some sample_run) sample_meta [sample_parsed] None merged_db"

lemma read_again_runs: "map_sum id (\<lambda>x. ir_created (snd x)) (read_again 50) = Inr True" "succeeds (read_again 51)"
  by code_simp+


lemma merged_ok: "review_ok merged_db"
proof -
  have obs: "observations merged_db = [sample_row, sample_row\<lparr>ob_id := 61, ob_source_document := 51, ob_review_status := MERGED,
       ob_merged_into := Some 60\<rparr>]" and ms: "matches merged_db = []" and n: "next_id merged_db = 100"
    by (simp_all add: merged_db_def review_db_def sample_db_def empty_db_def)
  have "books_ok merged_db" by (rule books_ok_cong [OF _ _ _ _ queue_books]) (simp_all add: merged_db_def)
  moreover have "table_ok ob_id (observations merged_db) 100" unfolding obs by (simp add: table_ok_def keys_def sample_row_def)
  moreover have "row_ok merged_db sample_row"
    "row_ok merged_db (sample_row\<lparr>ob_id := 61, ob_source_document := 51, ob_review_status := MERGED, ob_merged_into := Some 60\<rparr>)"
    by (simp_all add: row_ok_def sample_row_def observation_constraints_def)
  ultimately show ?thesis by (simp add: review_ok_def obs ms n table_ok_def keys_def)
qed

lemma read_again_50:
  obtains d' res where "import_parser_selection sample_env 50 1 (Some sample_run) sample_meta [sample_parsed] None merged_db = Inr (d', res)"
    and "ir_created res"
proof -
  obtain x where x: "read_again 50 = Inr x" using read_again_runs(1) by (cases "read_again 50") auto
  then have "ir_created (snd x)" using read_again_runs(1) by simp
  then show thesis using that [of "fst x" "snd x"] x by (simp add: read_again_def)
qed

theorem importing_again_witness:
  "\<exists>d' res. import_parser_selection sample_env 50 1 (Some sample_run) sample_meta [sample_parsed] None merged_db = Inr (d', res) \<and>
     import_parser_selection sample_env 50 1 (Some sample_run) sample_meta [] None d' =
       Inr (d', \<lparr>ir_observations = ir_observations res, ir_created = False\<rparr>)"
proof -
  obtain d' res where r: "import_parser_selection sample_env 50 1 (Some sample_run) sample_meta [sample_parsed] None merged_db = Inr (d', res)"
    by (rule read_again_50)
  have "import_parser_selection sample_env 50 1 (Some sample_run) sample_meta [] None d' =
      Inr (d', \<lparr>ir_observations = ir_observations res, ir_created = False\<rparr>)"
    by (rule importing_again_stores_nothing [OF r]) (simp_all add: sample_parsed_def sample_meta_def)
  then show ?thesis using r by blast
qed

theorem imported_rows_witness:
  "\<exists>d' res. import_parser_selection sample_env 50 1 (Some sample_run) sample_meta [sample_parsed] None merged_db = Inr (d', res) \<and>
     ob_requires_review (ir_observations res ! 0)"
proof -
  obtain d' res where r: "import_parser_selection sample_env 50 1 (Some sample_run) sample_meta [sample_parsed] None merged_db = Inr (d', res)"
    "ir_created res" by (rule read_again_50)
  have "blocks_automatic_confirmation sample_parsed" by code_simp
  then have "ob_requires_review (ir_observations res ! 0)" using imported_rows_await_review [OF r] by (simp add: Let_def)
  then show ?thesis using r(1) by blast
qed

theorem import_replaces_witness:
  "\<exists>d' res. import_parser_selection sample_env 51 1 (Some sample_run) sample_meta [sample_parsed] None merged_db = Inr (d', res) \<and>
     review_ok d' \<and> get_observation d' 60 = Some sample_row"
proof -
  obtain x where "read_again 51 = Inr x" using succeedsE [OF read_again_runs(2)] by blast
  then have r: "import_parser_selection sample_env 51 1 (Some sample_run) sample_meta [sample_parsed] None merged_db = Inr (fst x, snd x)"
    by (simp add: read_again_def)
  have h: "\<forall>x \<in> set (observations merged_db). \<forall>w y. ob_merged_into x = Some w \<and> get_observation merged_db w = Some y \<longrightarrow>
       \<not> replaced 51 (map_option orn_id (Some sample_run)) y"
    by (simp add: merged_db_def sample_row_def get_observation_def replaced_def)
  have g: "get_observation merged_db 60 = Some sample_row" "ob_source_document sample_row \<noteq> 51"
    by (simp_all add: merged_db_def sample_row_def get_observation_def)
  show ?thesis using import_replaces_only_open_rows [OF r merged_ok h] g r by blast
qed


end
