(* ===== verification/Rotation.thy ===== *)
theory Rotation
  imports Columns
begin

text \<open>
  Moving the encrypted values of a user from one data key to the next (\<open>apps/core/rotation.py\<close>), with the
  checkpoints of \<open>core/models.py\<close>, the check before a key is retired, and the command that runs both
  (\<open>core/management/commands/rotate_encryption_keys.py\<close>). A row is its key, its owner and its columns as
  stored text; the blind index of a merchant under the search key is the argument \<open>index_of\<close>. A batch is one
  transaction, so the result of a walk is the database it leaves together with a report or the error that
  ended it.
\<close>

section \<open>What is rotated\<close>

record encrypted_model =
  em_label :: string
  em_fields :: "string list"
  em_indexes :: "(string \<times> string \<times> string) list"

definition model_of :: "string \<Rightarrow> string list \<Rightarrow> (string \<times> string \<times> string) list \<Rightarrow> encrypted_model" where
  "model_of label names indexes = \<lparr>em_label = label, em_fields = names, em_indexes = indexes\<rparr>"

definition ENCRYPTED_MODELS :: "encrypted_model list" where
  "ENCRYPTED_MODELS =
     [model_of ''transactions.CanonicalTransaction''
        [''amount_encrypted'', ''merchant_encrypted'', ''counterparty_encrypted'', ''notes_encrypted'']
        [(''merchant_blind_index'', ''merchant_encrypted'', ''merchant'')],
      model_of ''observations.ImportedObservation''
        [''merchant_raw_encrypted'', ''merchant_normalized_encrypted'', ''counterparty_raw_encrypted'',
         ''amount_encrypted'', ''balance_after_encrypted'', ''approval_code_encrypted'',
         ''source_region_json_encrypted'']
        [(''merchant_blind_index'', ''merchant_raw_encrypted'', ''merchant'')],
      model_of ''categorization.Category'' [''name_encrypted''] [],
      model_of ''categorization.MerchantAlias'' [''alias_encrypted'', ''normalized_merchant_encrypted'']
        [(''alias_blind_index'', ''alias_encrypted'', ''merchant''),
         (''normalized_merchant_blind_index'', ''normalized_merchant_encrypted'', ''merchant'')],
      model_of ''categorization.CategoryRule''
        [''merchant_pattern_encrypted'', ''amount_min_encrypted'', ''amount_max_encrypted'']
        [(''merchant_pattern_blind_index'', ''merchant_pattern_encrypted'', ''merchant'')],
      model_of ''financial_accounts.FinancialAccount''
        [''name_encrypted'', ''institution_encrypted'', ''masked_identifier_encrypted'',
         ''opening_balance_encrypted''] [],
      model_of ''instruments.PaymentInstrument'' [''name_encrypted'', ''issuer_encrypted''] [],
      model_of ''ledger.ChartOfAccounts'' [''name_encrypted''] [],
      model_of ''ledger.LedgerAccount'' [''name_encrypted''] [],
      model_of ''ledger.LedgerEntry'' [''amount_encrypted''] [],
      model_of ''ocr.OcrRun'' [''configuration_encrypted'', ''preprocessing_encrypted'', ''raw_output_encrypted''] [],
      model_of ''ocr.OcrToken'' [''text_encrypted'', ''normalized_text_encrypted''] [],
      model_of ''reconciliation.ReconciliationMatch'' [''match_features_json_encrypted''] [],
      model_of ''processing.SourceDocument''
        [''original_filename_encrypted'', ''source_institution_guess_encrypted'', ''error_message_encrypted''] []]"

text \<open>
  \<open>sr_owner\<close> is the user the row belongs to, who is the owner of its transaction for a ledger entry: the user
  the rows are selected by and the user in the associated data are the same.
\<close>

record stored_row =
  sr_pk :: id
  sr_owner :: id
  sr_column :: "string \<Rightarrow> string"

definition set_column :: "string \<Rightarrow> string \<Rightarrow> stored_row \<Rightarrow> stored_row" where
  "set_column name v r = r\<lparr>sr_column := (sr_column r)(name := v)\<rparr>"

text \<open>\<open>str\<close> of an identifier, and the label in lower case as the context names a model.\<close>

definition str_id :: "id \<Rightarrow> string" where
  "str_id i = show_int (int i)"

definition lower :: "string \<Rightarrow> string" where
  "lower s = map (\<lambda>c. if 65 \<le> code c \<and> code c \<le> 90 then char_of (code c + 32) else c) s"

definition row_context :: "encrypted_model \<Rightarrow> stored_row \<Rightarrow> string \<Rightarrow> field_context" where
  "row_context spec r name = \<lparr>ctx_model = lower (em_label spec), ctx_record_id = str_id (sr_pk r),
     ctx_field = name, ctx_user_id = str_id (sr_owner r)\<rparr>"

record checkpoint =
  ck_user :: id
  ck_kind :: string
  ck_version :: int
  ck_label :: string
  ck_last :: "id option"
  ck_rows :: nat
  ck_complete :: bool

record rotation_db =
  rd_rows :: "string \<Rightarrow> stored_row list"
  rd_checkpoints :: "checkpoint list"

section \<open>One row\<close>

type_synonym problem = "string \<times> id \<times> string"

record rotation_report =
  rr_examined :: nat
  rr_rewritten :: nat
  rr_fields :: nat
  rr_indexes :: nat
  rr_failures :: "problem list"

definition empty_report :: rotation_report where
  "empty_report = \<lparr>rr_examined = 0, rr_rewritten = 0, rr_fields = 0, rr_indexes = 0, rr_failures = []\<rparr>"

definition merge_report :: "rotation_report \<Rightarrow> rotation_report \<Rightarrow> rotation_report" where
  "merge_report r s = \<lparr>rr_examined = rr_examined r + rr_examined s, rr_rewritten = rr_rewritten r + rr_rewritten s,
     rr_fields = rr_fields r + rr_fields s, rr_indexes = rr_indexes r + rr_indexes s,
     rr_failures = rr_failures r @ rr_failures s\<rparr>"

text \<open>The arguments of \<open>rotate_model\<close>.\<close>

record rotation =
  rt_env :: crypto_env
  rt_index_of :: "id \<Rightarrow> string \<Rightarrow> string result"
  rt_user :: id
  rt_old_key :: string
  rt_new_key :: string
  rt_version :: int
  rt_batch_size :: nat
  rt_dry_run :: bool
  rt_resume :: bool

text \<open>What the loop over the fields of a row has done so far.\<close>

record row_work =
  rw_row :: stored_row
  rw_changed :: "string list"
  rw_plain :: "(string \<times> string) list"
  rw_failures :: "problem list"

definition is_encryption_error :: "error \<Rightarrow> bool" where
  "is_encryption_error e = (e = EncryptionError \<or> e = InvalidCiphertextError)"

definition read_under :: "crypto_env \<Rightarrow> string option \<Rightarrow> field_context \<Rightarrow> string \<Rightarrow> string result" where
  "read_under env k ctx v = read_field (env\<lparr>data_key := k\<rparr>) ctx v"

definition seal_new :: "rotation \<Rightarrow> field_context \<Rightarrow> string \<Rightarrow> string result" where
  "seal_new rt ctx p = encrypt_field ((rt_env rt)\<lparr>key_version := rt_version rt\<rparr>) (rt_new_key rt) ctx p"

definition keep_plain :: "string \<Rightarrow> string \<Rightarrow> row_work \<Rightarrow> row_work" where
  "keep_plain name p w = w\<lparr>rw_plain := (name, p) # rw_plain w\<rparr>"

definition moved_field :: "string \<Rightarrow> string \<Rightarrow> row_work \<Rightarrow> row_work" where
  "moved_field name v w = w\<lparr>rw_row := set_column name v (rw_row w), rw_changed := rw_changed w @ [name]\<rparr>"

definition failed_field :: "problem \<Rightarrow> row_work \<Rightarrow> row_work" where
  "failed_field p w = w\<lparr>rw_failures := rw_failures w @ [p]\<rparr>"

definition rotate_field :: "rotation \<Rightarrow> encrypted_model \<Rightarrow> string \<Rightarrow> row_work \<Rightarrow> row_work result" where
  "rotate_field rt spec name w =
     (let row = rw_row w; stored = sr_column row name; ctx = row_context spec row name;
          version = envelope_key_version stored
      in if stored = [] then Inr w
         else if version = rt_version rt
         then (if is_encrypted_value stored
               then rbind (read_under (rt_env rt) (Some (rt_new_key rt)) ctx stored)
                      (\<lambda>p. Inr (keep_plain name p w))
               else Inr w)
         else (case read_under (rt_env rt) (if version \<noteq> 0 then Some (rt_old_key rt) else None) ctx stored of
                 Inl e \<Rightarrow> if is_encryption_error e
                          then Inr (failed_field (em_label spec, sr_pk row, name) w) else Inl e
               | Inr p \<Rightarrow> rbind (seal_new rt ctx p) (\<lambda>v. Inr (moved_field name v (keep_plain name p w)))))"

text \<open>\<open>_rebuild_indexes\<close>: the row with its new indexes and their number.\<close>

definition plain_of :: "(string \<times> string) list \<Rightarrow> string \<Rightarrow> string" where
  "plain_of ps name = (case map_of ps name of None \<Rightarrow> [] | Some p \<Rightarrow> p)"

fun rebuild_indexes ::
  "rotation \<Rightarrow> (string \<times> string) list \<Rightarrow> (string \<times> string \<times> string) list \<Rightarrow> stored_row \<Rightarrow> (stored_row \<times> nat) result" where
  "rebuild_indexes rt ps [] row = Inr (row, 0)"
| "rebuild_indexes rt ps ((column, source, domain) # ixs) row =
     (if plain_of ps source = [] \<or> domain \<noteq> ''merchant'' then rebuild_indexes rt ps ixs row
      else rbind (rt_index_of rt (sr_owner row) (plain_of ps source)) (\<lambda>token.
             rbind (rebuild_indexes rt ps ixs (set_column column token row)) (\<lambda>(row', n). Inr (row', Suc n))))"

definition fields_step :: "rotation \<Rightarrow> encrypted_model \<Rightarrow> stored_row \<Rightarrow> row_work result" where
  "fields_step rt spec row =
     rfold (rotate_field rt spec) (em_fields spec)
       \<lparr>rw_row = row, rw_changed = [], rw_plain = [], rw_failures = []\<rparr>"

text \<open>One row of a batch: the row as it is saved, and what it adds to the report.\<close>

definition rotate_record :: "rotation \<Rightarrow> encrypted_model \<Rightarrow> stored_row \<Rightarrow> (stored_row \<times> rotation_report) result" where
  "rotate_record rt spec row =
     rbind (fields_step rt spec row) (\<lambda>w.
     rbind (if rw_changed w \<noteq> [] \<and> em_indexes spec \<noteq> []
            then rebuild_indexes rt (rw_plain w) (em_indexes spec) (rw_row w) else Inr (rw_row w, 0))
       (\<lambda>(row', rebuilt).
     Inr (row', \<lparr>rr_examined = 1, rr_rewritten = (if rw_changed w \<noteq> [] then 1 else 0),
                 rr_fields = length (rw_changed w), rr_indexes = rebuilt, rr_failures = rw_failures w\<rparr>)))"

section \<open>Batches and checkpoints\<close>

definition same_walk :: "id \<Rightarrow> string \<Rightarrow> int \<Rightarrow> string \<Rightarrow> checkpoint \<Rightarrow> bool" where
  "same_walk user kind version label c =
     (ck_user c = user \<and> ck_kind c = kind \<and> ck_version c = version \<and> ck_label c = label)"

definition resume_point :: "id \<Rightarrow> int \<Rightarrow> string \<Rightarrow> string \<Rightarrow> rotation_db \<Rightarrow> id option" where
  "resume_point user version label kind db =
     (case find (same_walk user kind version label) (rd_checkpoints db) of
        None \<Rightarrow> None
      | Some c \<Rightarrow> if ck_complete c then None else ck_last c)"

definition advanced :: "id option \<Rightarrow> nat \<Rightarrow> bool \<Rightarrow> checkpoint \<Rightarrow> checkpoint" where
  "advanced cursor rows complete c =
     c\<lparr>ck_last := cursor, ck_rows := ck_rows c + rows, ck_complete := (complete \<or> ck_complete c)\<rparr>"

definition new_checkpoint :: "id \<Rightarrow> string \<Rightarrow> int \<Rightarrow> string \<Rightarrow> checkpoint" where
  "new_checkpoint user kind version label = \<lparr>ck_user = user, ck_kind = kind, ck_version = version,
     ck_label = label, ck_last = None, ck_rows = 0, ck_complete = False\<rparr>"

definition record_progress ::
  "id \<Rightarrow> int \<Rightarrow> string \<Rightarrow> id option \<Rightarrow> nat \<Rightarrow> bool \<Rightarrow> string \<Rightarrow> rotation_db \<Rightarrow> rotation_db" where
  "record_progress user version label cursor rows complete kind db =
     (if find (same_walk user kind version label) (rd_checkpoints db) = None
      then db\<lparr>rd_checkpoints := rd_checkpoints db
             @ [advanced cursor rows complete (new_checkpoint user kind version label)]\<rparr>
      else db\<lparr>rd_checkpoints := map (\<lambda>c. if same_walk user kind version label c
             then advanced cursor rows complete c else c) (rd_checkpoints db)\<rparr>)"

text \<open>The next window of \<open>_batches\<close>: rows of the owner after the cursor, in the order of their keys.\<close>

definition after :: "id option \<Rightarrow> stored_row \<Rightarrow> bool" where
  "after cursor r = (case cursor of None \<Rightarrow> True | Some k \<Rightarrow> k < sr_pk r)"

definition remaining :: "id \<Rightarrow> id option \<Rightarrow> stored_row list \<Rightarrow> stored_row list" where
  "remaining user cursor rows = sort_key sr_pk (filter (\<lambda>r. sr_owner r = user \<and> after cursor r) rows)"

fun rotate_batch ::
  "rotation \<Rightarrow> encrypted_model \<Rightarrow> stored_row list \<Rightarrow> stored_row list \<Rightarrow> rotation_report \<Rightarrow>
     (stored_row list \<times> rotation_report) result" where
  "rotate_batch rt spec [] rows rep = Inr (rows, rep)"
| "rotate_batch rt spec (r # batch) rows rep =
     rbind (rotate_record rt spec r) (\<lambda>(r', rep').
       rotate_batch rt spec batch (put_row sr_pk r' rows) (merge_report rep rep'))"

text \<open>A batch with its checkpoint; a dry run writes neither.\<close>

definition commit_batch ::
  "rotation \<Rightarrow> encrypted_model \<Rightarrow> stored_row list \<Rightarrow> rotation_db \<Rightarrow> rotation_report \<Rightarrow>
     (rotation_db \<times> rotation_report) result" where
  "commit_batch rt spec batch db rep =
     rbind (rotate_batch rt spec batch (rd_rows db (em_label spec)) rep) (\<lambda>(rows, rep').
       Inr (if rt_dry_run rt then db
            else record_progress (rt_user rt) (rt_version rt) (em_label spec) (Some (sr_pk (last batch)))
                   (length batch) False ''data'' (db\<lparr>rd_rows := (rd_rows db)(em_label spec := rows)\<rparr>), rep'))"

text \<open>Where a walk stands: its cursor, its database, its report or the error that ended it.\<close>

definition window :: "rotation \<Rightarrow> encrypted_model \<Rightarrow> id option \<Rightarrow> rotation_db \<Rightarrow> stored_row list" where
  "window rt spec cursor db = take (rt_batch_size rt) (remaining (rt_user rt) cursor (rd_rows db (em_label spec)))"


section \<open>A walk over one model\<close>

lemma remaining_after:
  "after cursor r \<Longrightarrow> remaining user (Some (sr_pk r)) rows = filter (after (Some (sr_pk r))) (remaining user cursor rows)"
  by (auto simp: remaining_def filter_sort after_def split: option.splits
      intro!: arg_cong [where f = "sort_key sr_pk"] filter_cong)

lemma set_remaining: "set (remaining user cursor rows) = {r \<in> set rows. sr_owner r = user \<and> after cursor r}"
  by (auto simp: remaining_def)

lemma sorted_remaining: "sorted (map sr_pk (remaining user cursor rows))"
  by (simp add: remaining_def)

lemma rotate_field_keeps:
  "rotate_field rt spec n w = Inr w1 \<Longrightarrow>
     sr_pk (rw_row w1) = sr_pk (rw_row w) \<and> sr_owner (rw_row w1) = sr_owner (rw_row w)"
  by (auto simp: rotate_field_def Let_def keep_plain_def moved_field_def failed_field_def
        set_column_def split: if_splits sum.splits)

lemma fields_keep_row:
  "rfold (rotate_field rt spec) names w = Inr w' \<Longrightarrow>
     sr_pk (rw_row w') = sr_pk (rw_row w) \<and> sr_owner (rw_row w') = sr_owner (rw_row w)"
proof (induction names arbitrary: w)
  case (Cons n names)
  then obtain w1 where "rotate_field rt spec n w = Inr w1" "rfold (rotate_field rt spec) names w1 = Inr w'" by auto
  with Cons.IH [OF this(2)] rotate_field_keeps [OF this(1)] show ?case by simp
qed simp

lemma rebuild_keeps_row:
  "rebuild_indexes rt ps ixs row = Inr (row', n) \<Longrightarrow> sr_pk row' = sr_pk row \<and> sr_owner row' = sr_owner row"
proof (induction ixs arbitrary: row row' n)
  case (Cons ix ixs)
  obtain column source domain where ix: "ix = (column, source, domain)" by (cases ix)
  show ?case
  proof (cases "plain_of ps source = [] \<or> domain \<noteq> ''merchant''")
    case True
    with Cons.prems ix have "rebuild_indexes rt ps ixs row = Inr (row', n)" by simp
    then show ?thesis by (rule Cons.IH)
  next
    case False
    with Cons.prems ix obtain token m where
      "rebuild_indexes rt ps ixs (set_column column token row) = Inr (row', m)" by auto
    from Cons.IH [OF this] show ?thesis by (simp add: set_column_def)
  qed
qed simp

lemma rotate_record_keeps:
  assumes "rotate_record rt spec row = Inr (row', rep)"
  shows "sr_pk row' = sr_pk row \<and> sr_owner row' = sr_owner row"
proof -
  obtain w n where w: "fields_step rt spec row = Inr w"
    "(if rw_changed w \<noteq> [] \<and> em_indexes spec \<noteq> []
      then rebuild_indexes rt (rw_plain w) (em_indexes spec) (rw_row w) else Inr (rw_row w, 0)) = Inr (row', n)"
    using assms by (auto simp: rotate_record_def)
  have "sr_pk row' = sr_pk (rw_row w) \<and> sr_owner row' = sr_owner (rw_row w)"
    using w(2) rebuild_keeps_row by (auto split: if_splits)
  then show ?thesis using fields_keep_row [OF w(1) [unfolded fields_step_def]] by simp
qed

text \<open>A batch replaces its own rows and no other.\<close>

definition rotated :: "rotation \<Rightarrow> encrypted_model \<Rightarrow> stored_row \<Rightarrow> stored_row" where
  "rotated rt spec r = (case rotate_record rt spec r of Inr (r', rep) \<Rightarrow> r' | Inl e \<Rightarrow> r)"

definition report_of :: "rotation \<Rightarrow> encrypted_model \<Rightarrow> stored_row \<Rightarrow> rotation_report" where
  "report_of rt spec r = (case rotate_record rt spec r of Inr (r', rep) \<Rightarrow> rep | Inl e \<Rightarrow> empty_report)"

definition replaced_rows :: "(stored_row \<Rightarrow> stored_row) \<Rightarrow> stored_row list \<Rightarrow> stored_row list \<Rightarrow> stored_row list" where
  "replaced_rows f batch rows = map (\<lambda>r. if r \<in> set batch then f r else r) rows"

lemma sr_pk_rotated [simp]: "sr_pk (rotated rt spec r) = sr_pk r"
  using rotate_record_keeps by (fastforce simp: rotated_def split: sum.splits prod.splits)

lemma sr_owner_rotated [simp]: "sr_owner (rotated rt spec r) = sr_owner r"
  using rotate_record_keeps by (fastforce simp: rotated_def split: sum.splits prod.splits)

lemma rotate_batch_Inl:
  "rotate_batch rt spec batch rows rep = Inl e \<Longrightarrow> \<exists>r \<in> set batch. rotate_record rt spec r = Inl e"
  by (induction batch arbitrary: rows rep) (auto simp: rbind_Inl)

lemma rotate_batch_Inr:
  "rotate_batch rt spec batch rows rep = Inr (rows', rep') \<Longrightarrow>
     rows' = fold (\<lambda>r. put_row sr_pk (rotated rt spec r)) batch rows
     \<and> rep' = foldl merge_report rep (map (report_of rt spec) batch)
     \<and> (\<forall>r \<in> set batch. \<exists>x. rotate_record rt spec r = Inr x)"
  by (induction batch arbitrary: rows rep) (auto simp: rotated_def report_of_def)

lemma keys_fold_put: "keys sr_pk (fold (\<lambda>r. put_row sr_pk (rotated rt spec r)) batch rows) = keys sr_pk rows"
  by (induction batch arbitrary: rows) auto

lemma fold_put_rows:
  assumes "distinct (keys sr_pk rows)" "set batch \<subseteq> set rows" "distinct (map sr_pk batch)"
  shows "fold (\<lambda>r. put_row sr_pk (rotated rt spec r)) batch rows = replaced_rows (rotated rt spec) batch rows"
proof -
  have same: "x = r" if "x \<in> set rows" "r \<in> set batch" "sr_pk x = sr_pk r" for x r
    using that assms(1,2) by (auto simp: keys_def distinct_map inj_on_def)
  have gen: "fold (\<lambda>r. put_row sr_pk (rotated rt spec r)) bs (map g rows)
      = map (\<lambda>x. if x \<in> set bs then rotated rt spec x else g x) rows"
    if "set bs \<subseteq> set batch" "distinct (map sr_pk bs)" "\<And>x. sr_pk (g x) = sr_pk x" for bs g
    using that
  proof (induction bs arbitrary: g)
    case (Cons b bs)
    let ?g = "\<lambda>x. if x = b then rotated rt spec b else g x"
    have "put_row sr_pk (rotated rt spec b) (map g rows) = map ?g rows"
      using Cons.prems same [of _ b] by (auto simp: put_row_def)
    moreover have "fold (\<lambda>r. put_row sr_pk (rotated rt spec r)) bs (map ?g rows)
        = map (\<lambda>x. if x \<in> set bs then rotated rt spec x else ?g x) rows"
      by (rule Cons.IH) (use Cons.prems in auto)
    ultimately show ?case using Cons.prems(2) by auto
  qed simp
  from gen [of batch "\<lambda>x. x"] assms(3) show ?thesis by (simp add: replaced_rows_def)
qed

text \<open>What lies behind the cursor is not in the way of what lies ahead.\<close>

lemma filter_map_same:
  "(\<And>x. x \<in> set xs \<Longrightarrow> f x = x \<or> (\<not> P x \<and> \<not> P (f x))) \<Longrightarrow> filter P (map f xs) = filter P xs"
proof (induction xs)
  case (Cons a xs)
  have "f a = a \<or> (\<not> P a \<and> \<not> P (f a))" by (rule Cons.prems) simp
  moreover have "filter P (map f xs) = filter P xs" by (rule Cons.IH) (use Cons.prems in auto)
  ultimately show ?case by auto
qed simp

lemma remaining_put:
  "sr_pk r \<le> k \<Longrightarrow> remaining user (Some k) (put_row sr_pk r rows) = remaining user (Some k) rows"
  unfolding remaining_def put_row_def
  by (rule arg_cong [where f = "sort_key sr_pk"], rule filter_map_same) (auto simp: after_def)

lemma remaining_fold_put:
  "(\<And>r. r \<in> set batch \<Longrightarrow> sr_pk r \<le> k) \<Longrightarrow>
     remaining user (Some k) (fold (\<lambda>r. put_row sr_pk (rotated rt spec r)) batch rows) = remaining user (Some k) rows"
  by (induction batch arbitrary: rows) (simp_all add: remaining_put)

lemma sorted_last: "sorted (map f xs) \<Longrightarrow> x \<in> set xs \<Longrightarrow> f x \<le> f (last xs)"
  by (induction xs) (auto split: if_splits)

lemma window_last:
  assumes "window rt spec cursor db \<noteq> []"
  defines "b \<equiv> last (window rt spec cursor db)"
  shows "b \<in> set (remaining (rt_user rt) cursor (rd_rows db (em_label spec)))" "after cursor b"
    "\<forall>r \<in> set (window rt spec cursor db). sr_pk r \<le> sr_pk b"
proof -
  let ?R = "remaining (rt_user rt) cursor (rd_rows db (em_label spec))"
  have "b \<in> set (window rt spec cursor db)" using assms by simp
  then show b: "b \<in> set ?R" by (auto simp: window_def dest: in_set_takeD)
  then show "after cursor b" by (simp add: set_remaining)
  have "sorted (map sr_pk (window rt spec cursor db))"
    using sorted_remaining by (simp add: window_def take_map [symmetric] sorted_wrt_take)
  then show "\<forall>r \<in> set (window rt spec cursor db). sr_pk r \<le> sr_pk b"
    unfolding b_def by (auto intro: sorted_last)
qed

lemma rd_rows_record_progress [simp]: "rd_rows (record_progress u v l c n k kind db) = rd_rows db"
  by (simp add: record_progress_def Let_def)

lemma commit_batch_Inr:
  "commit_batch rt spec batch db rep = Inr (db', rep') \<Longrightarrow>
     rep' = foldl merge_report rep (map (report_of rt spec) batch)
     \<and> (\<forall>r \<in> set batch. \<exists>x. rotate_record rt spec r = Inr x)
     \<and> rd_rows db' = (if rt_dry_run rt then rd_rows db
         else (rd_rows db)(em_label spec :=
           fold (\<lambda>r. put_row sr_pk (rotated rt spec r)) batch (rd_rows db (em_label spec))))"
  unfolding commit_batch_def by (auto dest!: rotate_batch_Inr)

lemma commit_remaining:
  assumes "commit_batch rt spec (window rt spec cursor db) db rep = Inr (db', rep')"
    and "window rt spec cursor db \<noteq> []"
  shows "remaining (rt_user rt) (Some (sr_pk (last (window rt spec cursor db)))) (rd_rows db' (em_label spec))
       = remaining (rt_user rt) (Some (sr_pk (last (window rt spec cursor db)))) (rd_rows db (em_label spec))"
  using commit_batch_Inr [OF assms(1)] window_last(3) [OF assms(2)] by (simp add: remaining_fold_put)

lemma remaining_shrinks:
  assumes "r \<in> set (remaining user cursor rows)"
  shows "length (remaining user (Some (sr_pk r)) rows) < length (remaining user cursor rows)"
proof -
  have "after cursor r" using assms by (simp add: set_remaining)
  moreover have "\<not> after (Some (sr_pk r)) r" by (simp add: after_def)
  ultimately show ?thesis using assms by (auto simp: remaining_after intro: length_filter_less)
qed

text \<open>The loop ends because each batch moves the cursor past a row that was ahead of it.\<close>

function walk ::
  "rotation \<Rightarrow> encrypted_model \<Rightarrow> id option \<Rightarrow> rotation_db \<Rightarrow> rotation_report \<Rightarrow>
     rotation_db \<times> rotation_report result" where
  "walk rt spec cursor db rep =
     (if window rt spec cursor db = [] then (db, Inr rep)
      else (case commit_batch rt spec (window rt spec cursor db) db rep of
              Inl e \<Rightarrow> (db, Inl e)
            | Inr (db', rep') \<Rightarrow>
                walk rt spec (Some (sr_pk (last (window rt spec cursor db)))) db' rep'))"
  by pat_completeness auto
termination
proof (relation "measure (\<lambda>(rt, spec, cursor, db, rep). length (remaining (rt_user rt) cursor (rd_rows db (em_label spec))))")
  fix rt spec cursor db rep p db' rep'
  assume w: "window rt spec cursor db \<noteq> []"
    and c: "commit_batch rt spec (window rt spec cursor db) db rep = Inr p" "(db', rep') = p"
  from c have "commit_batch rt spec (window rt spec cursor db) db rep = Inr (db', rep')" by simp
  from commit_remaining [OF this w] remaining_shrinks [OF window_last(1) [OF w]]
  show "((rt, spec, Some (sr_pk (last (window rt spec cursor db))), db', rep'), rt, spec, cursor, db, rep)
      \<in> measure (\<lambda>(rt, spec, cursor, db, rep). length (remaining (rt_user rt) cursor (rd_rows db (em_label spec))))"
    by simp
qed simp

declare walk.simps [simp del]

text \<open>Induction over the batches of a walk that has ended.\<close>

lemma walk_induct [consumes 1, case_names stop error step]:
  assumes "walk rt spec cursor db rep = (db', res)"
    and stop: "\<And>cursor db rep. window rt spec cursor db = [] \<Longrightarrow> P cursor db rep db (Inr rep)"
    and error: "\<And>cursor db rep e. window rt spec cursor db \<noteq> [] \<Longrightarrow>
      commit_batch rt spec (window rt spec cursor db) db rep = Inl e \<Longrightarrow> P cursor db rep db (Inl e)"
    and step: "\<And>cursor db rep db1 rep1 db' res. window rt spec cursor db \<noteq> [] \<Longrightarrow>
      commit_batch rt spec (window rt spec cursor db) db rep = Inr (db1, rep1) \<Longrightarrow>
      P (Some (sr_pk (last (window rt spec cursor db)))) db1 rep1 db' res \<Longrightarrow> P cursor db rep db' res"
  shows "P cursor db rep db' res"
  using assms(1)
proof (induction "length (remaining (rt_user rt) cursor (rd_rows db (em_label spec)))" arbitrary: cursor db rep
    rule: less_induct)
  case less
  show ?case
  proof (cases "window rt spec cursor db = []")
    case True
    with less.prems have "db' = db" "res = Inr rep" by (simp_all add: walk.simps [of rt spec cursor db rep])
    with stop [OF True] show ?thesis by simp
  next
    case False
    show ?thesis
    proof (cases "commit_batch rt spec (window rt spec cursor db) db rep")
      case (Inl e)
      with less.prems False have "db' = db" "res = Inl e" by (simp_all add: walk.simps [of rt spec cursor db rep])
      with error [OF False Inl] show ?thesis by simp
    next
      case (Inr p)
      obtain db1 rep1 where p: "p = (db1, rep1)" by (cases p)
      have "walk rt spec (Some (sr_pk (last (window rt spec cursor db)))) db1 rep1 = (db', res)"
        using less.prems False Inr p by (simp add: walk.simps [of rt spec cursor db rep])
      moreover have "length (remaining (rt_user rt) (Some (sr_pk (last (window rt spec cursor db)))) (rd_rows db1 (em_label spec)))
          < length (remaining (rt_user rt) cursor (rd_rows db (em_label spec)))"
        using commit_remaining [OF Inr [unfolded p] False] remaining_shrinks [OF window_last(1) [OF False]] by simp
      ultimately show ?thesis using step [OF False Inr [unfolded p]] less.hyps by blast
    qed
  qed
qed

definition start_cursor :: "rotation \<Rightarrow> encrypted_model \<Rightarrow> rotation_db \<Rightarrow> id option" where
  "start_cursor rt spec db =
     (if rt_resume rt \<and> \<not> rt_dry_run rt
      then resume_point (rt_user rt) (rt_version rt) (em_label spec) ''data'' db else None)"

definition rotate_model :: "rotation \<Rightarrow> encrypted_model \<Rightarrow> rotation_db \<Rightarrow> rotation_db \<times> rotation_report result" where
  "rotate_model rt spec db =
     (case walk rt spec (start_cursor rt spec db) db empty_report of
        (db', Inl e) \<Rightarrow> (db', Inl e)
      | (db', Inr rep) \<Rightarrow>
          (if rt_dry_run rt then db'
           else record_progress (rt_user rt) (rt_version rt) (em_label spec) None 0 True ''data'' db', Inr rep))"

fun rotate_user ::
  "rotation \<Rightarrow> encrypted_model list \<Rightarrow> rotation_db \<Rightarrow> rotation_report \<Rightarrow> rotation_db \<times> rotation_report result" where
  "rotate_user rt [] db rep = (db, Inr rep)"
| "rotate_user rt (spec # specs) db rep =
     (case rotate_model rt spec db of
        (db', Inl e) \<Rightarrow> (db', Inl e)
      | (db', Inr rep') \<Rightarrow> rotate_user rt specs db' (merge_report rep rep'))"

section \<open>Verification\<close>

record verification_report =
  vr_rows :: nat
  vr_values :: nat
  vr_unreadable :: "problem list"
  vr_stale :: "problem list"

definition is_clean :: "verification_report \<Rightarrow> bool" where
  "is_clean v = (vr_unreadable v = [] \<and> vr_stale v = [])"

definition merge_verification :: "verification_report \<Rightarrow> verification_report \<Rightarrow> verification_report" where
  "merge_verification v w = \<lparr>vr_rows = vr_rows v + vr_rows w, vr_values = vr_values v + vr_values w,
     vr_unreadable = vr_unreadable v @ vr_unreadable w, vr_stale = vr_stale v @ vr_stale w\<rparr>"

definition verify_value :: "crypto_env \<Rightarrow> string \<Rightarrow> int \<Rightarrow> encrypted_model \<Rightarrow> stored_row \<Rightarrow> string \<Rightarrow> verification_report" where
  "verify_value env k expected spec r name =
     (let stored = sr_column r name; problem = (em_label spec, sr_pk r, name)
      in if stored = [] then \<lparr>vr_rows = 0, vr_values = 0, vr_unreadable = [], vr_stale = []\<rparr>
         else if envelope_key_version stored \<noteq> expected
         then \<lparr>vr_rows = 0, vr_values = 1, vr_unreadable = [], vr_stale = [problem]\<rparr>
         else (case read_under env (Some k) (row_context spec r name) stored of
                 Inr p \<Rightarrow> \<lparr>vr_rows = 0, vr_values = 1, vr_unreadable = [], vr_stale = []\<rparr>
               | Inl e \<Rightarrow> \<lparr>vr_rows = 0, vr_values = 1, vr_unreadable = [problem], vr_stale = []\<rparr>))"

definition verify_row :: "crypto_env \<Rightarrow> string \<Rightarrow> int \<Rightarrow> encrypted_model \<Rightarrow> stored_row \<Rightarrow> verification_report" where
  "verify_row env k expected spec r =
     foldl merge_verification \<lparr>vr_rows = 1, vr_values = 0, vr_unreadable = [], vr_stale = []\<rparr>
       (map (verify_value env k expected spec r) (em_fields spec))"

text \<open>Nothing is written here, so the pages of \<open>_batches\<close> are pages of one list.\<close>

function pages :: "nat \<Rightarrow> stored_row list \<Rightarrow> stored_row list list" where
  "pages n rows = (if take n rows = [] then [] else take n rows # pages n (drop n rows))"
  by pat_completeness auto
termination by (relation "measure (\<lambda>(n, rows). length rows)") auto

declare pages.simps [simp del]

definition verify_user ::
  "crypto_env \<Rightarrow> string \<Rightarrow> int \<Rightarrow> id \<Rightarrow> nat \<Rightarrow> encrypted_model list \<Rightarrow> rotation_db \<Rightarrow> verification_report" where
  "verify_user env k expected user batch_size specs db =
     foldl merge_verification \<lparr>vr_rows = 0, vr_values = 0, vr_unreadable = [], vr_stale = []\<rparr>
       (concat (map (\<lambda>spec. map (verify_row env k expected spec)
          (concat (pages batch_size (remaining user None (rd_rows db (em_label spec)))))) specs))"

lemma concat_pages: "0 < n \<Longrightarrow> concat (pages n rows) = rows"
proof (induction n rows rule: pages.induct)
  case (1 n rows)
  then show ?case by (subst pages.simps) (auto simp: take_eq_Nil)
qed

section \<open>A walk rotates its rows one by one\<close>

lemma keys_replaced [simp]: "keys sr_pk (replaced_rows (rotated rt spec) batch rows) = keys sr_pk rows"
  by (auto simp: replaced_rows_def keys_def)

lemma replaced_twice:
  assumes "distinct (keys sr_pk rows)" "set A \<subseteq> set rows" "set B \<subseteq> set rows" "set A \<inter> set B = {}"
  shows "replaced_rows (rotated rt spec) B (replaced_rows (rotated rt spec) A rows)
       = replaced_rows (rotated rt spec) (A @ B) rows"
proof -
  have "rotated rt spec x \<notin> set B" if "x \<in> set A" for x
  proof
    assume "rotated rt spec x \<in> set B"
    moreover have "\<And>y. y \<in> set rows \<Longrightarrow> sr_pk y = sr_pk x \<Longrightarrow> y = x"
      using assms(1,2) that by (auto simp: keys_def distinct_map inj_on_def)
    ultimately have "rotated rt spec x = x" using assms(3) sr_pk_rotated by blast
    then show False using \<open>rotated rt spec x \<in> set B\<close> that assms(4) by auto
  qed
  then show ?thesis using assms(4) by (auto simp: replaced_rows_def)
qed

lemma distinct_remaining: "distinct (keys sr_pk rows) \<Longrightarrow> distinct (map sr_pk (remaining user cursor rows))"
  by (auto simp: remaining_def keys_def distinct_map inj_on_def)

lemma remaining_behind:
  assumes "distinct (keys sr_pk rows)" "n < length (remaining user cursor rows)"
  shows "remaining user (Some (sr_pk (remaining user cursor rows ! n))) rows = drop (Suc n) (remaining user cursor rows)"
proof -
  let ?R = "remaining user cursor rows"
  have "sorted_wrt (<) (map sr_pk ?R)"
    using sorted_remaining distinct_remaining [OF assms(1)] by (simp add: strict_sorted_iff)
  then have lt: "\<And>i j. i < j \<Longrightarrow> j < length ?R \<Longrightarrow> sr_pk (?R ! i) < sr_pk (?R ! j)"
    by (auto simp: sorted_wrt_iff_nth_less)
  let ?k = "Some (sr_pk (?R ! n))"
  have "after cursor (?R ! n)" using nth_mem [OF assms(2)] by (simp add: set_remaining)
  then have "remaining user ?k rows = filter (after ?k) ?R" by (rule remaining_after)
  also have "\<dots> = filter (after ?k) (take (Suc n) ?R) @ filter (after ?k) (drop (Suc n) ?R)"
    by (metis append_take_drop_id filter_append)
  also have "filter (after ?k) (take (Suc n) ?R) = []"
  proof -
    have "sr_pk (?R ! i) \<le> sr_pk (?R ! n)" if "i < Suc n" for i
      using lt [of i n] assms(2) that by (cases "i = n") auto
    then show ?thesis using assms(2) by (auto simp: filter_empty_conv in_set_conv_nth after_def not_less)
  qed
  also have "filter (after ?k) (drop (Suc n) ?R) = drop (Suc n) ?R"
  proof -
    have "sr_pk (?R ! n) < sr_pk (?R ! (Suc n + i))" if "Suc n + i < length ?R" for i
      using lt [of n "Suc n + i"] that by simp
    then show ?thesis using assms(2) by (auto simp: filter_id_conv in_set_conv_nth after_def)
  qed
  finally show ?thesis by simp
qed

text \<open>The state after one batch: its rows are rotated, and the rest of the walk lies ahead.\<close>

lemma first_batch:
  fixes rt spec cursor db
  defines "R \<equiv> remaining (rt_user rt) cursor (rd_rows db (em_label spec))"
    and "W \<equiv> window rt spec cursor db"
  assumes "commit_batch rt spec W db rep = Inr (db1, rep1)" "W \<noteq> []" "\<not> rt_dry_run rt"
    and "distinct (keys sr_pk (rd_rows db (em_label spec)))"
  shows "rd_rows db1 = (rd_rows db)(em_label spec := replaced_rows (rotated rt spec) W (rd_rows db (em_label spec)))"
    and "remaining (rt_user rt) (Some (sr_pk (last W))) (rd_rows db1 (em_label spec)) = drop (length W) R"
    and "take (length W + n) R = W @ take n (drop (length W) R)"
    and "W @ drop (length W) R = R"
proof -
  have W: "W = take (rt_batch_size rt) R" by (simp add: W_def R_def window_def)
  have sub: "set W \<subseteq> set (rd_rows db (em_label spec))" using W by (auto simp: R_def set_remaining dest: in_set_takeD)
  have dW: "distinct (map sr_pk W)"
    using distinct_remaining [OF assms(6)] by (simp add: W R_def take_map [symmetric])
  note C = commit_batch_Inr [OF assms(3)]
  show "rd_rows db1 = (rd_rows db)(em_label spec := replaced_rows (rotated rt spec) W (rd_rows db (em_label spec)))"
    using C assms(5) fold_put_rows [OF assms(6) sub dW] by simp
  have "last W = R ! (length W - 1)" using assms(4) W by (simp add: last_conv_nth min_def)
  moreover have "length W - 1 < length R" using assms(4) W by (cases R) auto
  moreover have "remaining (rt_user rt) (Some (sr_pk (last W))) (rd_rows db1 (em_label spec))
      = remaining (rt_user rt) (Some (sr_pk (last W))) (rd_rows db (em_label spec))"
    using commit_remaining assms(3,4) unfolding W_def by blast
  ultimately show "remaining (rt_user rt) (Some (sr_pk (last W))) (rd_rows db1 (em_label spec)) = drop (length W) R"
    using remaining_behind [OF assms(6), of "length W - 1" "rt_user rt" cursor] assms(4) by (simp add: R_def)
  have WR: "take (length W) R = W" using W by (simp add: min_def)
  then show "take (length W + n) R = W @ take n (drop (length W) R)" by (simp add: take_add)
  show "W @ drop (length W) R = R" using WR by (metis append_take_drop_id)
qed

lemma walk_rows:
  assumes "walk rt spec cursor db rep = (db', res)" "\<not> rt_dry_run rt" "0 < rt_batch_size rt"
    and "distinct (keys sr_pk (rd_rows db (em_label spec)))"
  shows "\<exists>n. rd_rows db' = (rd_rows db)(em_label spec := replaced_rows (rotated rt spec)
        (take n (remaining (rt_user rt) cursor (rd_rows db (em_label spec)))) (rd_rows db (em_label spec)))
    \<and> (case res of
         Inr rep' \<Rightarrow> length (remaining (rt_user rt) cursor (rd_rows db (em_label spec))) \<le> n
           \<and> rep' = foldl merge_report rep (map (report_of rt spec) (remaining (rt_user rt) cursor (rd_rows db (em_label spec))))
       | Inl e \<Rightarrow> \<exists>r \<in> set (drop n (remaining (rt_user rt) cursor (rd_rows db (em_label spec)))). rotate_record rt spec r = Inl e)"
  using assms
proof (induction rule: walk_induct)
  case (stop cursor db rep)
  then show ?case by (auto simp: replaced_rows_def window_def)
next
  case (error cursor db rep e)
  then have "\<exists>r \<in> set (remaining (rt_user rt) cursor (rd_rows db (em_label spec))). rotate_record rt spec r = Inl e"
    using rotate_batch_Inl by (fastforce simp: commit_batch_def rbind_Inl window_def dest: in_set_takeD)
  then show ?case by (intro exI [of _ 0]) (auto simp: replaced_rows_def)
next
  case (step cursor db rep db1 rep1 db' res)
  let ?l = "em_label spec"
  let ?R = "remaining (rt_user rt) cursor (rd_rows db ?l)"
  let ?W = "window rt spec cursor db"
  let ?D = "drop (length ?W) ?R"
  note B = first_batch [OF step.hyps(2,1) step.prems(1,3)]
  have "distinct (keys sr_pk (rd_rows db1 ?l))" using B(1) step.prems(3) by simp
  then obtain n where n: "rd_rows db' = (rd_rows db1)(?l := replaced_rows (rotated rt spec) (take n ?D) (rd_rows db1 ?l))"
    "case res of Inr rep' \<Rightarrow> length ?D \<le> n \<and> rep' = foldl merge_report rep1 (map (report_of rt spec) ?D)
       | Inl e \<Rightarrow> \<exists>r \<in> set (drop n ?D). rotate_record rt spec r = Inl e"
    using step.IH [OF step.prems(1,2), unfolded B(2)] by blast
  have "distinct (take (length ?W + n) ?R)" using distinct_remaining [OF step.prems(3)] by (simp add: distinct_map)
  then have disj: "set ?W \<inter> set (take n ?D) = {}" unfolding B(3) by simp
  have sub: "set ?W \<subseteq> set (rd_rows db ?l)" "set (take n ?D) \<subseteq> set (rd_rows db ?l)"
    by (auto simp: window_def set_remaining dest!: in_set_takeD in_set_dropD)
  have "replaced_rows (rotated rt spec) (take n ?D) (rd_rows db1 ?l)
      = replaced_rows (rotated rt spec) (take (length ?W + n) ?R) (rd_rows db ?l)"
    unfolding B(3) using B(1) replaced_twice [OF step.prems(3) sub disj] by simp
  moreover have "map (report_of rt spec) ?R = map (report_of rt spec) ?W @ map (report_of rt spec) ?D"
    using B(4) by (metis map_append)
  ultimately show ?case
    using n B(1) commit_batch_Inr [OF step.hyps(2)]
    by (intro exI [of _ "length ?W + n"]) (auto simp: add.commute split: sum.splits)
qed

section \<open>What happens to one value\<close>

definition rotation_ok :: "rotation \<Rightarrow> bool" where
  "rotation_ok rt \<longleftrightarrow> aead_ok (env_aead (rt_env rt)) \<and> (\<forall>ctx v. length (env_nonce (rt_env rt) ctx v) = NONCE_SIZE)
     \<and> length (rt_new_key rt) = 32 \<and> 1 \<le> rt_version rt"

text \<open>How the rotation reads a stored value, and when it has nothing left to do with it.\<close>

definition rotation_read :: "rotation \<Rightarrow> field_context \<Rightarrow> string \<Rightarrow> string result" where
  "rotation_read rt ctx v = read_under (rt_env rt)
     (if envelope_key_version v = rt_version rt then Some (rt_new_key rt)
      else if envelope_key_version v \<noteq> 0 then Some (rt_old_key rt) else None) ctx v"

definition at_version :: "int \<Rightarrow> string \<Rightarrow> bool" where
  "at_version n v = (v = [] \<or> envelope_key_version v = n)"

definition value_kept :: "rotation \<Rightarrow> field_context \<Rightarrow> string \<Rightarrow> string \<Rightarrow> bool" where
  "value_kept rt ctx v v' \<longleftrightarrow> v' = v \<or>
     (\<exists>p. rotation_read rt ctx v = Inr p \<and> read_under (rt_env rt) (Some (rt_new_key rt)) ctx v' = Inr p
        \<and> at_version (rt_version rt) v')"

lemma decrypt_error: "decrypt_value A v k ctx = Inl e \<Longrightarrow> is_encryption_error e"
  by (auto simp: decrypt_value_def raise_if_def is_encryption_error_def
      split: if_splits list.splits option.splits prod.splits)

lemma read_model_error: "read_model_field A k ctx v = Inl e \<Longrightarrow> is_encryption_error e"
  using decrypt_error by (auto simp: read_model_field_def is_encryption_error_def split: if_splits option.splits)

lemma read_field_not_invalid:
  "read_model_field (env_aead env) (data_key env) ctx v \<noteq> Inl InvalidCiphertextError \<Longrightarrow>
     read_field env ctx v = read_model_field (env_aead env) (data_key env) ctx v"
  by (simp add: read_field_def split: sum.splits error.splits)

lemma read_under_error:
  assumes "read_under env k ctx v = Inl e"
  shows "is_encryption_error e"
proof (cases "read_model_field (env_aead env) k ctx v = Inl InvalidCiphertextError")
  case True
  then have "e = InvalidCiphertextError \<or> (\<exists>h. read_model_field (env_aead env) (Some h) ctx v = Inl e)"
    using assms by (auto simp: read_under_def read_field_def Let_def split: if_splits option.splits)
  then show ?thesis
    by (auto simp: is_encryption_error_def dest: read_model_error [unfolded is_encryption_error_def])
next
  case False
  then have "read_model_field (env_aead env) k ctx v = Inl e"
    using assms read_field_not_invalid [of "env\<lparr>data_key := k\<rparr>" ctx v] by (simp add: read_under_def)
  then show ?thesis by (rule read_model_error)
qed

lemma read_empty [simp]: "read_under env k ctx [] = Inr []"
  by (simp add: read_under_def read_field_def read_model_field_def)

lemma seal_new_reads:
  assumes "rotation_ok rt"
  obtains v where "seal_new rt ctx p = Inr v" "read_under (rt_env rt) (Some (rt_new_key rt)) ctx v = Inr p"
    "at_version (rt_version rt) v"
proof (cases "p = []")
  case True
  then show ?thesis by (intro that [of "[]"]) (simp_all add: seal_new_def encrypt_field_def at_version_def)
next
  case False
  let ?k = "rt_new_key rt"
  obtain v where e: "encrypt_value (env_aead (rt_env rt)) (env_nonce (rt_env rt) ctx (rt_version rt)) p ?k ctx
      (rt_version rt) = Inr v"
    using encrypt_value_total [of ?k "rt_version rt"] assms by (fastforce simp: rotation_ok_def)
  have "decrypt_value (env_aead (rt_env rt)) v ?k ctx = Inr p"
    using assms by (intro decrypt_encrypt [OF _ _ _ e]) (auto simp: rotation_ok_def)
  moreover have "v \<noteq> []" using encrypted_is_envelope [OF e] by (auto simp: is_encrypted_value_def)
  ultimately have "read_under (rt_env rt) (Some ?k) ctx v = Inr p"
    using encrypted_is_envelope [OF e] by (simp add: read_under_def read_field_def read_model_field_def)
  with e False envelope_version [OF e] show ?thesis
    by (intro that [of v]) (auto simp: seal_new_def encrypt_field_def at_version_def)
qed

text \<open>What one step of the loop over the fields does, by the value it finds.\<close>

definition unreadable :: "rotation \<Rightarrow> encrypted_model \<Rightarrow> stored_row \<Rightarrow> string \<Rightarrow> bool" where
  "unreadable rt spec r name \<longleftrightarrow> \<not> at_version (rt_version rt) (sr_column r name)
     \<and> (\<exists>e. rotation_read rt (row_context spec r name) (sr_column r name) = Inl e)"

lemma version_encrypted: "1 \<le> n \<Longrightarrow> envelope_key_version v = n \<Longrightarrow> is_encrypted_value v"
  by (auto simp: envelope_key_version_def split: if_splits)

lemma rotate_field_cases:
  assumes "rotation_ok rt" and r: "rw_row w = r" and v: "sr_column r name = v"
  shows "(v = [] \<and> rotate_field rt spec name w = Inr w)
    \<or> (v \<noteq> [] \<and> at_version (rt_version rt) v \<and> rotate_field rt spec name w
         = rbind (rotation_read rt (row_context spec r name) v) (\<lambda>p. Inr (keep_plain name p w)))
    \<or> (unreadable rt spec r name \<and> rotate_field rt spec name w
         = Inr (failed_field (em_label spec, sr_pk r, name) w))
    \<or> (\<exists>p v'. \<not> at_version (rt_version rt) v \<and> rotation_read rt (row_context spec r name) v = Inr p
         \<and> read_under (rt_env rt) (Some (rt_new_key rt)) (row_context spec r name) v' = Inr p
         \<and> at_version (rt_version rt) v'
         \<and> rotate_field rt spec name w = Inr (moved_field name v' (keep_plain name p w)))"
proof (cases "v = []")
  case True
  then show ?thesis by (simp add: rotate_field_def Let_def r v)
next
  case v_ne: False
  show ?thesis
  proof (cases "envelope_key_version v = rt_version rt")
    case True
    then have "is_encrypted_value v" using assms(1) version_encrypted [of "rt_version rt" v] by (simp add: rotation_ok_def)
    with True v_ne show ?thesis
      by (auto simp: rotate_field_def Let_def v r at_version_def rotation_read_def)
  next
    case False
    let ?read = "rotation_read rt (row_context spec r name) v"
    have not_at: "\<not> at_version (rt_version rt) v" using v_ne False by (simp add: at_version_def)
    have step: "rotate_field rt spec name w = (case ?read of
          Inl e \<Rightarrow> if is_encryption_error e then Inr (failed_field (em_label spec, sr_pk r, name) w) else Inl e
        | Inr p \<Rightarrow> rbind (seal_new rt (row_context spec r name) p) (\<lambda>v. Inr (moved_field name v (keep_plain name p w))))"
      using v_ne False by (simp add: rotate_field_def Let_def v r rotation_read_def)
    show ?thesis
    proof (cases ?read)
      case (Inl e)
      then have "is_encryption_error e" unfolding rotation_read_def by (rule read_under_error)
      moreover have "unreadable rt spec r name" using not_at Inl by (simp add: unreadable_def v r)
      ultimately show ?thesis using step Inl by simp
    next
      case (Inr p)
      obtain v' where "seal_new rt (row_context spec r name) p = Inr v'"
        "read_under (rt_env rt) (Some (rt_new_key rt)) (row_context spec r name) v' = Inr p"
        "at_version (rt_version rt) v'"
        using seal_new_reads [OF assms(1)] by blast
      with step Inr not_at show ?thesis by auto
    qed
  qed
qed

definition to_move :: "rotation \<Rightarrow> encrypted_model \<Rightarrow> stored_row \<Rightarrow> string \<Rightarrow> bool" where
  "to_move rt spec r name \<longleftrightarrow> \<not> at_version (rt_version rt) (sr_column r name) \<and> \<not> unreadable rt spec r name"

definition field_done :: "rotation \<Rightarrow> encrypted_model \<Rightarrow> stored_row \<Rightarrow> string \<Rightarrow> row_work \<Rightarrow> bool" where
  "field_done rt spec r name w \<longleftrightarrow>
     value_kept rt (row_context spec r name) (sr_column r name) (sr_column (rw_row w) name)
     \<and> (if unreadable rt spec r name then sr_column (rw_row w) name = sr_column r name
        else at_version (rt_version rt) (sr_column (rw_row w) name))
     \<and> (sr_column r name \<noteq> [] \<and> \<not> unreadable rt spec r name \<longrightarrow>
          (\<exists>p. rotation_read rt (row_context spec r name) (sr_column r name) = Inr p \<and> map_of (rw_plain w) name = Some p))"

lemma rotate_field_effect:
  assumes "rotation_ok rt" "rotate_field rt spec name w = Inr w1"
  shows "field_done rt spec (rw_row w) name w1
     \<and> (\<forall>x. x \<noteq> name \<longrightarrow> sr_column (rw_row w1) x = sr_column (rw_row w) x \<and> map_of (rw_plain w1) x = map_of (rw_plain w) x)
     \<and> rw_failures w1 = rw_failures w @ (if unreadable rt spec (rw_row w) name
          then [(em_label spec, sr_pk (rw_row w), name)] else [])
     \<and> rw_changed w1 = rw_changed w @ (if to_move rt spec (rw_row w) name then [name] else [])"
  using rotate_field_cases [OF assms(1) refl refl, of w name spec] assms(2)
  by (elim disjE conjE exE)
    (auto simp: field_done_def value_kept_def unreadable_def to_move_def at_version_def keep_plain_def moved_field_def
      failed_field_def set_column_def)

lemma same_value:
  "sr_pk r' = sr_pk r \<Longrightarrow> sr_owner r' = sr_owner r \<Longrightarrow> row_context spec r' name = row_context spec r name"
  by (simp add: row_context_def)

lemma fields_effect:
  assumes "rotation_ok rt" "distinct names" "rfold (rotate_field rt spec) names w = Inr w'"
  shows "(\<forall>name \<in> set names. field_done rt spec (rw_row w) name w')
     \<and> (\<forall>x. x \<notin> set names \<longrightarrow> sr_column (rw_row w') x = sr_column (rw_row w) x \<and> map_of (rw_plain w') x = map_of (rw_plain w) x)
     \<and> rw_failures w' = rw_failures w @ map (\<lambda>n. (em_label spec, sr_pk (rw_row w), n)) (filter (unreadable rt spec (rw_row w)) names)
     \<and> rw_changed w' = rw_changed w @ filter (to_move rt spec (rw_row w)) names"
  using assms(2,3)
proof (induction names arbitrary: w)
  case (Cons n names)
  obtain w1 where w1: "rotate_field rt spec n w = Inr w1" "rfold (rotate_field rt spec) names w1 = Inr w'"
    using Cons.prems(2) by auto
  note E = rotate_field_effect [OF assms(1) w1(1)]
  note K = rotate_field_keeps [OF w1(1)]
  have IH: "(\<forall>name \<in> set names. field_done rt spec (rw_row w1) name w')
     \<and> (\<forall>x. x \<notin> set names \<longrightarrow> sr_column (rw_row w') x = sr_column (rw_row w1) x \<and> map_of (rw_plain w') x = map_of (rw_plain w1) x)
     \<and> rw_failures w' = rw_failures w1 @ map (\<lambda>n. (em_label spec, sr_pk (rw_row w1), n)) (filter (unreadable rt spec (rw_row w1)) names)
     \<and> rw_changed w' = rw_changed w1 @ filter (to_move rt spec (rw_row w1)) names"
    using Cons.IH [OF _ w1(2)] Cons.prems(1) by simp
  have ctx: "row_context spec (rw_row w1) x = row_context spec (rw_row w) x" for x
    by (rule same_value) (use K in auto)
  have col: "sr_column (rw_row w1) x = sr_column (rw_row w) x" if "x \<in> set names" for x
    using E Cons.prems(1) that by auto
  have un: "unreadable rt spec (rw_row w1) x = unreadable rt spec (rw_row w) x" if "x \<in> set names" for x
    by (simp only: unreadable_def ctx col [OF that])
  have mv: "to_move rt spec (rw_row w1) x = to_move rt spec (rw_row w) x" if "x \<in> set names" for x
    by (simp only: to_move_def un [OF that] col [OF that])
  have fd: "field_done rt spec (rw_row w1) x w' = field_done rt spec (rw_row w) x w'" if "x \<in> set names" for x
    by (simp only: field_done_def ctx un [OF that] col [OF that])
  have "n \<notin> set names" using Cons.prems(1) by simp
  then have "sr_column (rw_row w') n = sr_column (rw_row w1) n" "map_of (rw_plain w') n = map_of (rw_plain w1) n"
    using IH by blast+
  then have "field_done rt spec (rw_row w) n w'"
    using conjunct1 [OF E] unfolding field_done_def by simp
  then have "\<forall>name \<in> set (n # names). field_done rt spec (rw_row w) name w'" using IH fd by simp
  moreover have "\<forall>x. x \<notin> set (n # names) \<longrightarrow>
      sr_column (rw_row w') x = sr_column (rw_row w) x \<and> map_of (rw_plain w') x = map_of (rw_plain w) x"
    using IH E by simp
  moreover have "filter (unreadable rt spec (rw_row w1)) names = filter (unreadable rt spec (rw_row w)) names"
    using un by (auto intro: filter_cong)
  with IH E K have "rw_failures w' = rw_failures w
      @ map (\<lambda>n. (em_label spec, sr_pk (rw_row w), n)) (filter (unreadable rt spec (rw_row w)) (n # names))" by simp
  moreover have "filter (to_move rt spec (rw_row w1)) names = filter (to_move rt spec (rw_row w)) names"
    using mv by (auto intro: filter_cong)
  with IH E have "rw_changed w' = rw_changed w @ filter (to_move rt spec (rw_row w)) (n # names)" by simp
  ultimately show ?case by blast
qed simp

section \<open>Rows keep their values\<close>

definition spec_ok :: "encrypted_model \<Rightarrow> bool" where
  "spec_ok spec = (distinct (em_fields spec) \<and> list_all (\<lambda>(c, s, d). c \<notin> set (em_fields spec)) (em_indexes spec))"

definition index_columns :: "encrypted_model \<Rightarrow> string set" where
  "index_columns spec = fst ` set (em_indexes spec)"

definition row_kept :: "rotation \<Rightarrow> encrypted_model \<Rightarrow> stored_row \<Rightarrow> stored_row \<Rightarrow> bool" where
  "row_kept rt spec r r' \<longleftrightarrow> sr_pk r' = sr_pk r \<and> sr_owner r' = sr_owner r
     \<and> (\<forall>name \<in> set (em_fields spec).
          value_kept rt (row_context spec r name) (sr_column r name) (sr_column r' name))
     \<and> (\<forall>x. x \<notin> set (em_fields spec) \<union> index_columns spec \<longrightarrow> sr_column r' x = sr_column r x)"

lemma row_kept_refl [simp]: "row_kept rt spec r r"
  by (simp add: row_kept_def value_kept_def)

lemma rebuild_columns:
  "rebuild_indexes rt ps ixs row = Inr (row', n) \<Longrightarrow> x \<notin> fst ` set ixs \<Longrightarrow> sr_column row' x = sr_column row x"
proof (induction ixs arbitrary: row row' n)
  case (Cons ix ixs)
  obtain column source domain where ix: "ix = (column, source, domain)" by (cases ix)
  show ?case
  proof (cases "plain_of ps source = [] \<or> domain \<noteq> ''merchant''")
    case True
    with Cons.prems ix have "rebuild_indexes rt ps ixs row = Inr (row', n)" by simp
    then show ?thesis using Cons.IH Cons.prems(2) by simp
  next
    case False
    with Cons.prems ix obtain token m where
      "rebuild_indexes rt ps ixs (set_column column token row) = Inr (row', m)" by auto
    from Cons.IH [OF this] Cons.prems(2) ix show ?thesis by (simp add: set_column_def)
  qed
qed simp

definition failures_of :: "rotation \<Rightarrow> encrypted_model \<Rightarrow> stored_row \<Rightarrow> problem list" where
  "failures_of rt spec r = map (\<lambda>n. (em_label spec, sr_pk r, n)) (filter (unreadable rt spec r) (em_fields spec))"

lemma rotate_record_effect:
  assumes "rotation_ok rt" "spec_ok spec" "rotate_record rt spec r = Inr (r', rep)"
  shows "row_kept rt spec r r'"
    and "\<And>name. name \<in> set (em_fields spec) \<Longrightarrow> if unreadable rt spec r name
           then sr_column r' name = sr_column r name else at_version (rt_version rt) (sr_column r' name)"
    and "rr_failures rep = failures_of rt spec r" "rr_examined rep = 1"
proof -
  obtain w n where w: "fields_step rt spec r = Inr w"
    "(if rw_changed w \<noteq> [] \<and> em_indexes spec \<noteq> []
      then rebuild_indexes rt (rw_plain w) (em_indexes spec) (rw_row w) else Inr (rw_row w, 0)) = Inr (r', n)"
    and rep: "rr_failures rep = rw_failures w" "rr_examined rep = 1"
    using assms(3) by (auto simp: rotate_record_def)
  have d: "distinct (em_fields spec)" using assms(2) by (simp add: spec_ok_def)
  note F = fields_effect [OF assms(1) d w(1) [unfolded fields_step_def], simplified]
  have off: "sr_column r' x = sr_column (rw_row w) x" if "x \<notin> index_columns spec" for x
    using w(2) rebuild_columns that by (auto simp: index_columns_def split: if_splits)
  have apart: "name \<notin> index_columns spec" if "name \<in> set (em_fields spec)" for name
    using assms(2) that by (auto simp: spec_ok_def index_columns_def list_all_iff)
  have fin: "field_done rt spec r name w" "sr_column r' name = sr_column (rw_row w) name"
    if "name \<in> set (em_fields spec)" for name
    using F off [OF apart [OF that]] that by auto
  show "row_kept rt spec r r'"
    using rotate_record_keeps [OF assms(3)] F off fin by (auto simp: row_kept_def field_done_def)
  show "if unreadable rt spec r name then sr_column r' name = sr_column r name
        else at_version (rt_version rt) (sr_column r' name)" if "name \<in> set (em_fields spec)" for name
    using fin [OF that] by (auto simp: field_done_def)
  show "rr_failures rep = failures_of rt spec r" "rr_examined rep = 1"
    using rep F by (simp_all add: failures_of_def)
qed

lemma rotated_kept: "rotation_ok rt \<Longrightarrow> spec_ok spec \<Longrightarrow> row_kept rt spec r (rotated rt spec r)"
  using rotate_record_effect(1) by (auto simp: rotated_def split: sum.splits)

definition rows_kept :: "rotation \<Rightarrow> encrypted_model \<Rightarrow> stored_row list \<Rightarrow> stored_row list \<Rightarrow> bool" where
  "rows_kept rt spec = list_all2 (\<lambda>r r'. if sr_owner r = rt_user rt then row_kept rt spec r r' else r' = r)"

lemma rows_kept_refl [simp]: "rows_kept rt spec rows rows"
  by (auto simp: rows_kept_def list_all2_refl)

lemma rows_kept_replaced:
  assumes "rotation_ok rt" "spec_ok spec" "\<forall>r \<in> set batch. sr_owner r = rt_user rt"
  shows "rows_kept rt spec rows (replaced_rows (rotated rt spec) batch rows)"
  using assms rotated_kept by (auto simp: rows_kept_def replaced_rows_def list_all2_conv_all_nth)

text \<open>A dry run writes nothing, and neither does a batch size of zero.\<close>

lemma walk_idle:
  assumes "walk rt spec cursor db rep = (db', res)" "rt_dry_run rt \<or> rt_batch_size rt = 0"
  shows "db' = db"
  using assms by (induction rule: walk_induct) (auto simp: window_def commit_batch_def)

lemma walk_kept:
  assumes "rotation_ok rt" "spec_ok spec" "distinct (keys sr_pk (rd_rows db (em_label spec)))"
    and "walk rt spec cursor db rep = (db', res)"
  shows "rows_kept rt spec (rd_rows db (em_label spec)) (rd_rows db' (em_label spec))
    \<and> (\<forall>l. l \<noteq> em_label spec \<longrightarrow> rd_rows db' l = rd_rows db l)"
proof (cases "rt_dry_run rt \<or> rt_batch_size rt = 0")
  case True
  then show ?thesis using walk_idle [OF assms(4)] by simp
next
  case False
  then obtain n where n: "rd_rows db' = (rd_rows db)(em_label spec := replaced_rows (rotated rt spec)
        (take n (remaining (rt_user rt) cursor (rd_rows db (em_label spec)))) (rd_rows db (em_label spec)))"
    using walk_rows [OF assms(4) _ _ assms(3)] by auto
  have "\<forall>r \<in> set (take n (remaining (rt_user rt) cursor (rd_rows db (em_label spec)))). sr_owner r = rt_user rt"
    by (auto simp: set_remaining dest!: in_set_takeD)
  with n rows_kept_replaced [OF assms(1,2)] show ?thesis by simp
qed

lemma rotate_model_kept:
  assumes "rotation_ok rt" "spec_ok spec" "distinct (keys sr_pk (rd_rows db (em_label spec)))"
    and "rotate_model rt spec db = (db', res)"
  shows "rows_kept rt spec (rd_rows db (em_label spec)) (rd_rows db' (em_label spec))
    \<and> (\<forall>l. l \<noteq> em_label spec \<longrightarrow> rd_rows db' l = rd_rows db l)"
proof -
  obtain db1 res1 where w: "walk rt spec (start_cursor rt spec db) db empty_report = (db1, res1)" by fastforce
  have "rd_rows db' = rd_rows db1" using assms(4) w by (auto simp: rotate_model_def split: sum.splits if_splits)
  with walk_kept [OF assms(1-3) w] show ?thesis by simp
qed

section \<open>A rotation that ends, and what verification says of it\<close>

lemma merge_report_empty [simp]: "merge_report empty_report r = r" "merge_report r empty_report = r"
  by (simp_all add: merge_report_def empty_report_def)

lemma merge_report_assoc: "merge_report (merge_report r s) t = merge_report r (merge_report s t)"
  by (simp add: merge_report_def)

lemma foldl_merge: "foldl merge_report (merge_report r s) ts = merge_report r (foldl merge_report s ts)"
  by (induction ts arbitrary: s) (simp_all add: merge_report_assoc)

lemma foldl_failures: "rr_failures (foldl merge_report r (map f xs)) = rr_failures r @ concat (map (\<lambda>x. rr_failures (f x)) xs)"
  by (induction xs arbitrary: r) (simp_all add: merge_report_def)

lemma foldl_examined: "rr_examined (foldl merge_report r (map f xs)) = rr_examined r + sum_list (map (\<lambda>x. rr_examined (f x)) xs)"
  by (induction xs arbitrary: r) (simp_all add: merge_report_def)

text \<open>
  When no value that claims the new version is damaged and every merchant has an index, no row is in the way.
\<close>

definition rotatable :: "rotation \<Rightarrow> encrypted_model \<Rightarrow> stored_row \<Rightarrow> bool" where
  "rotatable rt spec r \<longleftrightarrow>
     (\<forall>name \<in> set (em_fields spec). at_version (rt_version rt) (sr_column r name) \<longrightarrow>
        (\<exists>p. rotation_read rt (row_context spec r name) (sr_column r name) = Inr p))
     \<and> (\<forall>p. p \<noteq> [] \<longrightarrow> (\<exists>t. rt_index_of rt (sr_owner r) p = Inr t))"

lemma rebuild_total:
  "(\<And>p. p \<noteq> [] \<Longrightarrow> \<exists>t. rt_index_of rt (sr_owner row) p = Inr t) \<Longrightarrow> \<exists>x. rebuild_indexes rt ps ixs row = Inr x"
proof (induction ixs arbitrary: row)
  case (Cons ix ixs)
  obtain column source domain where ix: "ix = (column, source, domain)" by (cases ix)
  have IH: "\<exists>x. rebuild_indexes rt ps ixs (set_column column t row) = Inr x" for t
    by (rule Cons.IH) (simp add: set_column_def Cons.prems)
  have "\<exists>x. rebuild_indexes rt ps ixs row = Inr x" by (rule Cons.IH) (rule Cons.prems)
  moreover have "\<exists>t. rt_index_of rt (sr_owner row) (plain_of ps source) = Inr t" if "plain_of ps source \<noteq> []"
    using that by (rule Cons.prems)
  ultimately show ?case using IH by (fastforce simp: ix)
qed simp

lemma fields_total:
  assumes "rotation_ok rt" "distinct names"
    and "\<forall>name \<in> set names. at_version (rt_version rt) (sr_column (rw_row w) name) \<longrightarrow>
        (\<exists>p. rotation_read rt (row_context spec (rw_row w) name) (sr_column (rw_row w) name) = Inr p)"
  shows "\<exists>w'. rfold (rotate_field rt spec) names w = Inr w'"
  using assms(2,3)
proof (induction names arbitrary: w)
  case (Cons n names)
  have "\<exists>w1. rotate_field rt spec n w = Inr w1"
    using rotate_field_cases [OF assms(1) refl refl, of w n spec] Cons.prems(2) by auto
  then obtain w1 where w1: "rotate_field rt spec n w = Inr w1" by blast
  have same: "sr_column (rw_row w1) x = sr_column (rw_row w) x" if "x \<noteq> n" for x
    using rotate_field_effect [OF assms(1) w1] that by blast
  have ctx: "row_context spec (rw_row w1) x = row_context spec (rw_row w) x" for x
    by (rule same_value) (use rotate_field_keeps [OF w1] in auto)
  have "\<exists>w'. rfold (rotate_field rt spec) names w1 = Inr w'"
  proof (rule Cons.IH)
    show "\<forall>name \<in> set names. at_version (rt_version rt) (sr_column (rw_row w1) name) \<longrightarrow>
        (\<exists>p. rotation_read rt (row_context spec (rw_row w1) name) (sr_column (rw_row w1) name) = Inr p)"
    proof (intro ballI impI)
      fix name assume name: "name \<in> set names" "at_version (rt_version rt) (sr_column (rw_row w1) name)"
      have "name \<noteq> n" using name(1) Cons.prems(1) by auto
      with name Cons.prems(2) show "\<exists>p. rotation_read rt (row_context spec (rw_row w1) name) (sr_column (rw_row w1) name) = Inr p"
        by (simp add: same ctx)
    qed
  qed (use Cons.prems(1) in simp)
  with w1 show ?case by simp
qed simp

lemma rotate_record_total:
  assumes "rotation_ok rt" "spec_ok spec" "rotatable rt spec r"
  shows "\<exists>x. rotate_record rt spec r = Inr x"
proof -
  have "\<exists>w. fields_step rt spec r = Inr w"
    unfolding fields_step_def using assms by (intro fields_total) (auto simp: spec_ok_def rotatable_def)
  then obtain w where w: "fields_step rt spec r = Inr w" by blast
  have "sr_owner (rw_row w) = sr_owner r" using fields_keep_row [OF w [unfolded fields_step_def]] by simp
  then have "\<exists>x. rebuild_indexes rt (rw_plain w) (em_indexes spec) (rw_row w) = Inr x"
    using assms(3) by (intro rebuild_total) (simp add: rotatable_def)
  then obtain row n where "rebuild_indexes rt (rw_plain w) (em_indexes spec) (rw_row w) = Inr (row, n)" by fastforce
  with w show ?thesis by (cases "rw_changed w \<noteq> [] \<and> em_indexes spec \<noteq> []") (auto simp: rotate_record_def)
qed

lemma walk_total:
  assumes "walk rt spec cursor db rep = (db', res)" "\<not> rt_dry_run rt" "0 < rt_batch_size rt"
    and "distinct (keys sr_pk (rd_rows db (em_label spec)))" "rotation_ok rt" "spec_ok spec"
    and "\<forall>r \<in> set (rd_rows db (em_label spec)). sr_owner r = rt_user rt \<longrightarrow> rotatable rt spec r"
  defines "R \<equiv> remaining (rt_user rt) cursor (rd_rows db (em_label spec))"
  shows "rd_rows db' = (rd_rows db)(em_label spec := replaced_rows (rotated rt spec) R (rd_rows db (em_label spec)))
    \<and> res = Inr (foldl merge_report rep (map (report_of rt spec) R))"
proof -
  have ok: "\<exists>x. rotate_record rt spec r = Inr x" if "r \<in> set R" for r
    using that assms(5-7) by (intro rotate_record_total) (auto simp: R_def set_remaining)
  obtain n where n: "rd_rows db' = (rd_rows db)(em_label spec := replaced_rows (rotated rt spec) (take n R) (rd_rows db (em_label spec)))"
    "case res of Inr rep' \<Rightarrow> length R \<le> n \<and> rep' = foldl merge_report rep (map (report_of rt spec) R)
     | Inl e \<Rightarrow> \<exists>r \<in> set (drop n R). rotate_record rt spec r = Inl e"
    using walk_rows [OF assms(1-4)] unfolding R_def by blast
  have "\<nexists>e. res = Inl e" using n(2) ok by (fastforce dest: in_set_dropD)
  then obtain rep' where "res = Inr rep'" by (cases res) auto
  with n show ?thesis by simp
qed

lemma insort_key_map: "insort_key k (g x) (map g ys) = map g (insort_key (\<lambda>y. k (g y)) x ys)"
  by (induction ys) auto

lemma sort_key_map: "sort_key k (map g xs) = map g (sort_key (\<lambda>x. k (g x)) xs)"
  by (induction xs) (simp_all add: insort_key_map)

lemma remaining_rotated:
  "remaining user None (replaced_rows (rotated rt spec) (remaining user None rows) rows)
     = map (rotated rt spec) (remaining user None rows)"
proof -
  have "replaced_rows (rotated rt spec) (remaining user None rows) rows
      = map (\<lambda>r. if sr_owner r = user then rotated rt spec r else r) rows"
    by (auto simp: replaced_rows_def set_remaining after_def)
  moreover have "filter (\<lambda>r. sr_owner r = user) (map (\<lambda>r. if sr_owner r = user then rotated rt spec r else r) rows)
      = map (rotated rt spec) (filter (\<lambda>r. sr_owner r = user) rows)"
    by (induction rows) auto
  ultimately show ?thesis by (simp add: remaining_def after_def sort_key_map)
qed

lemma concat_map_concat: "concat (map f (concat (map g xs))) = concat (map (\<lambda>x. concat (map f (g x))) xs)"
  by (induction xs) auto

lemma foldl_stale: "vr_stale (foldl merge_verification v ws) = vr_stale v @ concat (map vr_stale ws)"
  by (induction ws arbitrary: v) (simp_all add: merge_verification_def)

lemma foldl_unreadable: "vr_unreadable (foldl merge_verification v ws) = vr_unreadable v @ concat (map vr_unreadable ws)"
  by (induction ws arbitrary: v) (simp_all add: merge_verification_def)

lemma verify_rotated:
  assumes "rotation_ok rt" "spec_ok spec" "rotatable rt spec r"
  shows "vr_stale (verify_row (rt_env rt) (rt_new_key rt) (rt_version rt) spec (rotated rt spec r)) = failures_of rt spec r"
    and "vr_unreadable (verify_row (rt_env rt) (rt_new_key rt) (rt_version rt) spec (rotated rt spec r)) = []"
proof -
  obtain r' rep where rec: "rotate_record rt spec r = Inr (r', rep)"
    using rotate_record_total [OF assms] by fastforce
  then have r': "rotated rt spec r = r'" by (simp add: rotated_def)
  note E = rotate_record_effect [OF assms(1,2) rec]
  have ctx: "row_context spec r' name = row_context spec r name" for name
    by (rule same_value) (use rotate_record_keeps [OF rec] in auto)
  have pk: "sr_pk r' = sr_pk r" using rotate_record_keeps [OF rec] by simp
  let ?v = "verify_value (rt_env rt) (rt_new_key rt) (rt_version rt) spec r'"
  have one: "vr_unreadable (?v name) = []
      \<and> vr_stale (?v name) = (if unreadable rt spec r name then [(em_label spec, sr_pk r, name)] else [])"
    if name: "name \<in> set (em_fields spec)" for name
  proof (cases "unreadable rt spec r name")
    case True
    then have "\<not> at_version (rt_version rt) (sr_column r' name)" using E(2) [OF name] by (simp add: unreadable_def)
    with True show ?thesis by (simp add: verify_value_def at_version_def Let_def pk)
  next
    case False
    then have at: "at_version (rt_version rt) (sr_column r' name)" using E(2) [OF name] by simp
    have "value_kept rt (row_context spec r name) (sr_column r name) (sr_column r' name)"
      using E(1) name by (simp add: row_kept_def)
    then have "\<exists>p. read_under (rt_env rt) (Some (rt_new_key rt)) (row_context spec r name) (sr_column r' name) = Inr p"
      using at assms(3) name unfolding value_kept_def rotatable_def rotation_read_def at_version_def
      by (cases "sr_column r' name = []") auto
    with at False show ?thesis by (auto simp: verify_value_def at_version_def Let_def ctx)
  qed
  have "concat (map (\<lambda>n. vr_stale (?v n)) names)
      = map (\<lambda>n. (em_label spec, sr_pk r, n)) (filter (unreadable rt spec r) names)"
    if "set names \<subseteq> set (em_fields spec)" for names
    using that by (induction names) (auto simp: one)
  then show "vr_stale (verify_row (rt_env rt) (rt_new_key rt) (rt_version rt) spec (rotated rt spec r)) = failures_of rt spec r"
    by (simp add: r' verify_row_def foldl_stale failures_of_def comp_def)
  show "vr_unreadable (verify_row (rt_env rt) (rt_new_key rt) (rt_version rt) spec (rotated rt spec r)) = []"
    by (simp add: r' verify_row_def foldl_unreadable one)
qed

definition user_rows :: "rotation \<Rightarrow> encrypted_model \<Rightarrow> rotation_db \<Rightarrow> stored_row list" where
  "user_rows rt spec db = remaining (rt_user rt) None (rd_rows db (em_label spec))"

definition ready :: "rotation \<Rightarrow> encrypted_model \<Rightarrow> rotation_db \<Rightarrow> bool" where
  "ready rt spec db \<longleftrightarrow> spec_ok spec \<and> distinct (keys sr_pk (rd_rows db (em_label spec)))
     \<and> start_cursor rt spec db = None \<and> (\<forall>r \<in> set (user_rows rt spec db). rotatable rt spec r)"

text \<open>A checkpoint is found again under its own name, and no other one moves.\<close>

lemma find_append: "find P (xs @ ys) = (case find P xs of Some x \<Rightarrow> Some x | None \<Rightarrow> find P ys)"
  by (induction xs) auto

lemma same_walk_advanced [simp]: "same_walk u k v l (advanced c n b x) = same_walk u k v l x"
  by (simp add: same_walk_def advanced_def)

lemma same_walk_new [simp]:
  "same_walk u k v l (new_checkpoint u' k' v' l') \<longleftrightarrow> u' = u \<and> k' = k \<and> v' = v \<and> l' = l"
  by (simp add: same_walk_def new_checkpoint_def)

lemma find_progress_other:
  "(u', k', v', l') \<noteq> (u, k, v, l) \<Longrightarrow>
     find (same_walk u' k' v' l') (rd_checkpoints (record_progress u v l c n b k db))
       = find (same_walk u' k' v' l') (rd_checkpoints db)"
proof -
  assume other: "(u', k', v', l') \<noteq> (u, k, v, l)"
  have "find (same_walk u' k' v' l') (map (\<lambda>x. if same_walk u k v l x then advanced c n b x else x) xs)
      = find (same_walk u' k' v' l') xs" for xs
    using other by (induction xs) (auto simp: same_walk_def advanced_def)
  then show ?thesis using other by (auto simp: record_progress_def find_append split: option.splits)
qed

lemma find_map_walk:
  "find (same_walk u k v l) (map (\<lambda>x. if same_walk u k v l x then advanced c n b x else x) xs)
     = map_option (advanced c n b) (find (same_walk u k v l) xs)"
  by (induction xs) auto

lemma find_progress:
  "find (same_walk u k v l) (rd_checkpoints (record_progress u v l c n b k db))
     = Some (advanced c n b (case find (same_walk u k v l) (rd_checkpoints db) of
         Some x \<Rightarrow> x | None \<Rightarrow> new_checkpoint u k v l))"
  by (auto simp: record_progress_def find_append find_map_walk split: option.splits)

lemma resume_other:
  "(u', k', v', l') \<noteq> (u, k, v, l) \<Longrightarrow>
     resume_point u' v' l' k' (record_progress u v l c n b k db) = resume_point u' v' l' k' db"
  unfolding resume_point_def by (subst find_progress_other) auto

lemma resume_rows [simp]: "resume_point u v l k (db\<lparr>rd_rows := rows\<rparr>) = resume_point u v l k db"
  by (simp add: resume_point_def)

lemma commit_batch_resume_other:
  "commit_batch rt spec batch db rep = Inr (db', rep') \<Longrightarrow> label \<noteq> em_label spec \<Longrightarrow>
     resume_point u v label k db' = resume_point u v label k db"
  by (auto simp: commit_batch_def resume_other split: if_splits)

lemma walk_resume_other:
  assumes "walk rt spec cursor db rep = (db', res)" "label \<noteq> em_label spec"
  shows "resume_point u v label k db' = resume_point u v label k db"
  using assms by (induction rule: walk_induct) (simp_all add: commit_batch_resume_other)

lemma rotate_model_resume_other:
  "rotate_model rt spec db = (db', res) \<Longrightarrow> label \<noteq> em_label spec \<Longrightarrow>
     resume_point u v label k db' = resume_point u v label k db"
proof -
  assume a: "rotate_model rt spec db = (db', res)" "label \<noteq> em_label spec"
  obtain db1 res1 where w: "walk rt spec (start_cursor rt spec db) db empty_report = (db1, res1)" by fastforce
  show ?thesis
    using a w walk_resume_other [OF w a(2)]
    by (auto simp: rotate_model_def resume_other split: sum.splits if_splits)
qed

lemma model_completes:
  assumes "rotation_ok rt" "\<not> rt_dry_run rt" "0 < rt_batch_size rt" "ready rt spec db"
  obtains db' rep where "rotate_model rt spec db = (db', Inr rep)"
    "user_rows rt spec db' = map (rotated rt spec) (user_rows rt spec db)"
    "\<And>l. l \<noteq> em_label spec \<Longrightarrow> rd_rows db' l = rd_rows db l"
    "rr_failures rep = concat (map (failures_of rt spec) (user_rows rt spec db))"
    "rr_examined rep = length (user_rows rt spec db)"
proof -
  let ?rows = "rd_rows db (em_label spec)"
  obtain db1 res where w: "walk rt spec None db empty_report = (db1, res)" by fastforce
  have rot: "\<forall>r \<in> set ?rows. sr_owner r = rt_user rt \<longrightarrow> rotatable rt spec r"
    using assms(4) by (auto simp: ready_def user_rows_def set_remaining after_def)
  have d: "distinct (keys sr_pk ?rows)" "spec_ok spec" using assms(4) by (auto simp: ready_def)
  have W: "rd_rows db1 = (rd_rows db)(em_label spec := replaced_rows (rotated rt spec) (user_rows rt spec db) ?rows)"
    "res = Inr (foldl merge_report empty_report (map (report_of rt spec) (user_rows rt spec db)))"
    using walk_total [OF w assms(2,3) d(1) assms(1) d(2) rot] by (simp_all add: user_rows_def)
  have rep: "rr_failures (report_of rt spec r) = failures_of rt spec r \<and> rr_examined (report_of rt spec r) = 1"
    if "r \<in> set (user_rows rt spec db)" for r
  proof -
    have "rotatable rt spec r" using assms(4) that by (simp add: ready_def)
    then obtain r' rep where "rotate_record rt spec r = Inr (r', rep)"
      using rotate_record_total [OF assms(1) d(2)] by fastforce
    with rotate_record_effect(3,4) [OF assms(1) d(2) this] show ?thesis by (simp add: report_of_def)
  qed
  let ?db' = "record_progress (rt_user rt) (rt_version rt) (em_label spec) None 0 True ''data'' db1"
  let ?rep = "foldl merge_report empty_report (map (report_of rt spec) (user_rows rt spec db))"
  show ?thesis
  proof (rule that [of ?db' ?rep])
    show "rotate_model rt spec db = (?db', Inr ?rep)"
      using assms(2,4) w W(2) by (simp add: rotate_model_def ready_def)
    show "user_rows rt spec ?db' = map (rotated rt spec) (user_rows rt spec db)"
      using W(1) remaining_rotated by (simp add: user_rows_def)
    show "rr_failures ?rep = concat (map (failures_of rt spec) (user_rows rt spec db))"
      using rep by (simp add: foldl_failures empty_report_def cong: map_cong)
    show "rr_examined ?rep = length (user_rows rt spec db)"
      using rep by (simp add: foldl_examined empty_report_def sum_list_triv cong: map_cong)
  qed (use W(1) in simp)
qed

lemma ready_other:
  assumes "rotate_model rt spec db = (db', res)" "em_label s \<noteq> em_label spec" "rd_rows db' (em_label s) = rd_rows db (em_label s)"
  shows "ready rt s db' = ready rt s db" "user_rows rt s db' = user_rows rt s db"
  using assms(2,3) rotate_model_resume_other [OF assms(1,2)] by (simp_all add: ready_def start_cursor_def user_rows_def)

text \<open>The models after a rotation that ended: their rows are rotated, and every failure is reported.\<close>

lemma user_completes:
  assumes "rotation_ok rt" "\<not> rt_dry_run rt" "0 < rt_batch_size rt" "distinct (map em_label specs)"
    and "\<forall>spec \<in> set specs. ready rt spec db"
  shows "\<exists>db' rep'. rotate_user rt specs db rep = (db', Inr rep')
    \<and> (\<forall>spec \<in> set specs. user_rows rt spec db' = map (rotated rt spec) (user_rows rt spec db))
    \<and> (\<forall>l. l \<notin> em_label ` set specs \<longrightarrow> rd_rows db' l = rd_rows db l)
    \<and> rr_failures rep' = rr_failures rep
        @ concat (map (\<lambda>spec. concat (map (failures_of rt spec) (user_rows rt spec db))) specs)
    \<and> rr_examined rep' = rr_examined rep + sum_list (map (\<lambda>spec. length (user_rows rt spec db)) specs)"
  using assms(4,5)
proof (induction specs arbitrary: db rep)
  case (Cons spec specs)
  obtain db1 rep1 where M: "rotate_model rt spec db = (db1, Inr rep1)"
    "user_rows rt spec db1 = map (rotated rt spec) (user_rows rt spec db)"
    "\<And>l. l \<noteq> em_label spec \<Longrightarrow> rd_rows db1 l = rd_rows db l"
    "rr_failures rep1 = concat (map (failures_of rt spec) (user_rows rt spec db))"
    "rr_examined rep1 = length (user_rows rt spec db)"
    using model_completes [OF assms(1-3)] Cons.prems(2) by (metis list.set_intros(1))
  have ne: "em_label s \<noteq> em_label spec" if "s \<in> set specs" for s
    using Cons.prems(1) imageI [OF that, of em_label] by auto
  note O = ready_other [OF M(1) ne M(3) [OF ne]]
  have "\<forall>s \<in> set specs. ready rt s db1" using O(1) Cons.prems(2) by simp
  then obtain db' rep' where IH: "rotate_user rt specs db1 (merge_report rep rep1) = (db', Inr rep')"
    "\<forall>s \<in> set specs. user_rows rt s db' = map (rotated rt s) (user_rows rt s db1)"
    "\<forall>l. l \<notin> em_label ` set specs \<longrightarrow> rd_rows db' l = rd_rows db1 l"
    "rr_failures rep' = rr_failures (merge_report rep rep1)
        @ concat (map (\<lambda>s. concat (map (failures_of rt s) (user_rows rt s db1))) specs)"
    "rr_examined rep' = rr_examined (merge_report rep rep1) + sum_list (map (\<lambda>s. length (user_rows rt s db1)) specs)"
    using Cons.IH [of db1 "merge_report rep rep1"] Cons.prems(1) by auto
  have "rd_rows db' (em_label spec) = rd_rows db1 (em_label spec)" using IH(3) Cons.prems(1) by auto
  then have here: "user_rows rt spec db' = map (rotated rt spec) (user_rows rt spec db)"
    using M(2) by (simp add: user_rows_def)
  have same: "map (\<lambda>s. concat (map (failures_of rt s) (user_rows rt s db1))) specs
      = map (\<lambda>s. concat (map (failures_of rt s) (user_rows rt s db))) specs"
    "map (\<lambda>s. length (user_rows rt s db1)) specs = map (\<lambda>s. length (user_rows rt s db)) specs"
    using O(2) by auto
  have "rr_failures rep' = rr_failures rep
      @ concat (map (\<lambda>s. concat (map (failures_of rt s) (user_rows rt s db))) (spec # specs))"
    using IH(4) M(4) unfolding same(1) by (simp add: merge_report_def)
  moreover have "rr_examined rep' = rr_examined rep + sum_list (map (\<lambda>s. length (user_rows rt s db)) (spec # specs))"
    using IH(5) M(5) unfolding same(2) by (simp add: merge_report_def)
  ultimately show ?case
    using M(1,3) IH(1-3) O(2) here by (intro exI [of _ db'] exI [of _ rep']) simp
qed simp

lemma rotate_user_kept:
  assumes "rotation_ok rt" "\<forall>spec \<in> set specs. spec_ok spec" "distinct (map em_label specs)"
    and "\<forall>spec \<in> set specs. distinct (keys sr_pk (rd_rows db (em_label spec)))"
    and "rotate_user rt specs db rep = (db', res)"
  shows "(\<forall>spec \<in> set specs. rows_kept rt spec (rd_rows db (em_label spec)) (rd_rows db' (em_label spec)))
    \<and> (\<forall>l. l \<notin> em_label ` set specs \<longrightarrow> rd_rows db' l = rd_rows db l)"
  using assms(2-5)
proof (induction specs arbitrary: db rep)
  case (Cons spec specs)
  obtain db1 res1 where m: "rotate_model rt spec db = (db1, res1)" by fastforce
  have M: "rows_kept rt spec (rd_rows db (em_label spec)) (rd_rows db1 (em_label spec))"
    "\<And>l. l \<noteq> em_label spec \<Longrightarrow> rd_rows db1 l = rd_rows db l"
    using rotate_model_kept [OF assms(1) _ _ m] Cons.prems(1,3) by auto
  have ne: "em_label s \<noteq> em_label spec" if "s \<in> set specs" for s
    using Cons.prems(2) imageI [OF that, of em_label] by auto
  show ?case
  proof (cases res1)
    case (Inl e)
    then have "db' = db1" using Cons.prems(4) m by simp
    with M ne show ?thesis by auto
  next
    case (Inr rep1)
    then have "rotate_user rt specs db1 (merge_report rep rep1) = (db', res)" using Cons.prems(4) m by simp
    from Cons.IH [OF _ _ _ this] Cons.prems(1-3) M(2) ne
    have "(\<forall>s \<in> set specs. rows_kept rt s (rd_rows db1 (em_label s)) (rd_rows db' (em_label s)))
        \<and> (\<forall>l. l \<notin> em_label ` set specs \<longrightarrow> rd_rows db' l = rd_rows db1 l)" by simp
    moreover have "em_label spec \<notin> em_label ` set specs" using Cons.prems(2) by simp
    ultimately show ?thesis using M ne by auto
  qed
qed simp

section \<open>The guarantees\<close>

text \<open>
  C36. No rotation loses a value, whether it ends, is refused by a damaged row or stops at an error: each row
  keeps its key, its owner and every column that is neither encrypted nor an index, and each encrypted value is
  either untouched or reads under the new key alone as the text it read as before. Rows of other users and
  other tables are untouched.
\<close>

theorem rotation_keeps_every_value:
  assumes "rotation_ok rt" "\<forall>spec \<in> set specs. spec_ok spec" "distinct (map em_label specs)"
    and "\<forall>spec \<in> set specs. distinct (keys sr_pk (rd_rows db (em_label spec)))"
    and "rotate_user rt specs db rep = (db', res)"
  shows "(\<forall>spec \<in> set specs. rows_kept rt spec (rd_rows db (em_label spec)) (rd_rows db' (em_label spec)))
    \<and> (\<forall>l. l \<notin> em_label ` set specs \<longrightarrow> rd_rows db' l = rd_rows db l)"
  using rotate_user_kept [OF assms] .

text \<open>
  C37. A rotation over rows that can be rotated ends: it examines every row of the user, reports exactly the
  values it could not read, and the verification that follows finds no other value stale and none unreadable. So
  without failures the verification is clean.
\<close>

theorem rotation_reaches_every_row:
  assumes "rotation_ok rt" "\<not> rt_dry_run rt" "0 < rt_batch_size rt" "distinct (map em_label specs)"
    and "\<forall>spec \<in> set specs. ready rt spec db" "0 < n"
  shows "\<exists>db' rep. rotate_user rt specs db empty_report = (db', Inr rep)
    \<and> rr_examined rep = sum_list (map (\<lambda>spec. length (user_rows rt spec db)) specs)
    \<and> rr_failures rep = concat (map (\<lambda>spec. concat (map (failures_of rt spec) (user_rows rt spec db))) specs)
    \<and> vr_stale (verify_user (rt_env rt) (rt_new_key rt) (rt_version rt) (rt_user rt) n specs db') = rr_failures rep
    \<and> vr_unreadable (verify_user (rt_env rt) (rt_new_key rt) (rt_version rt) (rt_user rt) n specs db') = []"
proof -
  obtain db' rep where U: "rotate_user rt specs db empty_report = (db', Inr rep)"
    "\<forall>spec \<in> set specs. user_rows rt spec db' = map (rotated rt spec) (user_rows rt spec db)"
    "rr_failures rep = concat (map (\<lambda>spec. concat (map (failures_of rt spec) (user_rows rt spec db))) specs)"
    "rr_examined rep = sum_list (map (\<lambda>spec. length (user_rows rt spec db)) specs)"
    using user_completes [OF assms(1-5), of empty_report] by (auto simp: empty_report_def)
  let ?row = "\<lambda>spec. verify_row (rt_env rt) (rt_new_key rt) (rt_version rt) spec"
  have rows: "concat (pages n (remaining (rt_user rt) None (rd_rows db' (em_label spec))))
      = map (rotated rt spec) (user_rows rt spec db)" if "spec \<in> set specs" for spec
    using U(2) that assms(6) by (simp add: concat_pages user_rows_def)
  have one: "vr_stale (?row spec (rotated rt spec r)) = failures_of rt spec r
      \<and> vr_unreadable (?row spec (rotated rt spec r)) = []"
    if "spec \<in> set specs" "r \<in> set (user_rows rt spec db)" for spec r
    using that assms(5) verify_rotated [OF assms(1)] by (simp add: ready_def)
  have "vr_stale (verify_user (rt_env rt) (rt_new_key rt) (rt_version rt) (rt_user rt) n specs db') = rr_failures rep"
    unfolding verify_user_def U(3) foldl_stale concat_map_concat
    by (auto simp: rows one comp_def intro!: arg_cong [where f = concat])
  moreover have "vr_unreadable (verify_user (rt_env rt) (rt_new_key rt) (rt_version rt) (rt_user rt) n specs db') = []"
    unfolding verify_user_def by (auto simp: foldl_unreadable rows one)
  ultimately show ?thesis using U by blast
qed

section \<open>Interrupted rotations\<close>

text \<open>What is left when the process dies after \<open>n\<close> more batches, and what was reported until then.\<close>

fun interrupted ::
  "nat \<Rightarrow> rotation \<Rightarrow> encrypted_model \<Rightarrow> id option \<Rightarrow> rotation_db \<Rightarrow> rotation_report \<Rightarrow> rotation_db \<times> rotation_report" where
  "interrupted 0 rt spec cursor db rep = (db, rep)"
| "interrupted (Suc n) rt spec cursor db rep =
     (if window rt spec cursor db = [] then (db, rep)
      else (case commit_batch rt spec (window rt spec cursor db) db rep of
              Inl e \<Rightarrow> (db, rep)
            | Inr (db', rep') \<Rightarrow>
                interrupted n rt spec (Some (sr_pk (last (window rt spec cursor db)))) db' rep'))"

definition resumable :: "rotation \<Rightarrow> encrypted_model \<Rightarrow> rotation_db \<Rightarrow> bool" where
  "resumable rt spec db \<longleftrightarrow> rt_resume rt \<and> \<not> rt_dry_run rt
     \<and> (case find (same_walk (rt_user rt) ''data'' (rt_version rt) (em_label spec)) (rd_checkpoints db) of
          None \<Rightarrow> True | Some c \<Rightarrow> \<not> ck_complete c)"

lemma resumable_commit:
  assumes "commit_batch rt spec batch db rep = Inr (db', rep')" "resumable rt spec db"
  shows "resumable rt spec db'" "start_cursor rt spec db' = Some (sr_pk (last batch))"
  using assms
  by (auto simp: commit_batch_def resumable_def start_cursor_def resume_point_def find_progress advanced_def
      new_checkpoint_def split: option.splits if_splits)

lemma interrupted_resumes:
  assumes "resumable rt spec db" "cursor = start_cursor rt spec db" "interrupted n rt spec cursor db rep = (db1, rep1)"
  shows "walk rt spec (start_cursor rt spec db1) db1 rep1 = walk rt spec cursor db rep"
  using assms
proof (induction n arbitrary: cursor db rep)
  case (Suc n)
  show ?case
  proof (cases "window rt spec cursor db = []")
    case True
    then show ?thesis using Suc.prems by simp
  next
    case False
    show ?thesis
    proof (cases "commit_batch rt spec (window rt spec cursor db) db rep")
      case (Inl e)
      then show ?thesis using Suc.prems False by simp
    next
      case (Inr p)
      obtain db2 rep2 where p: "p = (db2, rep2)" by (cases p)
      note R = resumable_commit [OF Inr [unfolded p] Suc.prems(1)]
      have "interrupted n rt spec (Some (sr_pk (last (window rt spec cursor db)))) db2 rep2 = (db1, rep1)"
        using Suc.prems(3) False Inr p by simp
      from Suc.IH [OF R(1) R(2) [symmetric] this] show ?thesis
        using False Inr p by (simp add: walk.simps [of rt spec cursor db rep])
    qed
  qed
qed simp

definition with_report :: "rotation_report \<Rightarrow> rotation_report result \<Rightarrow> rotation_report result" where
  "with_report r res = rbind res (\<lambda>s. Inr (merge_report r s))"

lemma rotate_batch_merge:
  "rotate_batch rt spec batch rows (merge_report r rep)
     = rbind (rotate_batch rt spec batch rows rep) (\<lambda>(rows', rep'). Inr (rows', merge_report r rep'))"
proof (induction batch arbitrary: rows rep)
  case (Cons b batch)
  then show ?case by (cases "rotate_record rt spec b") (auto simp: merge_report_assoc)
qed simp

lemma walk_merge:
  assumes "walk rt spec cursor db rep = (db', res)"
  shows "walk rt spec cursor db (merge_report r rep) = (db', with_report r res)"
  using assms
proof (induction rule: walk_induct)
  case (stop cursor db rep)
  then show ?case by (simp add: walk.simps with_report_def)
next
  case (error cursor db rep e)
  then have "rotate_batch rt spec (window rt spec cursor db) (rd_rows db (em_label spec)) rep = Inl e"
    by (auto simp: commit_batch_def rbind_Inl)
  with error(1) show ?case by (simp add: walk.simps [of rt spec cursor db] commit_batch_def rotate_batch_merge with_report_def)
next
  case (step cursor db rep db1 rep1 db' res)
  from step(2) have "commit_batch rt spec (window rt spec cursor db) db (merge_report r rep) = Inr (db1, merge_report r rep1)"
    by (auto simp: commit_batch_def rotate_batch_merge)
  with step show ?case by (simp add: walk.simps [of rt spec cursor db "merge_report r rep"])
qed

text \<open>
  C38. A rotation that dies between two batches and is run again for the same version leaves exactly the
  database of a rotation that was not interrupted, and fails where that one fails. But its report covers only the
  rows after the checkpoint: what the first run failed to read is neither read again nor reported.
\<close>

theorem resumed_rotation_reaches_the_same_state:
  assumes "resumable rt spec db"
    and "interrupted n rt spec (start_cursor rt spec db) db empty_report = (db1, rep1)"
  shows "fst (rotate_model rt spec db1) = fst (rotate_model rt spec db)
    \<and> snd (rotate_model rt spec db) = with_report rep1 (snd (rotate_model rt spec db1))"
proof -
  obtain db2 res where w: "walk rt spec (start_cursor rt spec db1) db1 empty_report = (db2, res)" by fastforce
  have "walk rt spec (start_cursor rt spec db1) db1 rep1 = (db2, with_report rep1 res)"
    using walk_merge [OF w, of rep1] by simp
  then have "walk rt spec (start_cursor rt spec db) db empty_report = (db2, with_report rep1 res)"
    using interrupted_resumes [OF assms(1) refl assms(2)] by simp
  with w show ?thesis by (cases res) (auto simp: rotate_model_def with_report_def)
qed

section \<open>A merchant without a normal form\<close>

lemma rebuild_fails:
  "(column, source, ''merchant'') \<in> set ixs \<Longrightarrow> plain_of ps source \<noteq> [] \<Longrightarrow>
     rt_index_of rt (sr_owner row) (plain_of ps source) = Inl e \<Longrightarrow> \<exists>e'. rebuild_indexes rt ps ixs row = Inl e'"
proof (induction ixs arbitrary: row)
  case (Cons ix ixs)
  obtain c s d where ix: "ix = (c, s, d)" by (cases ix)
  show ?case
  proof (cases "plain_of ps s = [] \<or> d \<noteq> ''merchant''")
    case True
    with Cons.prems ix have "(column, source, ''merchant'') \<in> set ixs" by auto
    with Cons True ix show ?thesis by simp
  next
    case False
    show ?thesis
    proof (cases "rt_index_of rt (sr_owner row) (plain_of ps s)")
      case (Inl x)
      with False ix show ?thesis by simp
    next
      case (Inr t)
      then have "(column, source, ''merchant'') \<in> set ixs" using Cons.prems ix by auto
      from Cons.IH [OF this Cons.prems(2), of "set_column c t row"] Cons.prems(3)
      obtain e' where "rebuild_indexes rt ps ixs (set_column c t row) = Inl e'" by (auto simp: set_column_def)
      with False ix Inr show ?thesis by simp
    qed
  qed
qed simp

definition refused_row :: "rotation \<Rightarrow> encrypted_model \<Rightarrow> stored_row \<Rightarrow> bool" where
  "refused_row rt spec r \<longleftrightarrow> (\<exists>e. rotate_record rt spec r = Inl e)"

lemma no_index_refused:
  assumes "rotation_ok rt" "spec_ok spec" "(column, source, ''merchant'') \<in> set (em_indexes spec)"
    and "source \<in> set (em_fields spec)" "\<not> at_version (rt_version rt) (sr_column r source)"
    and "rotation_read rt (row_context spec r source) (sr_column r source) = Inr p" "p \<noteq> []"
    and "rt_index_of rt (sr_owner r) p = Inl e"
  shows "refused_row rt spec r"
proof (cases "fields_step rt spec r")
  case (Inl x)
  then show ?thesis by (simp add: refused_row_def rotate_record_def)
next
  case (Inr w)
  have d: "distinct (em_fields spec)" using assms(2) by (simp add: spec_ok_def)
  note F = fields_effect [OF assms(1) d Inr [unfolded fields_step_def], simplified]
  have "\<not> unreadable rt spec r source" using assms(6) by (simp add: unreadable_def)
  then have "rw_changed w \<noteq> []" "map_of (rw_plain w) source = Some p"
    using F assms(4-6) by (auto simp: to_move_def field_done_def filter_empty_conv at_version_def)
  moreover have "sr_owner (rw_row w) = sr_owner r" using fields_keep_row [OF Inr [unfolded fields_step_def]] by simp
  ultimately obtain e' where "rebuild_indexes rt (rw_plain w) (em_indexes spec) (rw_row w) = Inl e'"
    using rebuild_fails [OF assms(3), of "rw_plain w" rt "rw_row w" e] assms(7,8) by (auto simp: plain_of_def)
  with Inr \<open>rw_changed w \<noteq> []\<close> assms(3) show ?thesis by (auto simp: refused_row_def rotate_record_def)
qed

lemma walk_refused:
  assumes "walk rt spec cursor db rep = (db', res)" "\<not> rt_dry_run rt" "0 < rt_batch_size rt"
    and "r \<in> set (rd_rows db (em_label spec))" "sr_owner r = rt_user rt" "refused_row rt spec r"
    and "distinct (keys sr_pk (rd_rows db (em_label spec)))"
    and "after cursor r" "after (start_cursor rt spec db) r"
  shows "(\<exists>e. res = Inl e) \<and> r \<in> set (rd_rows db' (em_label spec))
    \<and> distinct (keys sr_pk (rd_rows db' (em_label spec))) \<and> after (start_cursor rt spec db') r"
  using assms
proof (induction rule: walk_induct)
  case (stop cursor db rep)
  then have "r \<in> set (remaining (rt_user rt) cursor (rd_rows db (em_label spec)))" by (simp add: set_remaining)
  with stop show ?case by (auto simp: window_def)
next
  case (error cursor db rep e)
  then show ?case by simp
next
  case (step cursor db rep db1 rep1 db' res)
  note B = first_batch [OF step.hyps(2,1) step.prems(1,6)]
  have "r \<notin> set (window rt spec cursor db)"
    using commit_batch_Inr [OF step.hyps(2)] step.prems(5) by (auto simp: refused_row_def)
  moreover have "r \<in> set (remaining (rt_user rt) cursor (rd_rows db (em_label spec)))"
    using step.prems by (simp add: set_remaining)
  ultimately have "r \<in> set (remaining (rt_user rt) (Some (sr_pk (last (window rt spec cursor db)))) (rd_rows db1 (em_label spec)))"
    using B(2,4) by (metis Un_iff set_append)
  then have r: "r \<in> set (rd_rows db1 (em_label spec))" "after (Some (sr_pk (last (window rt spec cursor db)))) r"
    by (auto simp: set_remaining)
  moreover have "after (start_cursor rt spec db1) r"
    using step.hyps(2) step.prems(1) r(2)
    by (auto simp: commit_batch_def start_cursor_def resume_point_def find_progress advanced_def after_def)
  moreover have "distinct (keys sr_pk (rd_rows db1 (em_label spec)))" using B(1) step.prems(6) by simp
  ultimately show ?case using step.IH step.prems by simp
qed

lemma rotate_model_refused:
  assumes "\<not> rt_dry_run rt" "0 < rt_batch_size rt" "r \<in> set (rd_rows db (em_label spec))"
    and "sr_owner r = rt_user rt" "refused_row rt spec r" "distinct (keys sr_pk (rd_rows db (em_label spec)))"
    and "after (start_cursor rt spec db) r"
  shows "(\<exists>e. snd (rotate_model rt spec db) = Inl e)
    \<and> r \<in> set (rd_rows (fst (rotate_model rt spec db)) (em_label spec))
    \<and> distinct (keys sr_pk (rd_rows (fst (rotate_model rt spec db)) (em_label spec)))
    \<and> after (start_cursor rt spec (fst (rotate_model rt spec db))) r"
proof -
  obtain db' res where w: "walk rt spec (start_cursor rt spec db) db empty_report = (db', res)" by fastforce
  from walk_refused [OF w assms(1-6) assms(7) assms(7)] w show ?thesis by (auto simp: rotate_model_def)
qed

text \<open>
  C39. One merchant that has no normal form stops the rotation of its table for good: as long as its row lies
  ahead of the checkpoint, each of any number of runs ends in an error, the row keeps its old key, and so does
  every row behind it.
\<close>

theorem unindexable_merchant_stops_rotation:
  assumes "rotation_ok rt" "spec_ok spec" "\<not> rt_dry_run rt" "0 < rt_batch_size rt"
    and "distinct (keys sr_pk (rd_rows db (em_label spec)))" "after (start_cursor rt spec db) r"
    and "r \<in> set (rd_rows db (em_label spec))" "sr_owner r = rt_user rt"
    and "(column, source, ''merchant'') \<in> set (em_indexes spec)" "source \<in> set (em_fields spec)"
    and "\<not> at_version (rt_version rt) (sr_column r source)"
    and "rotation_read rt (row_context spec r source) (sr_column r source) = Inr p" "p \<noteq> []"
    and "rt_index_of rt (sr_owner r) p = Inl e"
  defines "run \<equiv> \<lambda>d. fst (rotate_model rt spec d)"
  shows "r \<in> set (rd_rows ((run ^^ n) db) (em_label spec)) \<and> (\<exists>e'. snd (rotate_model rt spec ((run ^^ n) db)) = Inl e')"
proof -
  have ref: "refused_row rt spec r" by (rule no_index_refused) (use assms in auto)
  have "r \<in> set (rd_rows ((run ^^ n) db) (em_label spec)) \<and> distinct (keys sr_pk (rd_rows ((run ^^ n) db) (em_label spec)))
      \<and> after (start_cursor rt spec ((run ^^ n) db)) r"
  proof (induction n)
    case (Suc n)
    with rotate_model_refused [OF assms(3,4) _ assms(8) ref] show ?case by (simp add: run_def)
  qed (use assms in simp)
  with rotate_model_refused [OF assms(3,4) _ assms(8) ref] show ?thesis by simp
qed

section \<open>The command\<close>

text \<open>
  A data key with its version, unwrapped. The version recorded on the user (\<open>User.encryption_key_version\<close>) is
  part of the command's surroundings: nothing in the command, or anywhere else, writes it.
\<close>

record data_key_row =
  dk_version :: int
  dk_key :: string
  dk_active :: bool

record rotation_command =
  rc_env :: crypto_env
  rc_index_of :: "id \<Rightarrow> string \<Rightarrow> string result"
  rc_user :: id
  rc_recorded :: int
  rc_batch_size :: nat
  rc_retire :: bool

text \<open>
  \<open>_read_under_envelope_version\<close> with \<open>data_key_for_version\<close>: no retry when the envelope names the recorded
  version, otherwise the stored key of the version it names.
\<close>

definition historic_of :: "rotation_command \<Rightarrow> data_key_row list \<Rightarrow> string \<Rightarrow> int \<Rightarrow> string option" where
  "historic_of cmd ring user version =
     (if user \<noteq> str_id (rc_user cmd) \<or> rc_recorded cmd = version then None
      else map_option dk_key (find (\<lambda>k. dk_version k = version) ring))"

definition command_env :: "rotation_command \<Rightarrow> data_key_row list \<Rightarrow> crypto_env" where
  "command_env cmd ring = (rc_env cmd)\<lparr>historic_key := historic_of cmd ring\<rparr>"

definition next_ring :: "data_key_row \<Rightarrow> string \<Rightarrow> data_key_row list \<Rightarrow> data_key_row list" where
  "next_ring current new_key ring =
     map (\<lambda>k. if dk_version k = dk_version current then k\<lparr>dk_active := False\<rparr> else k) ring
       @ [\<lparr>dk_version = dk_version current + 1, dk_key = new_key, dk_active = True\<rparr>]"

definition command_rotation :: "rotation_command \<Rightarrow> data_key_row list \<Rightarrow> data_key_row \<Rightarrow> string \<Rightarrow> rotation" where
  "command_rotation cmd ring current new_key =
     \<lparr>rt_env = command_env cmd ring, rt_index_of = rc_index_of cmd, rt_user = rc_user cmd,
      rt_old_key = dk_key current, rt_new_key = new_key, rt_version = dk_version current + 1,
      rt_batch_size = rc_batch_size cmd, rt_dry_run = False, rt_resume = True\<rparr>"

text \<open>
  \<open>_rotate\<close> with the new key \<open>os.urandom\<close> gives. The keys of a user have distinct versions, so an existing
  next version refuses the run; an error of \<open>rotate_user\<close> leaves the new key active and what was committed.
\<close>

definition rotate_command ::
  "rotation_command \<Rightarrow> string \<Rightarrow> data_key_row list \<times> rotation_db \<Rightarrow> data_key_row list \<times> rotation_db" where
  "rotate_command cmd new_key state =
     (case state of (ring, db) \<Rightarrow>
       (case find dk_active ring of
          None \<Rightarrow> (ring, db)
        | Some current \<Rightarrow>
            if dk_version current + 1 \<in> dk_version ` set ring then (ring, db)
            else
              (let ring' = next_ring current new_key ring;
                   rt = command_rotation cmd ring' current new_key
               in case rotate_user rt ENCRYPTED_MODELS db empty_report of
                    (db', Inl e) \<Rightarrow> (ring', db')
                  | (db', Inr rep) \<Rightarrow>
                      if rc_retire cmd \<and> is_clean (verify_user (rt_env rt) new_key (rt_version rt) (rc_user cmd)
                           (rc_batch_size cmd) ENCRYPTED_MODELS db')
                      then (filter (\<lambda>k. dk_version current + 1 \<le> dk_version k) ring', db')
                      else (ring', db'))))"

lemma models_ok: "list_all spec_ok ENCRYPTED_MODELS" "distinct (map em_label ENCRYPTED_MODELS)"
  by code_simp+

text \<open>A value at the recorded version is not retried, so the active key alone decides.\<close>

lemma recorded_version_not_retried:
  assumes "envelope_key_version v = rc_recorded cmd" "1 \<le> rc_recorded cmd"
    and "decrypt_value (env_aead (rc_env cmd)) v k ctx = Inl InvalidCiphertextError"
  shows "read_under (command_env cmd ring) (Some k) ctx v = Inl InvalidCiphertextError"
proof -
  have "is_encrypted_value v" using version_encrypted assms(1,2) by blast
  then have "v \<noteq> []" by (auto simp: is_encrypted_value_def)
  with assms \<open>is_encrypted_value v\<close> show ?thesis
    by (simp add: read_under_def read_field_def read_model_field_def command_env_def historic_of_def Let_def)
qed

definition one_active :: "data_key_row \<Rightarrow> data_key_row list \<Rightarrow> bool" where
  "one_active current ring \<longleftrightarrow> find dk_active ring = Some current
     \<and> (\<forall>k \<in> set ring. dk_active k \<longrightarrow> dk_version k = dk_version current)"

definition switched_off :: "data_key_row \<Rightarrow> data_key_row list \<Rightarrow> data_key_row list" where
  "switched_off current ring = map (\<lambda>k. if dk_version k = dk_version current then k\<lparr>dk_active := False\<rparr> else k) ring"

lemma switched_off_inactive: "one_active current ring \<Longrightarrow> k \<in> set (switched_off current ring) \<Longrightarrow> \<not> dk_active k"
  by (auto simp: one_active_def switched_off_def split: if_splits)

lemma one_active_next:
  fixes key :: string
  assumes "one_active current ring" "n \<le> dk_version current + 1"
  defines "new \<equiv> \<lparr>dk_version = dk_version current + 1, dk_key = key, dk_active = True\<rparr>"
  shows "one_active new (next_ring current key ring)"
    and "one_active new (filter (\<lambda>k. n \<le> dk_version k) (next_ring current key ring))"
proof -
  have ring: "next_ring current key ring = switched_off current ring @ [new]"
    by (simp add: next_ring_def switched_off_def new_def)
  have none: "find dk_active (filter P (switched_off current ring)) = None" for P
    using switched_off_inactive [OF assms(1)] unfolding find_None_iff set_filter by blast
  have "one_active new (filter P (next_ring current key ring))" if "P new" for P
    using none switched_off_inactive [OF assms(1)] that
    by (auto simp: one_active_def ring find_append new_def)
  from this [of "\<lambda>k. True"] this [of "\<lambda>k. n \<le> dk_version k"]
  show "one_active new (next_ring current key ring)"
    and "one_active new (filter (\<lambda>k. n \<le> dk_version k) (next_ring current key ring))"
    using assms(2) by (simp_all add: new_def)
qed

text \<open>One run of the command over a value that opens under neither key it uses.\<close>

definition command_ok :: "rotation_command \<Rightarrow> bool" where
  "command_ok cmd \<longleftrightarrow> aead_ok (env_aead (rc_env cmd)) \<and> (\<forall>ctx v. length (env_nonce (rc_env cmd) ctx v) = NONCE_SIZE)
     \<and> 1 \<le> rc_recorded cmd"

definition closed_value :: "rotation_command \<Rightarrow> encrypted_model \<Rightarrow> string \<Rightarrow> stored_row \<Rightarrow> string \<Rightarrow> bool" where
  "closed_value cmd spec name r k \<longleftrightarrow> envelope_key_version (sr_column r name) = rc_recorded cmd
     \<and> decrypt_value (env_aead (rc_env cmd)) (sr_column r name) k (row_context spec r name) = Inl InvalidCiphertextError"

definition stays :: "rotation_command \<Rightarrow> encrypted_model \<Rightarrow> string \<Rightarrow> stored_row \<Rightarrow> rotation_db \<Rightarrow> bool" where
  "stays cmd spec name r db \<longleftrightarrow> (\<forall>spec \<in> set ENCRYPTED_MODELS. distinct (keys sr_pk (rd_rows db (em_label spec))))
     \<and> (\<exists>r' \<in> set (rd_rows db (em_label spec)). sr_pk r' = sr_pk r \<and> sr_owner r' = sr_owner r
          \<and> sr_column r' name = sr_column r name)"

lemma kept_keys: "rows_kept rt spec rows rows' \<Longrightarrow> keys sr_pk rows' = keys sr_pk rows"
  unfolding rows_kept_def
  by (induction rule: list_all2_induct) (auto simp: keys_def row_kept_def split: if_splits)

lemma kept_row:
  "rows_kept rt spec rows rows' \<Longrightarrow> r \<in> set rows \<Longrightarrow> sr_owner r = rt_user rt \<Longrightarrow>
     \<exists>r' \<in> set rows'. row_kept rt spec r r'"
  unfolding rows_kept_def by (induction rule: list_all2_induct) auto

lemma command_run:
  assumes "command_ok cmd" "spec \<in> set ENCRYPTED_MODELS" "name \<in> set (em_fields spec)" "sr_owner r = rc_user cmd"
    and "one_active current ring" "rc_recorded cmd < dk_version current" "stays cmd spec name r db"
    and "closed_value cmd spec name r (dk_key current)" "length new_key = 32"
    and run: "rotate_command cmd new_key (ring, db) = (ring', db')"
  shows "stays cmd spec name r db' \<and> (\<exists>current'. one_active current' ring' \<and> rc_recorded cmd < dk_version current'
    \<and> dk_key current' \<in> {dk_key current, new_key})"
proof (cases "dk_version current + 1 \<in> dk_version ` set ring")
  case True
  then have "ring' = ring" "db' = db" using run assms(5) by (simp_all add: rotate_command_def one_active_def)
  then show ?thesis using assms(5-7) by blast
next
  case False
  let ?ring = "next_ring current new_key ring"
  let ?rt = "command_rotation cmd ?ring current new_key"
  let ?new = "\<lparr>dk_version = dk_version current + 1, dk_key = new_key, dk_active = True\<rparr>"
  obtain db1 res where u: "rotate_user ?rt ENCRYPTED_MODELS db empty_report = (db1, res)" by fastforce
  have db': "db' = db1" and ring': "ring' = ?ring \<or> ring' = filter (\<lambda>k. dk_version current + 1 \<le> dk_version k) ?ring"
    using run False u assms(5)
    by (auto simp: rotate_command_def one_active_def Let_def split: sum.splits if_splits)
  have new: "one_active ?new ring'" using ring' one_active_next [OF assms(5)] by auto
  have ok: "rotation_ok ?rt"
    using assms(1,6,9) by (simp add: rotation_ok_def command_rotation_def command_env_def command_ok_def)
  have d: "\<forall>s \<in> set ENCRYPTED_MODELS. distinct (keys sr_pk (rd_rows db (em_label s)))"
    using assms(7) by (simp add: stays_def)
  have kept: "\<forall>s \<in> set ENCRYPTED_MODELS. rows_kept ?rt s (rd_rows db (em_label s)) (rd_rows db1 (em_label s))"
    using rotate_user_kept [OF ok _ models_ok(2) d u] models_ok(1) by (simp add: list_all_iff)
  obtain r0 where r0: "r0 \<in> set (rd_rows db (em_label spec))" "sr_pk r0 = sr_pk r" "sr_owner r0 = sr_owner r"
    "sr_column r0 name = sr_column r name" using assms(7) by (auto simp: stays_def)
  have "rt_user ?rt = rc_user cmd" by (simp add: command_rotation_def)
  then obtain r1 where r1: "r1 \<in> set (rd_rows db1 (em_label spec))" and k: "row_kept ?rt spec r0 r1"
    using kept_row [OF bspec [OF kept assms(2)] r0(1)] r0(3) assms(4) by auto
  have ctx: "row_context spec r0 name = row_context spec r name" by (rule same_value) (use r0 in auto)
  have "rotation_read ?rt (row_context spec r name) (sr_column r name) = Inl InvalidCiphertextError"
    using assms(1,6,8) recorded_version_not_retried
    by (simp add: rotation_read_def command_rotation_def closed_value_def command_ok_def)
  then have "sr_column r1 name = sr_column r name"
    using k assms(3) r0(4) ctx by (auto simp: row_kept_def value_kept_def)
  moreover have "sr_pk r1 = sr_pk r" "sr_owner r1 = sr_owner r" using k r0 by (simp_all add: row_kept_def)
  ultimately have "stays cmd spec name r db'"
    using r1 db' d kept kept_keys by (auto simp: stays_def)
  with new assms(6) show ?thesis by (intro conjI exI [of _ ?new]) simp_all
qed

text \<open>
  C40. Once the active key has moved past the version recorded on the user, a value still at that version is
  out of reach: no read under the active key opens it, and no number of further runs of the command moves it.
  So a first rotation that is interrupted after the key switch cannot be finished by running it again.
\<close>

theorem interrupted_rotation_cannot_be_finished:
  assumes "command_ok cmd" "spec \<in> set ENCRYPTED_MODELS" "name \<in> set (em_fields spec)" "sr_owner r = rc_user cmd"
    and "one_active current ring" "rc_recorded cmd < dk_version current" "stays cmd spec name r db"
    and "\<forall>k \<in> set (dk_key current # new_keys). closed_value cmd spec name r k" "\<forall>k \<in> set new_keys. length k = 32"
    and "fold (rotate_command cmd) new_keys (ring, db) = (ring', db')"
  shows "stays cmd spec name r db' \<and> (\<exists>current'. find dk_active ring' = Some current'
    \<and> read_under (command_env cmd ring') (Some (dk_key current')) (row_context spec r name) (sr_column r name)
        = Inl InvalidCiphertextError)"
  using assms(5-10)
proof (induction new_keys arbitrary: current ring db)
  case Nil
  then have "closed_value cmd spec name r (dk_key current)" by simp
  then have "read_under (command_env cmd ring) (Some (dk_key current)) (row_context spec r name) (sr_column r name)
      = Inl InvalidCiphertextError"
    using assms(1) by (intro recorded_version_not_retried) (simp_all add: closed_value_def command_ok_def)
  with Nil show ?case by (auto simp: one_active_def)
next
  case (Cons k new_keys)
  obtain ring1 db1 where run: "rotate_command cmd k (ring, db) = (ring1, db1)" by fastforce
  obtain current' where c: "stays cmd spec name r db1" "one_active current' ring1" "rc_recorded cmd < dk_version current'"
    "dk_key current' \<in> {dk_key current, k}"
    using command_run [OF assms(1-4) Cons.prems(1-3) _ _ run] Cons.prems(4,5) by auto
  show ?case
    by (rule Cons.IH [OF c(2,3,1)]) (use c(4) Cons.prems(4-6) run in auto)
qed

section \<open>Witnesses\<close>

text \<open>A cipher that opens under the key it sealed with, two rows under the first key, and a rotation to the second.\<close>

definition keyed_aead :: aead where
  "keyed_aead = \<lparr>aes_encrypt = (\<lambda>key nonce p aad. p @ take 16 key),
     aes_decrypt = (\<lambda>key nonce c aad.
       if drop (length c - 16) c = take 16 key then Some (take (length c - 16) c) else None)\<rparr>"

definition sample_key :: "char \<Rightarrow> string" where
  "sample_key c = replicate 32 c"

definition keyed_env :: crypto_env where
  "keyed_env = \<lparr>env_aead = keyed_aead, env_nonce = (\<lambda>ctx v. replicate 12 (CHR ''n'')), data_key = None,
     key_version = 1, encryption_required = True, historic_key = (\<lambda>u v. None)\<rparr>"

definition category_spec :: encrypted_model where
  "category_spec = model_of ''categorization.Category'' [''name_encrypted''] []"

definition transaction_spec :: encrypted_model where
  "transaction_spec = model_of ''transactions.CanonicalTransaction''
     [''amount_encrypted'', ''merchant_encrypted'', ''counterparty_encrypted'', ''notes_encrypted'']
     [(''merchant_blind_index'', ''merchant_encrypted'', ''merchant'')]"

definition sealed_food :: string where
  "sealed_food = ''v1.1.bm5ubm5ubm5ubm5u.Rm9vZA==.a2tra2tra2tra2tra2traw==''"

definition row_with :: "string \<Rightarrow> id \<Rightarrow> stored_row" where
  "row_with name k = \<lparr>sr_pk = k, sr_owner = 7, sr_column = (\<lambda>x. if x = name then sealed_food else [])\<rparr>"

definition db_with :: "encrypted_model \<Rightarrow> stored_row list \<Rightarrow> rotation_db" where
  "db_with spec rows = \<lparr>rd_rows = (\<lambda>l. if l = em_label spec then rows else []), rd_checkpoints = []\<rparr>"

definition sample_rotation :: "(id \<Rightarrow> string \<Rightarrow> string result) \<Rightarrow> rotation" where
  "sample_rotation index_of = \<lparr>rt_env = keyed_env, rt_index_of = index_of, rt_user = 7,
     rt_old_key = sample_key (CHR ''k''), rt_new_key = sample_key (CHR ''m''), rt_version = 2,
     rt_batch_size = 1, rt_dry_run = False, rt_resume = True\<rparr>"

abbreviation plain_rotation :: rotation where
  "plain_rotation \<equiv> sample_rotation (\<lambda>u p. Inr ''token'')"

definition two_categories :: rotation_db where
  "two_categories = db_with category_spec [row_with ''name_encrypted'' 1, row_with ''name_encrypted'' 2]"

lemma sealed_food_version: "envelope_key_version sealed_food = 1" "sealed_food \<noteq> []"
  by code_simp (simp add: sealed_food_def)

lemma keyed_ok: "aead_ok keyed_aead" "length (env_nonce keyed_env ctx v) = NONCE_SIZE"
  by (simp_all add: aead_ok_def keyed_aead_def keyed_env_def NONCE_SIZE_def TAG_SIZE_def)

lemma sample_rotation_ok: "rotation_ok (sample_rotation index_of)"
  using keyed_ok by (simp add: rotation_ok_def sample_rotation_def sample_key_def keyed_env_def)

lemma sample_specs_ok: "spec_ok category_spec" "spec_ok transaction_spec"
  by code_simp+

lemma category_rows: "rd_rows two_categories (em_label category_spec) = [row_with ''name_encrypted'' 1, row_with ''name_encrypted'' 2]"
  by (simp add: two_categories_def db_with_def)

lemma category_keys: "distinct (keys sr_pk (rd_rows two_categories (em_label category_spec)))"
  by (simp add: category_rows keys_def row_with_def)

lemma category_ready: "ready plain_rotation category_spec two_categories"
  using sample_specs_ok category_keys
  by (auto simp: ready_def rotatable_def user_rows_def remaining_def category_rows row_with_def at_version_def
      category_spec_def model_of_def sealed_food_version sample_rotation_def start_cursor_def resume_point_def
      two_categories_def db_with_def after_def)

theorem rotation_keeps_every_value_witness:
  "rows_kept plain_rotation category_spec (rd_rows two_categories (em_label category_spec))
     (rd_rows (fst (rotate_user plain_rotation [category_spec] two_categories empty_report)) (em_label category_spec))
   \<and> map (\<lambda>r. envelope_key_version (sr_column r ''name_encrypted''))
      (rd_rows (fst (rotate_user plain_rotation [category_spec] two_categories empty_report)) (em_label category_spec)) = [2, 2]"
  (is "?kept \<and> ?moved")
proof
  show ?kept
    using rotation_keeps_every_value [of plain_rotation "[category_spec]" two_categories empty_report
      "fst (rotate_user plain_rotation [category_spec] two_categories empty_report)"
      "snd (rotate_user plain_rotation [category_spec] two_categories empty_report)"]
      sample_rotation_ok sample_specs_ok category_keys by simp
  show ?moved by code_simp
qed

theorem rotation_reaches_every_row_witness:
  "\<exists>db' rep. rotate_user plain_rotation [category_spec] two_categories empty_report = (db', Inr rep)
    \<and> rr_examined rep = 2 \<and> vr_stale (verify_user keyed_env (sample_key (CHR ''m'')) 2 7 200 [category_spec] db') = rr_failures rep"
proof -
  have "length (user_rows plain_rotation category_spec two_categories) = 2"
    by (simp add: user_rows_def remaining_def category_rows row_with_def after_def sample_rotation_def)
  then show ?thesis
    using rotation_reaches_every_row [of plain_rotation "[category_spec]" two_categories 200]
      sample_rotation_ok category_ready by (auto simp: sample_rotation_def)
qed

theorem resumed_rotation_witness:
  "fst (rotate_model plain_rotation category_spec (fst (interrupted 1 plain_rotation category_spec None two_categories empty_report)))
     = fst (rotate_model plain_rotation category_spec two_categories)
   \<and> map (\<lambda>r. envelope_key_version (sr_column r ''name_encrypted'')) (rd_rows
        (fst (interrupted 1 plain_rotation category_spec None two_categories empty_report)) (em_label category_spec)) = [2, 1]"
  (is "?same \<and> ?half")
proof
  have "resumable plain_rotation category_spec two_categories"
    by (simp add: resumable_def sample_rotation_def two_categories_def db_with_def)
  moreover have "start_cursor plain_rotation category_spec two_categories = None"
    by (simp add: start_cursor_def resume_point_def two_categories_def db_with_def)
  ultimately show ?same
    using resumed_rotation_reaches_the_same_state [of plain_rotation category_spec two_categories 1
      "fst (interrupted 1 plain_rotation category_spec None two_categories empty_report)"
      "snd (interrupted 1 plain_rotation category_spec None two_categories empty_report)"] by simp
  show ?half by code_simp
qed

abbreviation refusing_rotation :: rotation where
  "refusing_rotation \<equiv> sample_rotation (\<lambda>u p. Inl InvalidRequestError)"

lemma merchant_readable:
  "rotation_read refusing_rotation (row_context transaction_spec (row_with ''merchant_encrypted'' 1) ''merchant_encrypted'')
     sealed_food = Inr ''Food''"
  by code_simp

theorem unindexable_merchant_witness:
  "row_with ''merchant_encrypted'' 1 \<in> set (rd_rows (((\<lambda>d. fst (rotate_model refusing_rotation transaction_spec d)) ^^ 3)
     (db_with transaction_spec [row_with ''merchant_encrypted'' 1])) (em_label transaction_spec))"
proof -
  let ?db = "db_with transaction_spec [row_with ''merchant_encrypted'' 1]"
  have "after (start_cursor refusing_rotation transaction_spec ?db) (row_with ''merchant_encrypted'' 1)"
    by (simp add: start_cursor_def resume_point_def db_with_def after_def)
  then show ?thesis
    using unindexable_merchant_stops_rotation [of refusing_rotation transaction_spec ?db "row_with ''merchant_encrypted'' 1"
        "''merchant_blind_index''" "''merchant_encrypted''" "''Food''" InvalidRequestError 3]
      sample_rotation_ok sample_specs_ok merchant_readable
    by (simp add: sample_rotation_def db_with_def keys_def row_with_def transaction_spec_def model_of_def at_version_def
        sealed_food_version)
qed

definition stranded_command :: rotation_command where
  "stranded_command = \<lparr>rc_env = keyed_env, rc_index_of = (\<lambda>u p. Inr ''token''), rc_user = 7, rc_recorded = 1,
     rc_batch_size = 200, rc_retire = True\<rparr>"

definition switched_ring :: "data_key_row list" where
  "switched_ring = next_ring \<lparr>dk_version = 1, dk_key = sample_key (CHR ''k''), dk_active = True\<rparr> (sample_key (CHR ''m''))
     [\<lparr>dk_version = 1, dk_key = sample_key (CHR ''k''), dk_active = True\<rparr>]"

lemma food_closed:
  "closed_value stranded_command category_spec ''name_encrypted'' (row_with ''name_encrypted'' 1) (sample_key (CHR ''m''))"
  "closed_value stranded_command category_spec ''name_encrypted'' (row_with ''name_encrypted'' 1) (sample_key (CHR ''q''))"
  by code_simp+

lemma two_categories_stay: "stays stranded_command category_spec ''name_encrypted'' (row_with ''name_encrypted'' 1) two_categories"
proof -
  have "distinct (keys sr_pk (rd_rows two_categories l))" for l
    by (simp add: two_categories_def db_with_def keys_def row_with_def)
  then show ?thesis by (auto simp: stays_def category_rows)
qed

theorem interrupted_rotation_witness:
  "stays stranded_command category_spec ''name_encrypted'' (row_with ''name_encrypted'' 1)
     (snd (fold (rotate_command stranded_command) [sample_key (CHR ''q'')] (switched_ring, two_categories)))"
proof -
  have "category_spec \<in> set ENCRYPTED_MODELS" by (simp add: category_spec_def ENCRYPTED_MODELS_def)
  moreover have "command_ok stranded_command"
    using keyed_ok by (simp add: command_ok_def stranded_command_def keyed_env_def)
  moreover have "one_active \<lparr>dk_version = 2, dk_key = sample_key (CHR ''m''), dk_active = True\<rparr> switched_ring"
    by (simp add: one_active_def switched_ring_def next_ring_def)
  ultimately show ?thesis
    using interrupted_rotation_cannot_be_finished [of stranded_command category_spec "''name_encrypted''"
        "row_with ''name_encrypted'' 1" "\<lparr>dk_version = 2, dk_key = sample_key (CHR ''m''), dk_active = True\<rparr>"
        switched_ring two_categories "[sample_key (CHR ''q'')]"
        "fst (fold (rotate_command stranded_command) [sample_key (CHR ''q'')] (switched_ring, two_categories))"
        "snd (fold (rotate_command stranded_command) [sample_key (CHR ''q'')] (switched_ring, two_categories))"]
      food_closed two_categories_stay
    by (simp add: category_spec_def model_of_def stranded_command_def row_with_def sample_key_def)
qed

end
