(* ===== verification/Spec2Isabelle.thy ===== *)
theory Spec2Isabelle
  imports Columns Balances Opening Pipeline Events Reports Categorize Import Rotation
begin

text \<open>
  A model of meelo, a Django application that turns screenshots of bank and card apps into a double-entry
  ledger. Paths below are under \<open>src/\<close>. Data are records and datatypes with the names of the source, every
  service is a function from the database to a result, and every exception is a value of \<open>error\<close>.

  The program. A user uploads a screenshot, which becomes a document with a job. A worker claims the job and
  runs the pipeline, which reads the screenshot and stores imported observations, the rows of the screenshot
  as evidence. Rows are compared with each other: duplicates, transfers between accounts, refunds, card
  statements and instalments are proposed as matches. A reviewer corrects, accepts, rejects or merges rows and
  confirms matches; accepting makes a canonical transaction, and a confirmed transaction is posted to the
  ledger. Confirmed transactions are corrected through named doors or deleted by reversal, never edited.
  Categories are assigned by an engine over rules, aliases and earlier answers, and reports add up what the
  transactions say. Amounts and names are stored encrypted.

  The theories, from the bottom:

  Prelude, PyText: errors and results, keyed tables (\<open>keyed_store\<close>), running totals, and Python's text
  operations on characters below 256.

  Money: the currency registry (\<open>apps/core/currencies.py\<close>), \<open>Currency\<close> and \<open>Money\<close>
  (\<open>core/value_objects.py\<close>) with decimal rounding, and the encoding of amounts (\<open>core/encrypted_values.py\<close>).
  Crypto and Columns: the envelope of one column (\<open>core/crypto.py\<close>, \<open>core/encrypted_fields.py\<close>,
  \<open>transactions/money.py\<close>); AES-GCM is the parameter \<open>aead\<close> with its contract \<open>aead_ok\<close>. Their lemmas are
  the round trips that let every later theory keep the decoded amount where the database keeps an envelope.

  Models: the rows and the database record \<open>db\<close>. Hierarchy: parent links and the cycle check of
  \<open>Category.clean\<close> and \<open>LedgerAccount.clean\<close>. Lifecycle: the locale of rows with a table of legal moves,
  interpreted on transactions and documents.

  Ledger, Chart, Balances: posting, reversal and posting rules (\<open>ledger/posting.py\<close>, \<open>ledger/rules.py\<close>),
  the chart of accounts (\<open>ledger/chart.py\<close>) and balances (\<open>ledger/balances.py\<close>). \<open>ledger_ok\<close> is the
  invariant of the books: entries are positive, of one owner, and balanced per transaction and currency.

  Transactions: validation, life cycle, idempotent saving, manual entry and deletion (\<open>apps/transactions\<close>);
  \<open>books_ok\<close> joins the ledger invariant with uniqueness of origins and is kept by every sequence of services,
  and \<open>keeps_history\<close> says what may never change of a confirmed transaction. Opening: opening balances
  (\<open>financial_accounts/opening_balances.py\<close>).

  Documents, Jobs, Pipeline: error codes and retry policy, the document states, storage and retention,
  overrides, the queue of jobs with claim, failure and recovery, and the worker (\<open>apps/processing\<close>,
  \<open>core/errors.py\<close>). Steps of the queue are an inductive relation; the outcome of reading a screenshot is an
  argument of the pipeline.

  Import: what a parser reports, the registry that chooses one (\<open>parsing/contracts.py\<close>, \<open>registry.py\<close>) and
  the import of its rows (\<open>observations/services.py\<close>); the parsers are arguments. Its invariant is that of Review.

  Observations: risk, checks and the reviewer's decisions (\<open>apps/observations\<close>). Matching: scores and
  proposals (\<open>reconciliation/duplicates.py\<close>, \<open>matching.py\<close>), pure functions. Reconcile: recording, linking,
  confirming and undoing matches (\<open>services.py\<close>, \<open>transfers.py\<close>, \<open>refunds.py\<close>). Review: the invariant over
  all of these services as one inductive relation. Events: what confirmations amount to, and what undoing them
  leaves behind.

  Reports: buckets of transaction types (\<open>transactions/classification.py\<close>), months, totals, breakdowns,
  activity and overview (\<open>apps/reports\<close>); the locale \<open>report_columns\<close> holds the accounting argument shared by
  the three kinds of report. Categorize: the engine, its services and rules made from corrections
  (\<open>apps/categorization\<close>); \<open>offers\<close> and \<open>best_rule\<close> are the specification the engine refines.

  Rotation: the walk over the encrypted columns that seals every value again under a new data key, its batches
  and checkpoints, verification and the command (\<open>core/rotation.py\<close>). Its lemmas show what one row, one batch and
  the whole walk leave (\<open>walk_induct\<close>), and what a stopped rotation can and cannot do when it is started again.

  Conventions. A table is the list of its rows in the order of creation, keys are drawn from one counter,
  dates and times are integers. \<open>transaction.atomic\<close> is the result type: an error leaves the database of the
  caller. Row locks serialise the services, so an interleaving is a sequence of steps. Text that is encrypted at
  rest is kept as the text a reader with the key gets. The audit stream is kept without its digest chain. Strings
  have characters below 256, except that money texts are lists of code points.

  Parameters: AES-GCM, the similarity of texts, case folding, keyed digests, the blind index of a name, the
  outcome of optical recognition and parsing, the state of the file system, random jitter. Each is an argument,
  and a property that relies on one states what it needs as a hypothesis.

  Loops: those over a table are recursion over its rows. The cycle check ends because the rows it has visited
  grow (\<open>cycle_from\<close>), the claim of a job because each refused job leaves the queue (\<open>claim_next\<close>), both with
  their \<open>termination\<close> proof. The unguarded \<open>ancestors\<close> loop is a \<open>partial_function\<close> whose value is None when it
  does not return; \<open>clean_keeps_ancestors_finite\<close> shows that it does after every accepted save. No definition
  takes fuel.

  Where a property is of the kind error or names a finding, the theorem states what the code does, and the
  manifest says what it means to do.

  Not modelled: the parsers of the institutions and the shared recognisers of text (regular expressions over
  recognised blocks), optical recognition and images, wrapping of data keys, users and sessions, exports and
  rendering, the start-up audit of models, metrics and logs, management commands other than rotation, settings.
\<close>

end
